(* ===== verification/OS_Prelude.thy ===== *)
theory OS_Prelude
  imports Main "HOL-Library.While_Combinator"
begin

text \<open>
  Shared vocabulary of the development.  A C function that can dereference a null pointer, index an
  array out of its bounds, fail an \<open>assert\<close> or loop for ever is modelled as a function into
  \<open>fault + result\<close>: \<open>Inl\<close> is the way it goes wrong, \<open>Inr\<close> is the value and the state it returns.
  The theory holds that result type with its sequencing operator, total-correctness predicate
  \<open>ok_with\<close> and loop operator, the conversions of C integers, and the list lemmas that the
  components share.
\<close>

named_theorems dsos_consts "the numeric constants of the program"
named_theorems effects "the states that the operations leave"

section \<open>Faults and sequencing\<close>

datatype fault =
    Null_deref      \<comment> \<open>a null pointer is dereferenced\<close>
  | Bad_pointer     \<comment> \<open>pointer arithmetic across two objects\<close>
  | Out_of_bounds   \<comment> \<open>an array is indexed outside its bounds\<close>
  | Div_by_zero     \<comment> \<open>an integer division by zero\<close>
  | Signed_overflow \<comment> \<open>a signed addition leaves the range of \<open>int\<close>\<close>
  | Assert_failed   \<comment> \<open>an \<open>assert\<close> does not hold\<close>
  | Diverges        \<comment> \<open>a loop never ends\<close>

fun and_then :: "fault + 'a \<Rightarrow> ('a \<Rightarrow> fault + 'b) \<Rightarrow> fault + 'b" where
  "and_then (Inl e) f = Inl e"
| "and_then (Inr a) f = f a"

fun deref :: "'p option \<Rightarrow> fault + 'p" where
  "deref None = Inl Null_deref"
| "deref (Some p) = Inr p"

definition assert_that :: "bool \<Rightarrow> fault + unit" where
  "assert_that b = (if b then Inr () else Inl Assert_failed)"

text \<open>Total correctness of a result: it is no fault, and its value has the property.\<close>

fun ok_with :: "fault + 'a \<Rightarrow> ('a \<Rightarrow> bool) \<Rightarrow> bool" where
  "ok_with (Inl e) Q = False"
| "ok_with (Inr a) Q = Q a"

lemma ok_with_iff: "ok_with r Q \<longleftrightarrow> (\<exists>a. r = Inr a \<and> Q a)"
  by (cases r) auto

lemma ok_with_mono: "ok_with r P \<Longrightarrow> (\<And>a. r = Inr a \<Longrightarrow> P a \<Longrightarrow> Q a) \<Longrightarrow> ok_with r Q"
  by (cases r) auto

lemma ok_with_conj: "ok_with r P \<Longrightarrow> ok_with r Q \<Longrightarrow> ok_with r (\<lambda>a. P a \<and> Q a)"
  by (cases r) auto

lemma ok_with_and_then: "ok_with (and_then r f) Q = ok_with r (\<lambda>a. ok_with (f a) Q)"
  by (cases r) auto

lemma ok_with_case_prod [simp]:
  "ok_with (case x of (a, b) \<Rightarrow> f a b) Q = (case x of (a, b) \<Rightarrow> ok_with (f a b) Q)"
  by (cases x) simp

lemma and_then_Inr_iff: "and_then r f = Inr b \<longleftrightarrow> (\<exists>a. r = Inr a \<and> f a = Inr b)"
  by (cases r) auto

lemma and_then_assoc: "and_then (and_then r f) g = and_then r (\<lambda>a. and_then (f a) g)"
  by (cases r) auto

lemma and_then_return [simp]: "and_then r Inr = r"
  by (cases r) auto

lemma assert_that_True [simp]: "assert_that True = Inr ()"
  by (simp add: assert_that_def)

lemma assert_that_False [simp]: "assert_that False = Inl Assert_failed"
  by (simp add: assert_that_def)

section \<open>Loops\<close>

text \<open>
  \<open>c_while b c s\<close> is the C loop \<open>while (b) c\<close> from the state \<open>s\<close>, where the guard and the body may
  themselves go wrong.  It is exact: \<open>Diverges\<close> is returned precisely when no iteration falsifies
  the guard.
\<close>

definition c_while :: "('s \<Rightarrow> bool) \<Rightarrow> ('s \<Rightarrow> fault + 's) \<Rightarrow> 's \<Rightarrow> fault + 's" where
  "c_while b c s =
     (case while_option
             (\<lambda>r. case r of Inl e \<Rightarrow> False | Inr t \<Rightarrow> b t)
             (\<lambda>r. and_then r c) (Inr s) of
        None \<Rightarrow> Inl Diverges
      | Some r \<Rightarrow> r)"

lemma c_while_stop: "\<not> b s \<Longrightarrow> c_while b c s = Inr s"
  by (simp add: c_while_def while_option_unfold)

lemma while_option_fault:
  "while_option (\<lambda>r. case r of Inl e \<Rightarrow> False | Inr t \<Rightarrow> b t) f (Inl e) = Some (Inl e)"
  by (simp add: while_option_unfold)

lemma c_while_step: "b s \<Longrightarrow> c_while b c s = and_then (c s) (c_while b c)"
proof -
  assume b: "b s"
  have "c_while b c s =
     (case while_option (\<lambda>r. case r of Inl e \<Rightarrow> False | Inr t \<Rightarrow> b t)
             (\<lambda>r. and_then r c) (c s) of None \<Rightarrow> Inl Diverges | Some r \<Rightarrow> r)"
    using b by (simp add: c_while_def while_option_unfold [of _ _ "Inr s"])
  then show ?thesis
    by (cases "c s") (simp_all add: while_option_fault c_while_def)
qed

text \<open>Total correctness of a loop: an invariant and a measure that the body decreases.\<close>

lemma c_while_rule:
  assumes step: "\<And>s. I s \<Longrightarrow> b s \<Longrightarrow> ok_with (c s) (\<lambda>s'. I s' \<and> (m s' :: nat) < m s)"
    and init: "I s"
  shows "ok_with (c_while b c s) (\<lambda>s'. I s' \<and> \<not> b s')"
  using init
proof (induction "m s" arbitrary: s rule: less_induct)
  case less
  show ?case
  proof (cases "b s")
    case True
    from step [OF less.prems True] obtain s' where s': "c s = Inr s'" "I s'" "m s' < m s"
      by (auto simp: ok_with_iff)
    from less.hyps [OF s'(3) s'(2)] show ?thesis
      by (simp add: c_while_step [of b, OF True] s'(1))
  next
    case False
    with less.prems show ?thesis by (simp add: c_while_stop)
  qed
qed

text \<open>A loop whose invariant keeps the guard true never ends.\<close>

lemma c_while_diverges:
  assumes step: "\<And>s. I s \<Longrightarrow> b s \<and> ok_with (c s) I" and init: "I s"
  shows "c_while b c s = Inl Diverges"
proof -
  let ?b = "\<lambda>r. case r of Inl e \<Rightarrow> False | Inr t \<Rightarrow> b t"
  let ?c = "\<lambda>r. and_then r c"
  have run: "\<exists>t. (?c ^^ n) (Inr s) = Inr t \<and> I t" for n
  proof (induction n)
    case 0
    from init show ?case by simp
  next
    case (Suc n)
    then obtain t where "(?c ^^ n) (Inr s) = Inr t" "I t" by auto
    with step [of t] show ?case by (auto simp: ok_with_iff)
  qed
  have "?b ((?c ^^ n) (Inr s))" for n
    using run [of n] step by force
  then have "while_option ?b ?c (Inr s) = None"
    by (simp add: while_option_def)
  then show ?thesis by (simp add: c_while_def)
qed

section \<open>Arrays and addresses\<close>

definition arr_read :: "'a list \<Rightarrow> int \<Rightarrow> fault + 'a" where
  "arr_read xs i = (if 0 \<le> i \<and> i < int (length xs) then Inr (xs ! nat i) else Inl Out_of_bounds)"

definition arr_write :: "'a list \<Rightarrow> int \<Rightarrow> 'a \<Rightarrow> fault + 'a list" where
  "arr_write xs i v =
     (if 0 \<le> i \<and> i < int (length xs) then Inr (xs[nat i := v]) else Inl Out_of_bounds)"

lemma arr_read_nat [simp]: "n < length xs \<Longrightarrow> arr_read xs (int n) = Inr (xs ! n)"
  by (simp add: arr_read_def)

lemma arr_write_nat [simp]: "n < length xs \<Longrightarrow> arr_write xs (int n) v = Inr (xs[n := v])"
  by (simp add: arr_write_def)

text \<open>An address is an object (a static buffer) and a byte offset in it.\<close>

datatype 'r addr = Addr (region_of: 'r) (offset_of: int)

definition addr_plus :: "'r addr \<Rightarrow> int \<Rightarrow> 'r addr" where
  "addr_plus a n = Addr (region_of a) (offset_of a + n)"

definition addr_diff :: "'r addr \<Rightarrow> 'r addr \<Rightarrow> fault + int" where
  "addr_diff a b =
     (if region_of a = region_of b then Inr (offset_of a - offset_of b) else Inl Bad_pointer)"

section \<open>C integers\<close>

text \<open>
  \<open>int\<close> and \<open>long\<close> of the LP64 target.  A conversion to a narrower signed type keeps the low bits
  (gcc's documented choice for an out-of-range value); an \<open>unsigned long\<close> result is taken
  modulo \<open>2 ^ 64\<close>.
\<close>

definition to_int :: "int \<Rightarrow> int" where
  "to_int x = signed_take_bit 31 x"

definition to_ulong :: "int \<Rightarrow> int" where
  "to_ulong x = x mod 2 ^ 64"

lemma to_int_id: "- (2 ^ 31) \<le> x \<Longrightarrow> x < 2 ^ 31 \<Longrightarrow> to_int x = x"
  by (simp add: to_int_def signed_take_bit_int_eq_self_iff)

lemma to_int_small [simp]: "to_int 0 = 0" "to_int 1 = 1" "to_int (- 1) = - 1"
  by (simp_all add: to_int_id)

text \<open>A signed addition that leaves the range of \<open>int\<close> is undefined behaviour.\<close>

definition add_int :: "int \<Rightarrow> int \<Rightarrow> fault + int" where
  "add_int a b =
     (if - (2 ^ 31) \<le> a + b \<and> a + b < 2 ^ 31 then Inr (a + b) else Inl Signed_overflow)"

lemma add_int_ok: "- (2 ^ 31) \<le> a + b \<Longrightarrow> a + b < 2 ^ 31 \<Longrightarrow> add_int a b = Inr (a + b)"
  by (simp add: add_int_def)

text \<open>C's division and remainder truncate towards zero.\<close>

definition c_div :: "int \<Rightarrow> int \<Rightarrow> int" where
  "c_div a b = (if (0 \<le> a) = (0 \<le> b) then \<bar>a\<bar> div \<bar>b\<bar> else - (\<bar>a\<bar> div \<bar>b\<bar>))"

definition c_mod :: "int \<Rightarrow> int \<Rightarrow> int" where
  "c_mod a b = a - c_div a b * b"

lemma c_div_nonneg: "0 \<le> a \<Longrightarrow> 0 < b \<Longrightarrow> c_div a b = a div b"
  by (simp add: c_div_def)

lemma c_mod_nonneg: "0 \<le> a \<Longrightarrow> 0 < b \<Longrightarrow> c_mod a b = a mod b"
  by (simp add: c_mod_def c_div_nonneg minus_div_mult_eq_mod)

text \<open>\<open>printf\<close> of an integer in decimal.\<close>

fun show_nat :: "nat \<Rightarrow> string" where
  "show_nat n =
     (if n < 10 then [char_of (48 + n)] else show_nat (n div 10) @ [char_of (48 + n mod 10)])"

declare show_nat.simps [simp del]

definition show_int :: "int \<Rightarrow> string" where
  "show_int i = (if i < 0 then CHR ''-'' # show_nat (nat (- i)) else show_nat (nat i))"

definition newline :: string where "newline = [CHR 0x0A]"

definition tabulator :: string where "tabulator = [CHR 0x09]"

section \<open>Lists and options\<close>

definition hd_opt :: "'a list \<Rightarrow> 'a option" where
  "hd_opt xs = (case xs of [] \<Rightarrow> None | x # _ \<Rightarrow> Some x)"

definition last_opt :: "'a list \<Rightarrow> 'a option" where
  "last_opt xs = (if xs = [] then None else Some (last xs))"

lemma hd_opt_simps [simp]: "hd_opt [] = None" "hd_opt (x # xs) = Some x"
  by (simp_all add: hd_opt_def)

lemma hd_opt_None [simp]: "hd_opt xs = None \<longleftrightarrow> xs = []"
  by (cases xs) simp_all

lemma hd_opt_Some: "hd_opt xs = Some x \<longleftrightarrow> (\<exists>ys. xs = x # ys)"
  by (cases xs) auto

lemma last_opt_simps [simp]: "last_opt [] = None" "last_opt (xs @ [x]) = Some x"
  by (simp_all add: last_opt_def)

lemma last_opt_None [simp]: "last_opt xs = None \<longleftrightarrow> xs = []"
  by (simp add: last_opt_def)

lemma last_opt_in: "last_opt xs = Some x \<Longrightarrow> x \<in> set xs"
  by (auto simp: last_opt_def split: if_splits)

text \<open>What an insertion after a given element does to the abstract list.\<close>

fun insert_after :: "'a option \<Rightarrow> 'a \<Rightarrow> 'a list \<Rightarrow> 'a list" where
  "insert_after None i xs = i # xs"
| "insert_after (Some p) i [] = [i]"
| "insert_after (Some p) i (x # xs) =
     (if x = p then x # i # xs else x # insert_after (Some p) i xs)"

lemma set_insert_after [simp]: "set (insert_after q i xs) = insert i (set xs)"
  by (induction q i xs rule: insert_after.induct) auto

lemma length_insert_after [simp]: "length (insert_after q i xs) = Suc (length xs)"
  by (induction q i xs rule: insert_after.induct) auto

lemma distinct_insert_after [simp]:
  "i \<notin> set xs \<Longrightarrow> distinct (insert_after q i xs) = distinct xs"
  by (induction q i xs rule: insert_after.induct) auto

lemma insert_after_split:
  "p \<notin> set xs \<Longrightarrow> insert_after (Some p) i (xs @ p # ys) = xs @ p # i # ys"
  by (induction xs) auto

lemma insert_after_last [simp]:
  "distinct xs \<Longrightarrow> insert_after (last_opt xs) i xs = xs @ [i]"
proof (cases xs rule: rev_cases)
  case (snoc ys y)
  then show "distinct xs \<Longrightarrow> ?thesis"
    using insert_after_split [of y ys i "[]"] by simp
qed simp

lemma remove1_mid: "x \<notin> set ys \<Longrightarrow> remove1 x (ys @ x # zs) = ys @ zs"
  by (simp add: remove1_append)

lemma remove1_filter: "distinct xs \<Longrightarrow> remove1 x xs = [y \<leftarrow> xs. y \<noteq> x]"
  by (induction xs) (auto intro!: filter_True [symmetric])

lemma find_Some_iff_first:
  "List.find P xs = Some x \<Longrightarrow> x \<in> set xs \<and> P x"
  by (auto simp: find_Some_iff)

lemma find_None_all: "List.find P xs = None \<longleftrightarrow> (\<forall>x \<in> set xs. \<not> P x)"
  by (auto simp: find_None_iff)

lemma find_eq_self: "List.find (\<lambda>x. x = y) xs = (if y \<in> set xs then Some y else None)"
  by (induction xs) auto

lemma find_append_new:
  "(\<And>x. x \<in> set xs \<Longrightarrow> \<not> P x) \<Longrightarrow> P y \<Longrightarrow> List.find P (xs @ [y]) = Some y"
  by (induction xs) auto

lemma count_list_distinct: "distinct xs \<Longrightarrow> count_list xs x = (if x \<in> set xs then 1 else 0)"
  by (induction xs) auto

end
