(* ===== verification/Interfaces.thy ===== *)
theory Interfaces
  imports OS_Prelude
begin

text \<open>
  What the parts of the kernel promise each other: a store of fixed-size blocks, intrusive queues, a
  machine with an invariant.  Each contract is a locale over the operations a client calls and its
  consequences are proved here once; the theories of the components interpret them on the code's
  operations.
\<close>

section \<open>Stores of blocks\<close>

text \<open>\<open>n\<close> allocations one after the other.\<close>

fun get_many :: "('a \<Rightarrow> fault + ('b option \<times> 'a)) \<Rightarrow> nat \<Rightarrow> 'a \<Rightarrow> fault + ('b option list \<times> 'a)" where
  "get_many g 0 a = Inr ([], a)"
| "get_many g (Suc n) a = and_then (g a) (\<lambda>(b, a1). and_then (get_many g n a1) (\<lambda>(bs, a2). Inr (b # bs, a2)))"

locale block_store =
  fixes ok :: "'a \<Rightarrow> bool" and live :: "'a \<Rightarrow> 'b set" and room :: "'a \<Rightarrow> int"
    and get :: "'a \<Rightarrow> fault + ('b option \<times> 'a)"
    and release :: "'a \<Rightarrow> 'b \<Rightarrow> fault + ('r \<times> 'a)" and freed :: 'r
  assumes get_ok: "ok a \<Longrightarrow> 0 < room a \<Longrightarrow> \<exists>b a'. get a = Inr (Some b, a') \<and> ok a' \<and> b \<notin> live a \<and>
      live a' = insert b (live a) \<and> room a' = room a - 1"
    and get_empty: "ok a \<Longrightarrow> room a \<le> 0 \<Longrightarrow> get a = Inr (None, a)"
    and release_ok: "ok a \<Longrightarrow> b \<in> live a \<Longrightarrow> \<exists>a'. release a b = Inr (freed, a') \<and> ok a' \<and>
      live a' = live a - {b} \<and> room a' = room a + 1"
begin

lemma get_many_ok:
  assumes "ok a" and "int n \<le> room a"
  shows "\<exists>ps a'. get_many get n a = Inr (map Some ps, a') \<and> length ps = n \<and> distinct ps \<and> set ps \<inter> live a = {} \<and>
    live a' = live a \<union> set ps \<and> ok a' \<and> room a' = room a - int n"
  using assms
proof (induction n arbitrary: a)
  case (Suc n)
  from get_ok [OF Suc.prems(1)] Suc.prems(2) obtain b a1 where g: "get a = Inr (Some b, a1)" "ok a1" "b \<notin> live a"
    "live a1 = insert b (live a)" "room a1 = room a - 1" by auto
  from Suc.IH [OF g(2)] g(5) Suc.prems(2) obtain ps a' where
    r: "get_many get n a1 = Inr (map Some ps, a')" "length ps = n" "distinct ps" "set ps \<inter> live a1 = {}"
      "live a' = live a1 \<union> set ps" "ok a'" "room a' = room a1 - int n" by auto
  show ?case
    by (rule exI [of _ "b # ps"], rule exI [of _ a']) (use g r in auto)
qed simp

end

text \<open>A store that checks what is given back.\<close>

locale guarded_store = block_store +
  fixes block :: "'a \<Rightarrow> 'b \<Rightarrow> bool" and refused :: 'c
  assumes release_dead: "ok a \<Longrightarrow> block a b \<Longrightarrow> b \<notin> live a \<Longrightarrow> release a b = Inr (refused, a)"
    and live_block: "ok a \<Longrightarrow> b \<in> live a \<Longrightarrow> block a b"
    and block_release: "release a b = Inr (r, a') \<Longrightarrow> block a' = block a"
begin

lemma release_twice:
  assumes "ok a" and "b \<in> live a"
  shows "\<exists>a'. release a b = Inr (freed, a') \<and> ok a' \<and> release a' b = Inr (refused, a')"
proof -
  from release_ok [OF assms] obtain a' where r: "release a b = Inr (freed, a')" "ok a'" "live a' = live a - {b}" by blast
  have "block a' b" using live_block [OF assms] block_release [OF r(1)] by simp
  with r release_dead [OF r(2)] show ?thesis by auto
qed

end

section \<open>Intrusive queues\<close>

text \<open>Operations over a memory of queues: several pushes, several pops.\<close>

fun push_many :: "('p \<Rightarrow> 'm \<Rightarrow> fault + 'm) \<Rightarrow> 'p list \<Rightarrow> 'm \<Rightarrow> fault + 'm" where
  "push_many f [] m = Inr m"
| "push_many f (p # ps) m = and_then (f p m) (push_many f ps)"

locale queue_store =
  fixes ok :: "'m \<Rightarrow> bool" and items :: "'m \<Rightarrow> 'h \<Rightarrow> 'p list" and spare :: "'m \<Rightarrow> 'p \<Rightarrow> bool"
    and push :: "'h \<Rightarrow> 'p \<Rightarrow> 'm \<Rightarrow> fault + 'm" and pop :: "'h \<Rightarrow> 'm \<Rightarrow> fault + ('p option \<times> 'm)"
  assumes push_ok: "ok m \<Longrightarrow> spare m p \<Longrightarrow> \<exists>m'. push h p m = Inr m' \<and> ok m' \<and>
      items m' = (items m)(h := items m h @ [p]) \<and> (\<forall>x. x \<noteq> p \<longrightarrow> spare m x \<longrightarrow> spare m' x)"
    and pop_ok: "ok m \<Longrightarrow> items m h = p # ps \<Longrightarrow> \<exists>m'. pop h m = Inr (Some p, m') \<and> ok m' \<and>
      items m' = (items m)(h := ps) \<and> spare m' p \<and> (\<forall>x. spare m x \<longrightarrow> spare m' x)"
    and pop_empty: "ok m \<Longrightarrow> items m h = [] \<Longrightarrow> pop h m = Inr (None, m)"
begin

lemma push_many_ok:
  assumes "ok m" and "distinct ps" and "\<forall>p \<in> set ps. spare m p"
  shows "\<exists>m'. push_many (push h) ps m = Inr m' \<and> ok m' \<and> items m' = (items m)(h := items m h @ ps)"
  using assms
proof (induction ps arbitrary: m)
  case (Cons p ps)
  from push_ok [OF Cons.prems(1), of p h] Cons.prems(3) obtain m1 where m1: "push h p m = Inr m1" "ok m1"
    "items m1 = (items m)(h := items m h @ [p])" "\<forall>x. x \<noteq> p \<longrightarrow> spare m x \<longrightarrow> spare m1 x" by auto
  have "\<forall>x \<in> set ps. spare m1 x" using Cons.prems m1(4) by auto
  with Cons.IH [OF m1(2)] Cons.prems(2) m1 show ?case by (auto simp: fun_eq_iff)
qed (simp add: fun_upd_idem)

text \<open>First in, first out.\<close>

lemma pop_many_ok:
  assumes "ok m" and "items m h = ps @ qs"
  shows "\<exists>m'. get_many (pop h) (length ps) m = Inr (map Some ps, m') \<and> ok m' \<and> items m' = (items m)(h := qs)"
  using assms
proof (induction ps arbitrary: m)
  case (Cons p ps)
  from pop_ok [OF Cons.prems(1), of h p "ps @ qs"] Cons.prems(2) obtain m1 where m1: "pop h m = Inr (Some p, m1)" "ok m1"
    "items m1 = (items m)(h := ps @ qs)" by auto
  with Cons.IH [OF m1(2)] show ?case by (auto simp: fun_eq_iff)
qed (simp add: fun_upd_idem)

lemma fifo:
  assumes "ok m" and "items m h = []" and "distinct ps" and "\<forall>p \<in> set ps. spare m p"
  shows "\<exists>m1 m2. push_many (push h) ps m = Inr m1 \<and> get_many (pop h) (length ps) m1 = Inr (map Some ps, m2) \<and>
    ok m2 \<and> items m2 = items m"
proof -
  from push_many_ok [OF assms(1,3,4), of h] assms(2) obtain m1 where
    m1: "push_many (push h) ps m = Inr m1" "ok m1" "items m1 = (items m)(h := ps)" by auto
  from pop_many_ok [OF m1(2), of h ps "[]"] m1 assms(2) show ?thesis by (auto simp: fun_upd_idem)
qed

end

section \<open>Machines\<close>

locale invariant_machine =
  fixes start :: "'s \<Rightarrow> bool" and step :: "'s \<Rightarrow> 's \<Rightarrow> bool" and inv :: "'s \<Rightarrow> bool"
  assumes inv_start: "start s \<Longrightarrow> inv s" and inv_step: "step s s' \<Longrightarrow> inv s \<Longrightarrow> inv s'"
begin

lemma inv_steps: "step\<^sup>*\<^sup>* s s' \<Longrightarrow> inv s \<Longrightarrow> inv s'"
  by (induction rule: rtranclp_induct) (auto intro: inv_step)

lemma inv_reach: "start s0 \<Longrightarrow> step\<^sup>*\<^sup>* s0 s \<Longrightarrow> inv s"
  by (blast intro: inv_steps inv_start)

text \<open>What the invariant excludes is never reached.\<close>

lemma never: "start s0 \<Longrightarrow> step\<^sup>*\<^sup>* s0 s \<Longrightarrow> (\<And>s. inv s \<Longrightarrow> P s) \<Longrightarrow> P s"
  by (blast dest: inv_reach)

end

end
