(* ===== verification/Linked_List.thy ===== *)
theory Linked_List
  imports Interfaces
begin

text \<open>
  The intrusive doubly linked lists of \<open>linked_list.h\<close> and \<open>linked_list.c\<close>.  A \<open>ListItem\<close> is the
  first member of every kernel object and a \<open>ListHead\<close> is a global or a member of an object, so the
  model keeps one memory with a cell for every item address \<open>'p\<close> and every head address \<open>'h\<close>.
  Each operation takes the addresses the C function takes and updates the memory in the order of the
  C assignments.  The abstraction \<open>contents m h\<close> reads a head as a HOL list and \<open>lists_ok m\<close> says
  that all the lists of the memory are well formed and disjoint; the lemmas show that every
  operation keeps \<open>lists_ok\<close> and does to \<open>contents\<close> what its name says.
\<close>

section \<open>Data\<close>

record 'p ListItem =
  li_prev :: "'p option"
  li_next :: "'p option"

record 'p ListHead =
  lh_first :: "'p option"
  lh_last :: "'p option"
  lh_size :: int

record ('p, 'h) list_mem =
  node :: "'p \<Rightarrow> 'p ListItem"
  head :: "'h \<Rightarrow> 'p ListHead"

text \<open>The C assignments to a member of an item or of a head.\<close>

definition set_prev :: "'p \<Rightarrow> 'p option \<Rightarrow> ('p, 'h) list_mem \<Rightarrow> ('p, 'h) list_mem" where
  "set_prev p v m = m\<lparr>node := (node m)(p := (node m p)\<lparr>li_prev := v\<rparr>)\<rparr>"

definition set_next :: "'p \<Rightarrow> 'p option \<Rightarrow> ('p, 'h) list_mem \<Rightarrow> ('p, 'h) list_mem" where
  "set_next p v m = m\<lparr>node := (node m)(p := (node m p)\<lparr>li_next := v\<rparr>)\<rparr>"

definition set_first :: "'h \<Rightarrow> 'p option \<Rightarrow> ('p, 'h) list_mem \<Rightarrow> ('p, 'h) list_mem" where
  "set_first h v m = m\<lparr>head := (head m)(h := (head m h)\<lparr>lh_first := v\<rparr>)\<rparr>"

definition set_last :: "'h \<Rightarrow> 'p option \<Rightarrow> ('p, 'h) list_mem \<Rightarrow> ('p, 'h) list_mem" where
  "set_last h v m = m\<lparr>head := (head m)(h := (head m h)\<lparr>lh_last := v\<rparr>)\<rparr>"

definition set_size :: "'h \<Rightarrow> int \<Rightarrow> ('p, 'h) list_mem \<Rightarrow> ('p, 'h) list_mem" where
  "set_size h v m = m\<lparr>head := (head m)(h := (head m h)\<lparr>lh_size := v\<rparr>)\<rparr>"

section \<open>Operations\<close>

definition List_init :: "'h \<Rightarrow> ('p, 'h) list_mem \<Rightarrow> ('p, 'h) list_mem" where
  "List_init h m = set_size h 0 (set_last h None (set_first h None m))"

text \<open>
  The loop \<open>aux = head->first; while (aux) { if (found) return aux; aux = aux->next; } return 0;\<close>
  which \<open>List_find\<close> and all the lookups of the kernel share.
\<close>

definition list_scan :: "('p \<Rightarrow> bool) \<Rightarrow> 'h \<Rightarrow> ('p, 'h) list_mem \<Rightarrow> fault + 'p option" where
  "list_scan found h m =
     c_while (\<lambda>aux. case aux of None \<Rightarrow> False | Some p \<Rightarrow> \<not> found p)
             (\<lambda>aux. and_then (deref aux) (\<lambda>p. Inr (li_next (node m p))))
             (lh_first (head m h))"

definition List_find :: "'h \<Rightarrow> 'p \<Rightarrow> ('p, 'h) list_mem \<Rightarrow> fault + 'p option" where
  "List_find h item m = list_scan (\<lambda>aux. aux = item) h m"

text \<open>
  \<open>List_insert\<close>: \<open>list_link\<close> is its body after the guard that refuses an item whose links are set.
\<close>

definition list_link :: "'h \<Rightarrow> 'p option \<Rightarrow> 'p \<Rightarrow> ('p, 'h) list_mem \<Rightarrow> ('p, 'h) list_mem" where
  "list_link h prv item m0 =
     (let nxt = (case prv of Some p \<Rightarrow> li_next (node m0 p) | None \<Rightarrow> lh_first (head m0 h));
          m1 = (case prv of
                  Some p \<Rightarrow> set_next p (Some item) (set_prev item (Some p) m0)
                | None \<Rightarrow> m0);
          m2 = (case nxt of
                  Some n \<Rightarrow> set_prev n (Some item) (set_next item (Some n) m1)
                | None \<Rightarrow> m1);
          m3 = (if prv = None then set_first h (Some item) m2 else m2);
          m4 = (if nxt = None then set_last h (Some item) m3 else m3)
      in set_size h (lh_size (head m4 h) + 1) m4)"

definition List_insert ::
  "'h \<Rightarrow> 'p option \<Rightarrow> 'p option \<Rightarrow> ('p, 'h) list_mem \<Rightarrow> fault + ('p option \<times> ('p, 'h) list_mem)"
where
  "List_insert h prv item m =
     and_then (deref item) (\<lambda>i.
       if li_next (node m i) \<noteq> None \<or> li_prev (node m i) \<noteq> None then Inr (None, m)
       else Inr (Some i, list_link h prv i m))"

text \<open>\<open>List_detach\<close> has no guard: a null item is dereferenced.\<close>

definition list_unlink :: "'h \<Rightarrow> 'p \<Rightarrow> ('p, 'h) list_mem \<Rightarrow> ('p, 'h) list_mem" where
  "list_unlink h item m0 =
     (let prv = li_prev (node m0 item);
          nxt = li_next (node m0 item);
          m1 = (case prv of Some p \<Rightarrow> set_next p nxt m0 | None \<Rightarrow> m0);
          m2 = (case nxt of Some n \<Rightarrow> set_prev n prv m1 | None \<Rightarrow> m1);
          m3 = (if Some item = lh_first (head m2 h) then set_first h nxt m2 else m2);
          m4 = (if Some item = lh_last (head m3 h) then set_last h prv m3 else m3);
          m5 = set_size h (lh_size (head m4 h) - 1) m4
      in set_next item None (set_prev item None m5))"

definition List_detach ::
  "'h \<Rightarrow> 'p option \<Rightarrow> ('p, 'h) list_mem \<Rightarrow> fault + ('p \<times> ('p, 'h) list_mem)"
where
  "List_detach h item m = and_then (deref item) (\<lambda>i. Inr (i, list_unlink h i m))"

definition List_popFront ::
  "'h \<Rightarrow> ('p, 'h) list_mem \<Rightarrow> fault + ('p option \<times> ('p, 'h) list_mem)"
where
  "List_popFront h m =
     (if lh_first (head m h) = None then Inr (None, m)
      else and_then (List_detach h (lh_first (head m h)) m) (\<lambda>(i, m'). Inr (Some i, m')))"

definition List_pushBack ::
  "'h \<Rightarrow> 'p option \<Rightarrow> ('p, 'h) list_mem \<Rightarrow> fault + ('p, 'h) list_mem"
where
  "List_pushBack h item m =
     and_then (List_insert h (lh_last (head m h)) item m) (\<lambda>(_, m'). Inr m')"

definition List_pushFront ::
  "'h \<Rightarrow> 'p option \<Rightarrow> ('p, 'h) list_mem \<Rightarrow> fault + ('p, 'h) list_mem"
where
  "List_pushFront h item m = and_then (List_insert h None item m) (\<lambda>(_, m'). Inr m')"

section \<open>Doubly linked segments\<close>

text \<open>
  \<open>dseg f q p xs q' p'\<close>: from the pointer \<open>p\<close>, whose item points back to \<open>q\<close>, the items \<open>xs\<close> follow
  one another; the last of them (or \<open>q\<close>) is \<open>q'\<close> and points on to \<open>p'\<close>.
\<close>

fun dseg :: "('p \<Rightarrow> 'p ListItem) \<Rightarrow> 'p option \<Rightarrow> 'p option \<Rightarrow> 'p list \<Rightarrow> 'p option \<Rightarrow> 'p option \<Rightarrow> bool"
where
  "dseg f q p [] q' p' \<longleftrightarrow> p = p' \<and> q = q'"
| "dseg f q p (x # xs) q' p' \<longleftrightarrow>
     p = Some x \<and> li_prev (f x) = q \<and> dseg f (Some x) (li_next (f x)) xs q' p'"

lemma dseg_append:
  "dseg f q p (xs @ ys) q' p' \<longleftrightarrow> (\<exists>q'' p''. dseg f q p xs q'' p'' \<and> dseg f q'' p'' ys q' p')"
  by (induction xs arbitrary: q p) auto

lemma dseg_frame:
  "(\<And>x. x \<in> set xs \<Longrightarrow> g x = f x) \<Longrightarrow> dseg g q p xs q' p' = dseg f q p xs q' p'"
  by (induction xs arbitrary: q p) auto

lemma dseg_transfer:
  "dseg f q p xs q' p' \<Longrightarrow> (\<And>x. x \<in> set xs \<Longrightarrow> g x = f x) \<Longrightarrow> dseg g q p xs q' p'"
  by (subst dseg_frame [of xs g f]) blast+

lemma dseg_upd [simp]:
  "u \<notin> set xs \<Longrightarrow> dseg (f(u := v)) q p xs q' p' = dseg f q p xs q' p'"
  by (rule dseg_frame) auto

lemma dseg_hd: "dseg f q p xs q' p' \<Longrightarrow> p = (if xs = [] then p' else Some (List.hd xs))"
  by (cases xs) auto

lemma dseg_last: "dseg f q p xs q' p' \<Longrightarrow> q' = (if xs = [] then q else Some (last xs))"
  by (induction xs arbitrary: q p) auto

lemma dseg_unique:
  "dseg f r p xs q' None \<Longrightarrow> dseg f s p ys q'' None \<Longrightarrow> xs = ys"
proof (induction xs arbitrary: r s p ys)
  case Nil
  then show ?case by (cases ys) auto
next
  case (Cons x xs)
  then show ?case by (cases ys) auto
qed

lemma dseg_distinct: "dseg f q p xs q' None \<Longrightarrow> distinct xs"
proof (induction xs arbitrary: q p)
  case (Cons x xs)
  have "x \<notin> set xs"
  proof
    assume "x \<in> set xs"
    then obtain us vs where xs: "xs = us @ x # vs" by (auto simp: in_set_conv_decomp)
    from Cons.prems xs obtain r where "dseg f r (Some x) (x # vs) q' None"
      by (auto simp: dseg_append)
    moreover from Cons.prems have "dseg f q (Some x) (x # xs) q' None" by auto
    ultimately have "x # vs = x # xs" by (blast dest: dseg_unique)
    with xs show False by simp
  qed
  with Cons show ?case by auto
qed simp

section \<open>The abstraction\<close>

definition dlist :: "('p, 'h) list_mem \<Rightarrow> 'h \<Rightarrow> 'p list \<Rightarrow> bool" where
  "dlist m h xs \<longleftrightarrow>
     dseg (node m) None (lh_first (head m h)) xs (lh_last (head m h)) None \<and>
     lh_size (head m h) = int (length xs)"

fun walk :: "nat \<Rightarrow> ('p \<Rightarrow> 'p ListItem) \<Rightarrow> 'p option \<Rightarrow> 'p list" where
  "walk 0 f p = []"
| "walk (Suc n) f None = []"
| "walk (Suc n) f (Some p) = p # walk n f (li_next (f p))"

definition contents :: "('p, 'h) list_mem \<Rightarrow> 'h \<Rightarrow> 'p list" where
  "contents m h = walk (nat (lh_size (head m h))) (node m) (lh_first (head m h))"

definition lists_ok :: "('p, 'h) list_mem \<Rightarrow> bool" where
  "lists_ok m \<longleftrightarrow>
     (\<forall>h. dlist m h (contents m h)) \<and>
     (\<forall>h h' p. p \<in> set (contents m h) \<longrightarrow> p \<in> set (contents m h') \<longrightarrow> h = h')"

text \<open>An item is loose when it is in no list and its links are null, as \<open>List_insert\<close> demands.\<close>

definition unlisted :: "('p, 'h) list_mem \<Rightarrow> 'p \<Rightarrow> bool" where
  "unlisted m p \<longleftrightarrow> (\<forall>h. p \<notin> set (contents m h))"

definition clean :: "('p, 'h) list_mem \<Rightarrow> 'p \<Rightarrow> bool" where
  "clean m p \<longleftrightarrow> li_prev (node m p) = None \<and> li_next (node m p) = None"

lemma walk_dseg: "dseg f q p xs q' None \<Longrightarrow> walk (length xs) f p = xs"
  by (induction xs arbitrary: q p) auto

lemma dlist_contents: "dlist m h xs \<Longrightarrow> contents m h = xs"
  by (auto simp: dlist_def contents_def walk_dseg)

lemma dlist_distinct: "dlist m h xs \<Longrightarrow> distinct xs"
  by (auto simp: dlist_def dest: dseg_distinct)

lemma dlist_frame:
  assumes "dlist m g xs" and "head m' g = head m g"
    and same: "\<And>x. x \<in> set xs \<Longrightarrow> node m' x = node m x"
  shows "dlist m' g xs"
  using assms dseg_frame [OF same, of xs] by (simp add: dlist_def)

lemma dlist_first: "dlist m h xs \<Longrightarrow> lh_first (head m h) = hd_opt xs"
  by (cases xs) (auto simp: dlist_def)

lemma dlist_last: "dlist m h xs \<Longrightarrow> lh_last (head m h) = last_opt xs"
  by (auto simp: dlist_def last_opt_def dest: dseg_last)

lemma lists_okI:
  assumes "\<And>h. dlist m h (C h)"
    and "\<And>h h' p. p \<in> set (C h) \<Longrightarrow> p \<in> set (C h') \<Longrightarrow> h = h'"
  shows "lists_ok m \<and> contents m = C"
proof -
  have "contents m = C" using assms(1) by (auto simp: fun_eq_iff dlist_contents)
  with assms show ?thesis by (simp add: lists_ok_def)
qed

lemma lists_ok_dlist: "lists_ok m \<Longrightarrow> dlist m h (contents m h)"
  by (simp add: lists_ok_def)

lemma lists_ok_disjoint:
  "lists_ok m \<Longrightarrow> p \<in> set (contents m h) \<Longrightarrow> p \<in> set (contents m h') \<Longrightarrow> h = h'"
  by (auto simp: lists_ok_def)

lemma lists_ok_distinct [simp]: "lists_ok m \<Longrightarrow> distinct (contents m h)"
  by (blast intro: dlist_distinct lists_ok_dlist)

lemma first_contents: "lists_ok m \<Longrightarrow> lh_first (head m h) = hd_opt (contents m h)"
  by (blast intro: dlist_first lists_ok_dlist)

lemma last_contents: "lists_ok m \<Longrightarrow> lh_last (head m h) = last_opt (contents m h)"
  by (blast intro: dlist_last lists_ok_dlist)

lemma size_contents: "lists_ok m \<Longrightarrow> lh_size (head m h) = int (length (contents m h))"
  using lists_ok_dlist [of m h] by (simp add: dlist_def)


section \<open>Correctness of the operations\<close>

subsection \<open>Scanning\<close>

lemma scan_dseg:
  "dseg (node m) q p xs q' None \<Longrightarrow>
   c_while (\<lambda>aux. case aux of None \<Rightarrow> False | Some x \<Rightarrow> \<not> found x)
           (\<lambda>aux. and_then (deref aux) (\<lambda>x. Inr (li_next (node m x)))) p
     = Inr (List.find found xs)"
proof (induction xs arbitrary: q p)
  case Nil
  then show ?case by (simp add: c_while_stop)
next
  case (Cons x xs)
  show ?case
  proof (cases "found x")
    case True
    with Cons.prems show ?thesis by (simp add: c_while_stop)
  next
    case False
    with Cons.prems Cons.IH [of "Some x" "li_next (node m x)"] show ?thesis
      by (simp add: c_while_step)
  qed
qed

lemma list_scan_contents:
  "lists_ok m \<Longrightarrow> list_scan found h m = Inr (List.find found (contents m h))"
  using lists_ok_dlist [of m h] by (auto simp: list_scan_def dlist_def intro!: scan_dseg)

lemma List_find_contents:
  "lists_ok m \<Longrightarrow>
   List_find h p m = Inr (if p \<in> set (contents m h) then Some p else None)"
  by (simp add: List_find_def list_scan_contents find_eq_self)

subsection \<open>Initialisation\<close>

lemma List_init_ok:
  assumes ok: "lists_ok m"
  shows "lists_ok (List_init h m) \<and> contents (List_init h m) = (contents m)(h := [])"
proof (rule lists_okI)
  fix g
  show "dlist (List_init h m) g (((contents m)(h := [])) g)"
    using lists_ok_dlist [OF ok, of g]
    by (auto simp: dlist_def List_init_def set_size_def set_last_def set_first_def)
next
  fix g g' p
  assume "p \<in> set (((contents m)(h := [])) g)" "p \<in> set (((contents m)(h := [])) g')"
  with lists_ok_disjoint [OF ok] show "g = g'" by (auto split: if_splits)
qed

lemma node_List_init [simp]: "node (List_init h m) = node m"
  by (simp add: List_init_def set_size_def set_last_def set_first_def)

subsection \<open>Insertion\<close>

lemmas set_defs = set_prev_def set_next_def set_first_def set_last_def set_size_def

lemma list_link_other_head: "g \<noteq> h \<Longrightarrow> head (list_link h prv i m) g = head m g"
  by (auto simp: list_link_def Let_def set_defs split: option.splits)

lemma list_link_node_frame:
  assumes "x \<noteq> i" "prv \<noteq> Some x"
    "(case prv of Some p \<Rightarrow> li_next (node m p) | None \<Rightarrow> lh_first (head m h)) \<noteq> Some x"
  shows "node (list_link h prv i m) x = node m x"
  using assms by (auto simp: list_link_def Let_def set_defs split: option.splits)

lemma list_link_front:
  assumes d: "dlist m h xs" and i: "i \<notin> set xs" and c: "clean m i"
  shows "dlist (list_link h None i m) h (i # xs)"
proof (cases xs)
  case Nil
  with d c show ?thesis
    by (simp add: dlist_def list_link_def Let_def set_defs clean_def)
next
  case (Cons y ys)
  with d have "y \<notin> set ys" by (auto dest: dlist_distinct)
  with d c i Cons show ?thesis
    by (auto simp: dlist_def list_link_def Let_def set_defs clean_def)
qed

lemma list_link_mid:
  assumes d: "dlist m h (xs @ p # ys)" and i: "i \<notin> set (xs @ p # ys)" and c: "clean m i"
  shows "dlist (list_link h (Some p) i m) h (xs @ p # i # ys)"
proof -
  have dis: "distinct (xs @ p # ys)" using d by (rule dlist_distinct)
  show ?thesis
  proof (cases ys)
    case Nil
    with d c i dis show ?thesis
      by (auto simp: dlist_def list_link_def Let_def set_defs clean_def dseg_append)
  next
    case (Cons z zs)
    with d c i dis show ?thesis
      by (auto simp: dlist_def list_link_def Let_def set_defs clean_def dseg_append)
  qed
qed

lemma list_link_dlist:
  assumes d: "dlist m h xs" and i: "i \<notin> set xs" and c: "clean m i"
    and prv: "case prv of None \<Rightarrow> True | Some p \<Rightarrow> p \<in> set xs"
  shows "dlist (list_link h prv i m) h (insert_after prv i xs)"
proof (cases prv)
  case None
  with list_link_front [OF d i c] show ?thesis by simp
next
  case (Some p)
  with prv obtain ys zs where xs: "xs = ys @ p # zs" by (auto simp: in_set_conv_decomp)
  with dlist_distinct [OF d] have "p \<notin> set ys" by simp
  with Some xs list_link_mid [of m h ys p zs i] d i c show ?thesis
    by (simp add: insert_after_split)
qed

text \<open>The item after the insertion point belongs to the same list.\<close>

lemma dlist_next_in:
  assumes "dlist m h xs" "p \<in> set xs" "li_next (node m p) = Some n"
  shows "n \<in> set xs"
proof -
  from assms(2) obtain ys zs where xs: "xs = ys @ p # zs" by (auto simp: in_set_conv_decomp)
  with assms show ?thesis by (cases zs) (auto simp: dlist_def dseg_append)
qed

lemma dlist_prev_in:
  assumes "dlist m h xs" "p \<in> set xs" "li_prev (node m p) = Some n"
  shows "n \<in> set xs"
proof -
  from assms(2) obtain ys zs where xs: "xs = ys @ p # zs" by (auto simp: in_set_conv_decomp)
  with assms show ?thesis
    by (cases ys rule: rev_cases) (auto simp: dlist_def dseg_append)
qed

lemma list_link_frame:
  assumes "lists_ok m" and "case prv of None \<Rightarrow> True | Some p \<Rightarrow> p \<in> set (contents m h)"
    and "x \<noteq> i" "x \<notin> set (contents m h)"
  shows "node (list_link h prv i m) x = node m x"
proof (rule list_link_node_frame [OF assms(3)])
  show "prv \<noteq> Some x" using assms by auto
  show "(case prv of Some p \<Rightarrow> li_next (node m p) | None \<Rightarrow> lh_first (head m h)) \<noteq> Some x"
    using assms dlist_next_in [OF lists_ok_dlist [OF assms(1)], of _ h x]
    by (auto simp: first_contents hd_opt_Some split: option.splits)
qed

theorem list_link_ok:
  assumes ok: "lists_ok m" and un: "unlisted m i" and c: "clean m i"
    and prv: "case prv of None \<Rightarrow> True | Some p \<Rightarrow> p \<in> set (contents m h)"
  shows "lists_ok (list_link h prv i m) \<and>
    contents (list_link h prv i m) = (contents m)(h := insert_after prv i (contents m h))"
proof (rule lists_okI)
  fix g
  show "dlist (list_link h prv i m) g (((contents m)(h := insert_after prv i (contents m h))) g)"
  proof (cases "g = h")
    case True
    with list_link_dlist [OF lists_ok_dlist [OF ok] _ c prv] un show ?thesis
      by (simp add: unlisted_def)
  next
    case False
    have "node (list_link h prv i m) x = node m x" if "x \<in> set (contents m g)" for x
      using that False un lists_ok_disjoint [OF ok that, of h]
      by (intro list_link_frame [OF ok prv]) (auto simp: unlisted_def)
    then have "dlist (list_link h prv i m) g (contents m g)"
      by (intro dlist_frame [OF lists_ok_dlist [OF ok]] list_link_other_head [OF False])
    with False show ?thesis by simp
  qed
next
  fix g g' p
  assume "p \<in> set (((contents m)(h := insert_after prv i (contents m h))) g)"
    "p \<in> set (((contents m)(h := insert_after prv i (contents m h))) g')"
  with lists_ok_disjoint [OF ok] un show "g = g'"
    by (auto simp: unlisted_def split: if_splits)
qed

text \<open>An insertion leaves the links of every item outside the list as they are.\<close>

lemma list_link_clean:
  assumes "lists_ok m" and "case prv of None \<Rightarrow> True | Some p \<Rightarrow> p \<in> set (contents m h)"
    and "x \<noteq> i" "x \<notin> set (contents m h)"
  shows "clean (list_link h prv i m) x = clean m x"
  using list_link_frame [OF assms] by (simp add: clean_def)

lemma List_insert_clean:
  "clean m i \<Longrightarrow> List_insert h prv (Some i) m = Inr (Some i, list_link h prv i m)"
  by (simp add: List_insert_def clean_def)

lemma List_insert_refused:
  "\<not> clean m i \<Longrightarrow> List_insert h prv (Some i) m = Inr (None, m)"
  by (auto simp: List_insert_def clean_def)

lemma List_insert_null: "List_insert h prv None m = Inl Null_deref"
  by (simp add: List_insert_def)

subsection \<open>Removal\<close>

lemma list_unlink_other_head: "g \<noteq> h \<Longrightarrow> head (list_unlink h i m) g = head m g"
  by (auto simp: list_unlink_def Let_def set_defs split: option.splits)

lemma list_unlink_clean_self: "clean (list_unlink h i m) i"
  by (auto simp: list_unlink_def Let_def set_defs clean_def split: option.splits)

lemma dlist_splitD:
  assumes d: "dlist m h (xs @ p # ys)"
  shows "dseg (node m) None (lh_first (head m h)) xs (last_opt xs) (Some p)"
    and "dseg (node m) (Some p) (hd_opt ys) ys (lh_last (head m h)) None"
    and "li_prev (node m p) = last_opt xs" and "li_next (node m p) = hd_opt ys"
    and "lh_size (head m h) = int (length xs + length ys) + 1"
proof -
  from d obtain q where q: "dseg (node m) None (lh_first (head m h)) xs q (Some p)"
      "li_prev (node m p) = q"
      "dseg (node m) (Some p) (li_next (node m p)) ys (lh_last (head m h)) None"
    by (auto simp: dlist_def dseg_append)
  from q(1) have "q = last_opt xs" by (auto simp: last_opt_def dest: dseg_last)
  moreover from q(3) have "li_next (node m p) = hd_opt ys" by (cases ys) auto
  ultimately show "dseg (node m) None (lh_first (head m h)) xs (last_opt xs) (Some p)"
    "dseg (node m) (Some p) (hd_opt ys) ys (lh_last (head m h)) None"
    "li_prev (node m p) = last_opt xs" "li_next (node m p) = hd_opt ys"
    using q by simp_all
  show "lh_size (head m h) = int (length xs + length ys) + 1"
    using d by (simp add: dlist_def)
qed

lemma dseg_retarget:
  "dseg f q p (xs @ [x]) (Some x) n \<Longrightarrow> x \<notin> set xs \<Longrightarrow>
   dseg (f(x := (f x)\<lparr>li_next := n'\<rparr>)) q p (xs @ [x]) (Some x) n'"
  by (auto simp: dseg_append)

lemma dseg_rebase:
  "dseg f q (Some y) (y # ys) q' n \<Longrightarrow> y \<notin> set ys \<Longrightarrow>
   dseg (f(y := (f y)\<lparr>li_prev := r\<rparr>)) r (Some y) (y # ys) q' n"
  by auto

text \<open>The memory that a removal leaves, on the links it can find.\<close>

lemma list_unlink_node:
  assumes "prv \<noteq> Some p" "nxt \<noteq> Some p" "prv = None \<or> prv \<noteq> nxt"
    and "li_prev (node m p) = prv" "li_next (node m p) = nxt"
  shows "node (list_unlink h p m) z =
    (if z = p then \<lparr>li_prev = None, li_next = None\<rparr>
     else if Some z = prv then (node m z)\<lparr>li_next := nxt\<rparr>
     else if Some z = nxt then (node m z)\<lparr>li_prev := prv\<rparr>
     else node m z)"
  using assms by (cases prv; cases nxt) (auto simp: list_unlink_def Let_def set_defs)

lemma list_unlink_head:
  assumes "li_prev (node m p) = prv" "li_next (node m p) = nxt"
  shows "head (list_unlink h p m) h =
    \<lparr>lh_first = (if Some p = lh_first (head m h) then nxt else lh_first (head m h)),
     lh_last = (if Some p = lh_last (head m h) then prv else lh_last (head m h)),
     lh_size = lh_size (head m h) - 1\<rparr>"
  using assms by (cases prv; cases nxt) (simp_all add: list_unlink_def Let_def set_defs)

text \<open>The ends of the list after the removal, and the segments before and after the element that is removed.\<close>

lemma list_unlink_ends:
  assumes d: "dlist m h (xs @ p # ys)"
  shows "lh_first (head (list_unlink h p m) h) = (if xs = [] then hd_opt ys else lh_first (head m h))"
    and "lh_last (head (list_unlink h p m) h) = (if ys = [] then last_opt xs else lh_last (head m h))"
    and "\<And>x. node (list_unlink h p m) x = (if last_opt xs = Some x then (node m x)\<lparr>li_next := hd_opt ys\<rparr>
      else if hd_opt ys = Some x then (node m x)\<lparr>li_prev := last_opt xs\<rparr>
      else if x = p then \<lparr>li_prev = None, li_next = None\<rparr> else node m x)"
proof -
  have dis: "distinct (xs @ p # ys)" using d by (rule dlist_distinct)
  note D = dlist_splitD [OF d]
  have ends: "last_opt xs \<noteq> Some p" "hd_opt ys \<noteq> Some p" "last_opt xs = None \<or> last_opt xs \<noteq> hd_opt ys"
    using dis by (cases xs rule: rev_cases; cases ys; force)+
  note H = list_unlink_head [OF D(3,4), of h]
  show "lh_first (head (list_unlink h p m) h) = (if xs = [] then hd_opt ys else lh_first (head m h))"
    using dis dseg_hd [OF D(1)] by (cases xs) (auto simp: H)
  show "lh_last (head (list_unlink h p m) h) = (if ys = [] then last_opt xs else lh_last (head m h))"
    using dis dseg_last [OF D(2)] by (cases ys rule: rev_cases) (auto simp: H)
  show "node (list_unlink h p m) x = (if last_opt xs = Some x then (node m x)\<lparr>li_next := hd_opt ys\<rparr>
      else if hd_opt ys = Some x then (node m x)\<lparr>li_prev := last_opt xs\<rparr>
      else if x = p then \<lparr>li_prev = None, li_next = None\<rparr> else node m x)" for x
    using ends by (auto simp: list_unlink_node [OF ends D(3,4), of h])
qed

lemma list_unlink_before:
  assumes d: "dlist m h (xs @ p # ys)"
  shows "dseg (node (list_unlink h p m)) None (lh_first (head (list_unlink h p m) h)) xs (last_opt xs) (hd_opt ys)"
proof (cases xs rule: rev_cases)
  case Nil
  with list_unlink_ends(1) [OF d] show ?thesis by simp
next
  case (snoc zs z)
  have dis: "distinct (xs @ p # ys)" using d by (rule dlist_distinct)
  have "dseg ((node m)(z := (node m z)\<lparr>li_next := hd_opt ys\<rparr>)) None (lh_first (head m h)) xs (last_opt xs) (hd_opt ys)"
    using dseg_retarget [of "node m" None _ zs z "Some p"] dlist_splitD(1) [OF d] dis snoc by simp
  moreover have "node (list_unlink h p m) x = ((node m)(z := (node m z)\<lparr>li_next := hd_opt ys\<rparr>)) x" if "x \<in> set xs" for x
    using that dis snoc by (cases ys) (auto simp: list_unlink_ends(3) [OF d])
  ultimately have "dseg (node (list_unlink h p m)) None (lh_first (head m h)) xs (last_opt xs) (hd_opt ys)"
    by (rule dseg_transfer)
  with list_unlink_ends(1) [OF d] snoc show ?thesis by simp
qed

lemma list_unlink_behind:
  assumes d: "dlist m h (xs @ p # ys)"
  shows "dseg (node (list_unlink h p m)) (last_opt xs) (hd_opt ys) ys (lh_last (head (list_unlink h p m) h)) None"
proof (cases ys)
  case Nil
  with list_unlink_ends(2) [OF d] show ?thesis by simp
next
  case (Cons y zs)
  have dis: "distinct (xs @ p # ys)" using d by (rule dlist_distinct)
  have "dseg ((node m)(y := (node m y)\<lparr>li_prev := last_opt xs\<rparr>)) (last_opt xs) (hd_opt ys) ys (lh_last (head m h)) None"
    using dseg_rebase [of "node m" "Some p" y zs] dlist_splitD(2) [OF d] dis Cons by simp
  moreover have "node (list_unlink h p m) x = ((node m)(y := (node m y)\<lparr>li_prev := last_opt xs\<rparr>)) x" if "x \<in> set ys" for x
    using that dis Cons by (cases xs rule: rev_cases) (auto simp: list_unlink_ends(3) [OF d])
  ultimately have "dseg (node (list_unlink h p m)) (last_opt xs) (hd_opt ys) ys (lh_last (head m h)) None"
    by (rule dseg_transfer)
  with list_unlink_ends(2) [OF d] Cons show ?thesis by simp
qed

lemma list_unlink_dlist:
  assumes d: "dlist m h (xs @ p # ys)"
  shows "dlist (list_unlink h p m) h (xs @ ys)"
proof -
  have "dseg (node (list_unlink h p m)) None (lh_first (head (list_unlink h p m) h)) (xs @ ys)
      (lh_last (head (list_unlink h p m) h)) None"
    unfolding dseg_append using list_unlink_before [OF d] list_unlink_behind [OF d] by blast
  with list_unlink_head [OF dlist_splitD(3,4) [OF d], of h] dlist_splitD(5) [OF d] show ?thesis by (simp add: dlist_def)
qed

lemma list_unlink_frame:
  assumes d: "dlist m h xs" and p: "p \<in> set xs" and x: "x \<notin> set xs"
  shows "node (list_unlink h p m) x = node m x"
proof -
  have "x \<noteq> p" using p x by auto
  moreover have "li_prev (node m p) \<noteq> Some x" "li_next (node m p) \<noteq> Some x"
    using dlist_prev_in [OF d p] dlist_next_in [OF d p] x by auto
  ultimately show ?thesis
    by (auto simp: list_unlink_def Let_def set_defs split: option.splits)
qed

theorem list_unlink_ok:
  assumes ok: "lists_ok m" and p: "p \<in> set (contents m h)"
  shows "lists_ok (list_unlink h p m) \<and>
    contents (list_unlink h p m) = (contents m)(h := remove1 p (contents m h))"
proof (rule lists_okI)
  fix g
  show "dlist (list_unlink h p m) g (((contents m)(h := remove1 p (contents m h))) g)"
  proof (cases "g = h")
    case True
    from p obtain xs ys where c: "contents m h = xs @ p # ys" by (auto simp: in_set_conv_decomp)
    moreover have "distinct (contents m h)" using ok by simp
    ultimately have "remove1 p (contents m h) = xs @ ys" by (simp add: remove1_mid)
    with True list_unlink_dlist [of m h xs p ys] lists_ok_dlist [OF ok, of h] c
    show ?thesis by simp
  next
    case False
    have "node (list_unlink h p m) x = node m x" if "x \<in> set (contents m g)" for x
      using that False lists_ok_disjoint [OF ok that, of h]
      by (intro list_unlink_frame [OF lists_ok_dlist [OF ok] p]) auto
    then have "dlist (list_unlink h p m) g (contents m g)"
      by (intro dlist_frame [OF lists_ok_dlist [OF ok]] list_unlink_other_head [OF False])
    with False show ?thesis by simp
  qed
next
  fix g g' q
  assume "q \<in> set (((contents m)(h := remove1 p (contents m h))) g)"
    "q \<in> set (((contents m)(h := remove1 p (contents m h))) g')"
  with lists_ok_disjoint [OF ok] show "g = g'"
    by (auto split: if_splits dest: notin_set_remove1)
qed

lemma list_unlink_clean:
  assumes "lists_ok m" "p \<in> set (contents m h)" "x \<notin> set (contents m h)"
  shows "clean (list_unlink h p m) x = clean m x"
  using list_unlink_frame [OF lists_ok_dlist [OF assms(1)] assms(2,3)] by (simp add: clean_def)

lemma List_detach_Some: "List_detach h (Some p) m = Inr (p, list_unlink h p m)"
  by (simp add: List_detach_def)

lemma List_detach_null: "List_detach h None m = Inl Null_deref"
  by (simp add: List_detach_def)


section \<open>The contract\<close>

text \<open>\<open>List_pushBack\<close> and \<open>List_popFront\<close> make every list of the memory a queue.\<close>

definition spare :: "('p, 'h) list_mem \<Rightarrow> 'p \<Rightarrow> bool" where
  "spare m p \<longleftrightarrow> unlisted m p \<and> clean m p"

lemma pushBack_ok:
  assumes ok: "lists_ok m" and p: "spare m p"
  shows "\<exists>m'. List_pushBack h (Some p) m = Inr m' \<and> lists_ok m' \<and>
    contents m' = (contents m)(h := contents m h @ [p]) \<and> (\<forall>x. x \<noteq> p \<longrightarrow> spare m x \<longrightarrow> spare m' x)"
proof -
  let ?m = "list_link h (last_opt (contents m h)) p m"
  have prv: "case last_opt (contents m h) of None \<Rightarrow> True | Some q \<Rightarrow> q \<in> set (contents m h)"
    by (auto split: option.split dest: last_opt_in)
  have L: "lists_ok ?m" "contents ?m = (contents m)(h := contents m h @ [p])"
    using list_link_ok [OF ok _ _ prv, of p] p ok by (auto simp: spare_def)
  moreover have "spare ?m x" if "x \<noteq> p" "spare m x" for x
    using that L(2) list_link_clean [OF ok prv that(1)] by (auto simp: spare_def unlisted_def)
  ultimately show ?thesis
    using p by (simp add: List_pushBack_def last_contents [OF ok] List_insert_clean spare_def)
qed

lemma popFront_ok:
  assumes ok: "lists_ok m" and c: "contents m h = p # ps"
  shows "\<exists>m'. List_popFront h m = Inr (Some p, m') \<and> lists_ok m' \<and> contents m' = (contents m)(h := ps) \<and>
    spare m' p \<and> (\<forall>x. spare m x \<longrightarrow> spare m' x)"
proof -
  let ?m = "list_unlink h p m"
  have p: "p \<in> set (contents m h)" using c by simp
  have L: "lists_ok ?m" "contents ?m = (contents m)(h := ps)" using list_unlink_ok [OF ok p] c by auto
  have "p \<notin> set ps" using lists_ok_distinct [OF ok, of h] c by simp
  then have "spare ?m p"
    using list_unlink_clean_self [of h p m] lists_ok_disjoint [OF ok p] L(2) by (auto simp: spare_def unlisted_def)
  moreover have "spare ?m x" if "spare m x" for x
  proof -
    have "x \<notin> set (contents m h)" using that by (simp add: spare_def unlisted_def)
    with list_unlink_clean [OF ok p this] that c show ?thesis
      by (auto simp: spare_def unlisted_def L(2))
  qed
  ultimately show ?thesis
    using L by (simp add: List_popFront_def first_contents [OF ok] c List_detach_Some)
qed

lemma popFront_empty: "lists_ok m \<Longrightarrow> contents m h = [] \<Longrightarrow> List_popFront h m = Inr (None, m)"
  by (simp add: List_popFront_def first_contents)

interpretation queue: queue_store lists_ok contents spare "\<lambda>h p. List_pushBack h (Some p)" List_popFront
  by unfold_locales
    (simp_all add: pushBack_ok popFront_ok popFront_empty)

end
