(* ===== verification/Pool_Allocator.thy ===== *)
theory Pool_Allocator
  imports Interfaces
begin

text \<open>
  The fixed-size block allocator of \<open>pool_allocator.h\<close> and \<open>pool_allocator.c\<close>.  The record has the
  fields of the C struct; the array \<open>free_list\<close>, which the C code lays behind the blocks in the same
  buffer, is a list of integers read and written with its bounds checked.  \<open>pool_ok\<close> is the
  allocator's invariant (the free list is a duplicate-free chain that ends in -1, every other entry
  is -2) and \<open>live\<close> the set of addresses handed out; the lemmas show what each operation does to
  them on every path.
\<close>

section \<open>Data\<close>

datatype PoolAllocatorResult =
  Success | NotEnoughMemory | UnalignedFree | OutOfRange | DoubleFree

fun result_code :: "PoolAllocatorResult \<Rightarrow> int" where
  "result_code Success = 0"
| "result_code NotEnoughMemory = -1"
| "result_code UnalignedFree = -2"
| "result_code OutOfRange = -3"
| "result_code DoubleFree = -4"

record 'r PoolAllocator =
  pa_buffer :: "'r addr"
  pa_free_list :: "int list"
  pa_buffer_size :: int
  pa_size :: int
  pa_size_max :: int
  pa_item_size :: int
  pa_first_idx :: int
  pa_bucket_size :: int

definition NullIdx :: int where "NullIdx = -1"

definition DetachedIdx :: int where "DetachedIdx = -2"

definition sizeof_int :: int where "sizeof_int = 4"

section \<open>Operations\<close>

definition PoolAllocator_strerrors :: "string list" where
  "PoolAllocator_strerrors =
     [''Success'', ''NotEnoughMemory'', ''UnalignedFree'', ''OutOfRange'', ''DoubleFree'']"

definition PoolAllocator_strerror :: "PoolAllocatorResult \<Rightarrow> fault + string" where
  "PoolAllocator_strerror result = arr_read PoolAllocator_strerrors (- result_code result)"

text \<open>The loop that chains the blocks, \<open>for (int i=0; i<a->size-1; ++i) a->free_list[i]=i+1;\<close>\<close>

function init_links :: "int \<Rightarrow> int \<Rightarrow> int list \<Rightarrow> fault + int list" where
  "init_links i n fl =
     (if i < n - 1 then and_then (arr_write fl i (i + 1)) (init_links (i + 1) n) else Inr fl)"
  by pat_completeness auto
termination
  by (relation "measure (\<lambda>(i, n, fl). nat (n - 1 - i))") auto

declare init_links.simps [simp del]

text \<open>
  The bookkeeping array is the part of the memory block behind the blocks; the blocks of memory the
  program passes are static, so it starts zeroed.  \<open>requested_size\<close> is computed as an unsigned long
  and converted to int, as the C expression is.
\<close>

definition PoolAllocator_init ::
  "'r PoolAllocator \<Rightarrow> int \<Rightarrow> int \<Rightarrow> 'r addr \<Rightarrow> int \<Rightarrow> fault + (PoolAllocatorResult \<times> 'r PoolAllocator)"
where
  "PoolAllocator_init a item_size num_items memory_block memory_size =
     (let requested_size =
            to_int (to_ulong (to_ulong num_items * to_ulong (to_ulong item_size + sizeof_int)))
      in
      if memory_size < requested_size then Inr (NotEnoughMemory, a)
      else
        let array = replicate (nat ((memory_size - item_size * num_items) div sizeof_int)) 0;
            a1 = a\<lparr>pa_item_size := item_size, pa_size := num_items,
                   pa_buffer_size := item_size * num_items, pa_size_max := num_items,
                   pa_buffer := memory_block\<rparr>
        in
        and_then (init_links 0 (pa_size a1) array) (\<lambda>fl.
        and_then (arr_write fl (pa_size a1 - 1) NullIdx) (\<lambda>fl'.
        Inr (Success, a1\<lparr>pa_free_list := fl', pa_first_idx := 0\<rparr>))))"

definition PoolAllocator_getBlock ::
  "'r PoolAllocator \<Rightarrow> fault + ('r addr option \<times> 'r PoolAllocator)"
where
  "PoolAllocator_getBlock a =
     (if pa_first_idx a = -1 then Inr (None, a)
      else
        let detached_idx = pa_first_idx a in
        and_then (arr_read (pa_free_list a) detached_idx) (\<lambda>nxt.
        and_then (arr_write (pa_free_list a) detached_idx DetachedIdx) (\<lambda>fl.
        let a1 = a\<lparr>pa_first_idx := nxt, pa_size := pa_size a - 1, pa_free_list := fl\<rparr>
        in Inr (Some (addr_plus (pa_buffer a1) (detached_idx * pa_item_size a1)), a1))))"

definition PoolAllocator_releaseBlock ::
  "'r PoolAllocator \<Rightarrow> 'r addr \<Rightarrow> fault + (PoolAllocatorResult \<times> 'r PoolAllocator)"
where
  "PoolAllocator_releaseBlock a block =
     and_then (addr_diff block (pa_buffer a)) (\<lambda>diff.
       let offset = to_int diff in
       if pa_item_size a = 0 then Inl Div_by_zero
       else if c_mod offset (pa_item_size a) \<noteq> 0 then Inr (UnalignedFree, a)
       else
         let idx = c_div offset (pa_item_size a) in
         if idx < 0 \<or> idx \<ge> pa_size_max a then Inr (OutOfRange, a)
         else
           and_then (arr_read (pa_free_list a) idx) (\<lambda>entry.
           if entry \<noteq> DetachedIdx then Inr (DoubleFree, a)
           else
             and_then (arr_write (pa_free_list a) idx (pa_first_idx a)) (\<lambda>fl.
             Inr (Success,
               a\<lparr>pa_free_list := fl, pa_first_idx := idx, pa_size := pa_size a + 1\<rparr>))))"

section \<open>The invariant\<close>

text \<open>\<open>idx_chain fl i ns\<close>: following the free list from the index \<open>i\<close> meets the blocks \<open>ns\<close>, then -1.\<close>

fun idx_chain :: "int list \<Rightarrow> int \<Rightarrow> nat list \<Rightarrow> bool" where
  "idx_chain fl i [] \<longleftrightarrow> i = -1"
| "idx_chain fl i (n # ns) \<longleftrightarrow> i = int n \<and> n < length fl \<and> idx_chain fl (fl ! n) ns"

fun free_walk :: "nat \<Rightarrow> int list \<Rightarrow> int \<Rightarrow> nat list" where
  "free_walk 0 fl i = []"
| "free_walk (Suc k) fl i = (if i < 0 then [] else nat i # free_walk k fl (fl ! nat i))"

definition pool_free :: "'r PoolAllocator \<Rightarrow> nat list" where
  "pool_free a = free_walk (nat (pa_size a)) (pa_free_list a) (pa_first_idx a)"

text \<open>The number of blocks; the array behind them can be longer than that.\<close>

definition pool_cap :: "'r PoolAllocator \<Rightarrow> nat" where
  "pool_cap a = nat (pa_size_max a)"

definition pool_rep :: "'r PoolAllocator \<Rightarrow> nat list \<Rightarrow> bool" where
  "pool_rep a fr \<longleftrightarrow>
     idx_chain (pa_free_list a) (pa_first_idx a) fr \<and> distinct fr \<and>
     pa_size a = int (length fr) \<and>
     0 \<le> pa_size_max a \<and> pool_cap a \<le> length (pa_free_list a) \<and>
     list_all (\<lambda>i. i < pool_cap a) fr \<and>
     list_all (\<lambda>i. i \<in> set fr \<or> pa_free_list a ! i = DetachedIdx) [0..<pool_cap a] \<and>
     0 < pa_item_size a \<and> pa_size_max a * pa_item_size a < 2 ^ 31"

definition pool_ok :: "'r PoolAllocator \<Rightarrow> bool" where
  "pool_ok a \<longleftrightarrow> pool_rep a (pool_free a)"

definition block_addr :: "'r PoolAllocator \<Rightarrow> nat \<Rightarrow> 'r addr" where
  "block_addr a i = addr_plus (pa_buffer a) (int i * pa_item_size a)"

definition live :: "'r PoolAllocator \<Rightarrow> 'r addr set" where
  "live a = block_addr a `
     set (filter (\<lambda>i. pa_free_list a ! i = DetachedIdx) [0..<pool_cap a])"

lemma idx_chain_walk: "idx_chain fl i ns \<Longrightarrow> free_walk (length ns) fl i = ns"
  by (induction ns arbitrary: i) auto

lemma pool_rep_free: "pool_rep a fr \<Longrightarrow> pool_free a = fr"
  by (auto simp: pool_rep_def pool_free_def idx_chain_walk)

lemma pool_okI: "pool_rep a fr \<Longrightarrow> pool_ok a"
  by (simp add: pool_ok_def pool_rep_free)

lemma idx_chain_entry: "idx_chain fl i ns \<Longrightarrow> n \<in> set ns \<Longrightarrow> fl ! n \<noteq> DetachedIdx"
proof (induction ns arbitrary: i)
  case (Cons m ns)
  then show ?case by (cases ns) (auto simp: DetachedIdx_def)
qed simp

lemma idx_chain_upd: "n \<notin> set ns \<Longrightarrow> idx_chain (fl[n := v]) i ns = idx_chain fl i ns"
  by (induction ns arbitrary: i) auto

lemma pool_rep_entry:
  "pool_rep a fr \<Longrightarrow> n < pool_cap a \<Longrightarrow>
   pa_free_list a ! n = DetachedIdx \<longleftrightarrow> n \<notin> set fr"
  by (auto simp: pool_rep_def list_all_iff dest: idx_chain_entry)

lemma block_addr_inj:
  "0 < pa_item_size a \<Longrightarrow> block_addr a i = block_addr a j \<longleftrightarrow> i = j"
  by (simp add: block_addr_def addr_plus_def)

lemma pool_cap_len: "pool_ok a \<Longrightarrow> pool_cap a \<le> length (pa_free_list a)"
  by (simp add: pool_ok_def pool_rep_def)

lemma pool_size_max_cap: "pool_ok a \<Longrightarrow> pa_size_max a = int (pool_cap a)"
  by (simp add: pool_ok_def pool_rep_def pool_cap_def)

lemma pool_item_size: "pool_ok a \<Longrightarrow> 0 < pa_item_size a"
  by (simp add: pool_ok_def pool_rep_def)

lemma live_iff:
  "p \<in> live a \<longleftrightarrow> (\<exists>i < pool_cap a.
      p = block_addr a i \<and> pa_free_list a ! i = DetachedIdx)"
  by (auto simp: live_def)

lemma live_region: "p \<in> live a \<Longrightarrow> region_of p = region_of (pa_buffer a)"
  by (auto simp: live_iff block_addr_def addr_plus_def)

text \<open>The number of blocks handed out and the number of free blocks make up the whole pool.\<close>

lemma finite_live [simp]: "finite (live a)"
  by (simp add: live_def)

lemma card_live:
  assumes "pool_ok a" shows "int (card (live a)) + pa_size a = pa_size_max a"
proof -
  let ?n = "pool_cap a" and ?fr = "pool_free a"
  have rep: "pool_rep a ?fr" using assms by (simp add: pool_ok_def)
  have sub: "set ?fr \<subseteq> {..<?n}" using rep by (auto simp: pool_rep_def list_all_iff)
  have "set (filter (\<lambda>i. pa_free_list a ! i = DetachedIdx) [0..<?n]) = {..<?n} - set ?fr"
    using pool_rep_entry [OF rep] by auto
  then have "live a = block_addr a ` ({..<?n} - set ?fr)" by (simp add: live_def)
  moreover have "inj_on (block_addr a) ({..<?n} - set ?fr)"
    using pool_item_size [OF assms] by (auto simp: inj_on_def block_addr_inj)
  ultimately have "card (live a) = card ({..<?n} - set ?fr)" by (simp add: card_image)
  also have "\<dots> = ?n - length ?fr"
    using sub rep by (simp add: card_Diff_subset pool_rep_def distinct_card)
  moreover have "length ?fr \<le> ?n"
    using rep sub by (metis card_lessThan card_mono distinct_card finite_lessThan pool_rep_def)
  ultimately show ?thesis using rep by (simp add: pool_rep_def pool_cap_def)
qed

section \<open>Initialisation\<close>

lemma init_links_spec:
  assumes "0 \<le> i" "i \<le> n - 1" "n \<le> int (length fl)"
  shows "\<exists>fl'. init_links i n fl = Inr fl' \<and> length fl' = length fl \<and>
     (\<forall>j < length fl. fl' ! j = (if i \<le> int j \<and> int j < n - 1 then int j + 1 else fl ! j))"
  using assms
proof (induction i n fl rule: init_links.induct)
  case (1 i n fl)
  show ?case
  proof (cases "i < n - 1")
    case True
    let ?fl = "fl[nat i := i + 1]"
    have w: "arr_write fl i (i + 1) = Inr ?fl" using True 1 by (simp add: arr_write_def)
    obtain fl' where fl': "init_links (i + 1) n ?fl = Inr fl'" "length fl' = length fl"
       "\<forall>j < length fl. fl' ! j = (if i + 1 \<le> int j \<and> int j < n - 1 then int j + 1 else ?fl ! j)"
      using 1(1) [OF True, of ?fl] True 1(2-) by auto
    have "fl' ! j = (if i \<le> int j \<and> int j < n - 1 then int j + 1 else fl ! j)" if "j < length fl" for j
      using fl'(3) that True 1(2) by (cases "int j = i") auto
    with fl' w True show ?thesis by (subst init_links.simps) auto
  next
    case False
    with 1 show ?thesis by (subst init_links.simps) auto
  qed
qed

lemma init_chain:
  assumes "n \<le> length fl" "k < n" "\<And>j. k \<le> j \<Longrightarrow> j < n \<Longrightarrow> fl ! j = (if j = n - 1 then -1 else int j + 1)"
  shows "idx_chain fl (int k) [k..<n]"
  using assms(2,3)
proof (induction "n - k" arbitrary: k)
  case (Suc d)
  show ?case
  proof (cases "Suc k = n")
    case True
    then have n: "n = Suc k" by simp
    show ?thesis using assms(1) Suc.prems(2) [of k] by (simp add: n)
  next
    case False
    with Suc.prems have k: "Suc k < n" by simp
    have "d = n - Suc k" using Suc.hyps(2) by simp
    from Suc.hyps(1) [OF this k] Suc.prems(2) have "idx_chain fl (int (Suc k)) [Suc k..<n]" by simp
    moreover have "fl ! k = int (Suc k)" using Suc.prems(2) [of k] k by auto
    ultimately show ?thesis using Suc.prems(1) assms(1) by (simp add: upt_conv_Cons)
  qed
qed simp

text \<open>The parameters for which the size computation does not wrap and the memory suffices.\<close>

definition pool_params :: "int \<Rightarrow> int \<Rightarrow> int \<Rightarrow> bool" where
  "pool_params item_size num_items memory_size \<longleftrightarrow>
     0 < item_size \<and> 0 < num_items \<and>
     num_items * (item_size + sizeof_int) < 2 ^ 31 \<and>
     num_items * (item_size + sizeof_int) \<le> memory_size"

lemma requested_size_exact:
  assumes "pool_params item_size num_items memory_size"
  shows "to_int (to_ulong (to_ulong num_items * to_ulong (to_ulong item_size + sizeof_int)))
           = num_items * (item_size + sizeof_int)"
proof -
  have p: "0 < item_size" "0 < num_items" "num_items * (item_size + 4) < 2 ^ 31"
    using assms by (auto simp: pool_params_def sizeof_int_def)
  have "1 * (item_size + 4) \<le> num_items * (item_size + 4)"
    using p by (intro mult_right_mono) auto
  moreover have "num_items * 1 \<le> num_items * (item_size + 4)"
    using p by (intro mult_left_mono) auto
  ultimately have "item_size + 4 < 2 ^ 31 \<and> num_items < 2 ^ 31" using p(3) by simp
  moreover have "0 \<le> num_items * (item_size + 4)" using p by simp
  then have "to_int (num_items * (item_size + 4)) = num_items * (item_size + 4)"
    using p(3) by (intro to_int_id) auto
  ultimately show ?thesis using p by (simp add: to_ulong_def sizeof_int_def)
qed

lemma pool_init_rep:
  assumes "pool_params item_size num_items memory_size"
  shows "\<exists>a'. PoolAllocator_init a item_size num_items block memory_size = Inr (Success, a') \<and>
     pool_rep a' [0..<nat num_items] \<and> pa_buffer a' = block \<and>
     pa_item_size a' = item_size \<and> pa_size_max a' = num_items"
proof -
  let ?n = "nat num_items"
  have p: "0 < item_size" "0 < num_items" "num_items * (item_size + 4) < 2 ^ 31"
      "num_items * (item_size + 4) \<le> memory_size"
    using assms by (auto simp: pool_params_def sizeof_int_def)
  define k where "k = nat ((memory_size - item_size * num_items) div 4)"
  have "num_items * 4 \<le> memory_size - item_size * num_items"
    using p by (simp add: algebra_simps)
  then have k: "?n \<le> k" unfolding k_def by (intro nat_mono) simp
  obtain fl where fl: "init_links 0 num_items (replicate k 0) = Inr fl" "length fl = k"
      "\<forall>j < k. fl ! j = (if int j < num_items - 1 then int j + 1 else 0)"
    using init_links_spec [of 0 num_items "replicate k 0"] p(2) k by (auto simp: nat_le_iff)
  let ?fl = "fl[?n - 1 := -1]"
  have w: "arr_write fl (num_items - 1) NullIdx = Inr ?fl"
    using p(2) fl(2) k by (simp add: arr_write_def NullIdx_def nat_diff_distrib)
  have entries: "\<forall>j < ?n. ?fl ! j = (if j = ?n - 1 then -1 else int j + 1)"
    using fl(2,3) k by (auto simp: nth_list_update)
  have chain: "idx_chain ?fl (int 0) [0..<?n]"
    using p(2) fl(2) k entries by (intro init_chain) auto
  have "num_items * item_size < 2 ^ 31"
    using p by (simp add: algebra_simps)
  then have "pool_rep (a\<lparr>pa_item_size := item_size, pa_size := num_items,
      pa_buffer_size := item_size * num_items, pa_size_max := num_items, pa_buffer := block,
      pa_free_list := ?fl, pa_first_idx := 0\<rparr>) [0..<?n]"
    using chain p(1,2) fl(2) k by (simp add: pool_rep_def list_all_iff pool_cap_def)
  then show ?thesis
    using fl(1) w requested_size_exact [OF assms] p(4)
    by (simp add: PoolAllocator_init_def Let_def sizeof_int_def k_def)
qed

lemma pool_rep_ok: "pool_rep a fr \<Longrightarrow> pool_ok a \<and> pool_free a = fr"
  by (simp add: pool_okI pool_rep_free)

lemma live_fresh:
  assumes "pool_rep a [0..<pool_cap a]" shows "live a = {}"
  using pool_rep_entry [OF assms] by (auto simp: live_iff)

section \<open>Taking and giving back a block\<close>

text \<open>
  \<open>pool_take a\<close> and \<open>pool_give a i\<close> are the states that a successful \<open>PoolAllocator_getBlock\<close> and
  \<open>PoolAllocator_releaseBlock\<close> leave.
\<close>

definition next_block :: "'r PoolAllocator \<Rightarrow> 'r addr" where
  "next_block a = block_addr a (nat (pa_first_idx a))"

definition pool_take :: "'r PoolAllocator \<Rightarrow> 'r PoolAllocator" where
  "pool_take a =
     (let i = nat (pa_first_idx a)
      in a\<lparr>pa_first_idx := pa_free_list a ! i, pa_size := pa_size a - 1,
           pa_free_list := (pa_free_list a)[i := DetachedIdx]\<rparr>)"

definition block_idx :: "'r PoolAllocator \<Rightarrow> 'r addr \<Rightarrow> nat" where
  "block_idx a p = nat ((offset_of p - offset_of (pa_buffer a)) div pa_item_size a)"

definition pool_give :: "'r PoolAllocator \<Rightarrow> 'r addr \<Rightarrow> 'r PoolAllocator" where
  "pool_give a p =
     (let i = block_idx a p
      in a\<lparr>pa_free_list := (pa_free_list a)[i := pa_first_idx a],
           pa_first_idx := int i, pa_size := pa_size a + 1\<rparr>)"

lemma pool_static [simp]:
  "pa_buffer (pool_take a) = pa_buffer a" "pa_item_size (pool_take a) = pa_item_size a"
  "pa_size_max (pool_take a) = pa_size_max a" "pa_size (pool_take a) = pa_size a - 1"
  "pa_buffer (pool_give a p) = pa_buffer a" "pa_item_size (pool_give a p) = pa_item_size a"
  "pa_size_max (pool_give a p) = pa_size_max a" "pa_size (pool_give a p) = pa_size a + 1"
  by (simp_all add: pool_take_def pool_give_def Let_def)

lemma pool_cap_static [simp]:
  "pool_cap (pool_take a) = pool_cap a" "pool_cap (pool_give a p) = pool_cap a"
  by (simp_all add: pool_cap_def)

lemma block_addr_static [simp]:
  "block_addr (pool_take a) = block_addr a" "block_addr (pool_give a p) = block_addr a"
  by (simp_all add: fun_eq_iff block_addr_def)

lemma pool_nonempty_rep:
  assumes "pool_ok a" "0 < pa_size a"
  obtains i fr where "pool_rep a (i # fr)" "pa_first_idx a = int i" "i < pool_cap a"
    "i < length (pa_free_list a)"
proof -
  from assms have "pool_rep a (pool_free a)" "pool_free a \<noteq> []"
    by (auto simp: pool_ok_def pool_rep_def)
  then show thesis using that by (cases "pool_free a") (auto simp: pool_rep_def)
qed

lemma getBlock_take:
  assumes "pool_ok a" "0 < pa_size a"
  shows "PoolAllocator_getBlock a = Inr (Some (next_block a), pool_take a)"
  using assms
  by (rule pool_nonempty_rep)
     (simp add: PoolAllocator_getBlock_def next_block_def pool_take_def block_addr_def Let_def)

lemma getBlock_empty:
  assumes "pool_ok a" "pa_size a \<le> 0"
  shows "PoolAllocator_getBlock a = Inr (None, a)"
proof -
  from assms have "pool_free a = []" by (simp add: pool_ok_def pool_rep_def)
  with assms show ?thesis by (simp add: pool_ok_def pool_rep_def PoolAllocator_getBlock_def)
qed

lemma pool_take_rep:
  assumes "pool_rep a (i # fr)" shows "pool_rep (pool_take a) fr"
proof -
  have i: "pa_first_idx a = int i" "i < length (pa_free_list a)" using assms by (auto simp: pool_rep_def)
  have "pool_cap (pool_take a) = pool_cap a" by (simp add: pool_cap_def pool_take_def Let_def)
  moreover have "j \<in> set fr \<or> pa_free_list (pool_take a) ! j = DetachedIdx"
    if "j < pool_cap a" for j
    using that assms i by (auto simp: pool_rep_def pool_take_def list_all_iff nth_list_update)
  ultimately show ?thesis
    using assms i by (auto simp: pool_rep_def list_all_iff pool_take_def Let_def idx_chain_upd)
qed

lemma pool_ok_take: "pool_ok a \<Longrightarrow> 0 < pa_size a \<Longrightarrow> pool_ok (pool_take a)"
  by (erule pool_nonempty_rep) (auto intro: pool_okI pool_take_rep)

lemma next_block_fresh: "pool_ok a \<Longrightarrow> 0 < pa_size a \<Longrightarrow> next_block a \<notin> live a"
  by (erule pool_nonempty_rep)
     (auto simp: live_iff next_block_def block_addr_inj pool_item_size pool_okI
           dest: pool_rep_entry)

lemma live_take:
  assumes "pool_ok a" "0 < pa_size a" shows "live (pool_take a) = insert (next_block a) (live a)"
  using assms
  by (rule pool_nonempty_rep)
     (auto simp: live_iff next_block_def pool_take_def Let_def block_addr_def nth_list_update
           pool_cap_def split: if_splits)

lemma next_block_region: "region_of (next_block a) = region_of (pa_buffer a)"
  by (simp add: next_block_def block_addr_def addr_plus_def)

text \<open>Reading back the index of a block's address.\<close>

lemma block_offset:
  assumes "pool_ok a" "i < pool_cap a"
  shows "to_int (int i * pa_item_size a) = int i * pa_item_size a"
    and "c_div (int i * pa_item_size a) (pa_item_size a) = int i"
    and "c_mod (int i * pa_item_size a) (pa_item_size a) = 0"
proof -
  have s: "0 < pa_item_size a" "int (pool_cap a) * pa_item_size a < 2 ^ 31"
    using assms(1) pool_size_max_cap [OF assms(1)] by (auto simp: pool_ok_def pool_rep_def)
  have "int i * pa_item_size a \<le> int (pool_cap a) * pa_item_size a"
    using s assms(2) by (intro mult_right_mono) auto
  moreover have "0 \<le> int i * pa_item_size a" using s by simp
  ultimately have "- (2 ^ 31) \<le> int i * pa_item_size a" "int i * pa_item_size a < 2 ^ 31"
    using s(2) by linarith+
  then show "to_int (int i * pa_item_size a) = int i * pa_item_size a" by (rule to_int_id)
  show "c_div (int i * pa_item_size a) (pa_item_size a) = int i"
    using s by (simp add: c_div_nonneg)
  show "c_mod (int i * pa_item_size a) (pa_item_size a) = 0"
    using s by (simp add: c_mod_nonneg)
qed

lemma block_idx_addr: "0 < pa_item_size a \<Longrightarrow> block_idx a (block_addr a i) = i"
  by (simp add: block_idx_def block_addr_def addr_plus_def)

lemma live_idx:
  assumes "pool_ok a" "p \<in> live a"
  shows "p = block_addr a (block_idx a p)" "block_idx a p < pool_cap a"
    "pa_free_list a ! block_idx a p = DetachedIdx"
  using assms by (auto simp: live_iff block_idx_addr pool_item_size)

lemma addr_diff_block:
  "addr_diff (block_addr a i) (pa_buffer a) = Inr (int i * pa_item_size a)"
  by (simp add: addr_diff_def block_addr_def addr_plus_def)

lemma releaseBlock_give:
  assumes ok: "pool_ok a" and p: "p \<in> live a"
  shows "PoolAllocator_releaseBlock a p = Inr (Success, pool_give a p)"
proof -
  let ?i = "block_idx a p"
  note i = live_idx [OF ok p]
  have "addr_diff p (pa_buffer a) = Inr (int ?i * pa_item_size a)"
    using addr_diff_block [of a ?i] i(1) by simp
  then show ?thesis
    using i(2,3) block_offset [OF ok i(2)] pool_item_size [OF ok] pool_cap_len [OF ok]
      pool_size_max_cap [OF ok]
    by (simp add: PoolAllocator_releaseBlock_def Let_def pool_give_def)
qed

lemma pool_give_rep:
  assumes ok: "pool_ok a" and p: "p \<in> live a"
  shows "pool_rep (pool_give a p) (block_idx a p # pool_free a)"
proof -
  let ?i = "block_idx a p"
  note i = live_idx [OF ok p]
  have rep: "pool_rep a (pool_free a)" using ok by (simp add: pool_ok_def)
  have "?i \<notin> set (pool_free a)" using pool_rep_entry [OF rep i(2)] i(3) by simp
  then show ?thesis
    using rep i(2)
    by (auto simp: pool_rep_def pool_give_def Let_def idx_chain_upd list_all_iff nth_list_update
          pool_cap_def)
qed

lemma pool_ok_give: "pool_ok a \<Longrightarrow> p \<in> live a \<Longrightarrow> pool_ok (pool_give a p)"
  by (rule pool_okI [OF pool_give_rep])

lemma pool_first_not_detached: "pool_ok a \<Longrightarrow> pa_first_idx a \<noteq> DetachedIdx"
  by (cases "pool_free a") (auto simp: pool_ok_def pool_rep_def DetachedIdx_def)

lemma live_give:
  assumes ok: "pool_ok a" and p: "p \<in> live a"
  shows "live (pool_give a p) = live a - {p}"
proof -
  note i = live_idx [OF ok p]
  have entry: "pa_free_list (pool_give a p) ! j = DetachedIdx \<longleftrightarrow>
      j \<noteq> block_idx a p \<and> pa_free_list a ! j = DetachedIdx" if "j < pool_cap a" for j
    using that pool_first_not_detached [OF ok] i(2) pool_cap_len [OF ok]
    by (auto simp: pool_give_def Let_def nth_list_update)
  have same: "pool_cap (pool_give a p) = pool_cap a"
    by simp
  have other: "block_addr a j = p \<longleftrightarrow> j = block_idx a p" for j
    using i(1) block_addr_inj [OF pool_item_size [OF ok]] by metis
  have "q \<in> live (pool_give a p) \<longleftrightarrow> q \<in> live a - {p}" for q
  proof -
    have "q \<in> live (pool_give a p) \<longleftrightarrow>
        (\<exists>j < pool_cap a. q = block_addr a j \<and> q \<noteq> p \<and> pa_free_list a ! j = DetachedIdx)"
      using entry other by (metis live_iff same block_addr_static(2))
    then show ?thesis by (auto simp: live_iff)
  qed
  then show ?thesis by blast
qed

section \<open>The error paths of a release\<close>

lemma releaseBlock_double_free:
  assumes ok: "pool_ok a" and i: "i < pool_cap a" and free: "block_addr a i \<notin> live a"
  shows "PoolAllocator_releaseBlock a (block_addr a i) = Inr (DoubleFree, a)"
  using assms block_offset [OF ok i] pool_item_size [OF ok] pool_cap_len [OF ok]
    pool_size_max_cap [OF ok]
  by (auto simp: PoolAllocator_releaseBlock_def Let_def addr_diff_block live_iff)


text \<open>Every address of the buffer, aligned or not, in range or not, with the result it gets.\<close>

lemma releaseBlock_address:
  assumes ok: "pool_ok a" and p: "region_of p = region_of (pa_buffer a)"
    and d: "d = offset_of p - offset_of (pa_buffer a)" "- (2 ^ 31) \<le> d" "d < 2 ^ 31"
  shows "PoolAllocator_releaseBlock a p = Inr
    (if c_mod d (pa_item_size a) \<noteq> 0 then (UnalignedFree, a)
     else if c_div d (pa_item_size a) < 0 \<or> pa_size_max a \<le> c_div d (pa_item_size a) then (OutOfRange, a)
     else if p \<in> live a then (Success, pool_give a p) else (DoubleFree, a))"
proof (cases "c_mod d (pa_item_size a) \<noteq> 0 \<or> c_div d (pa_item_size a) < 0 \<or> pa_size_max a \<le> c_div d (pa_item_size a)")
  case True
  then show ?thesis
    using p d pool_item_size [OF ok]
    by (auto simp: PoolAllocator_releaseBlock_def addr_diff_def Let_def to_int_id)
next
  case False
  let ?q = "c_div d (pa_item_size a)"
  have q: "d = ?q * pa_item_size a" "0 \<le> ?q" "?q < pa_size_max a" using False by (auto simp: c_mod_def)
  then have i: "p = block_addr a (nat ?q)" "nat ?q < pool_cap a"
    using p d pool_size_max_cap [OF ok] by (auto simp: block_addr_def addr_plus_def intro: addr.expand)
  show ?thesis
    using False releaseBlock_give [OF ok, of p] releaseBlock_double_free [OF ok i(2)] i(1)
    by (cases "p \<in> live a") auto
qed

section \<open>The contract\<close>

definition pool_block :: "'r PoolAllocator \<Rightarrow> 'r addr \<Rightarrow> bool" where
  "pool_block a p \<longleftrightarrow> (\<exists>i < pool_cap a. p = block_addr a i)"

lemma aligned_block:
  assumes ok: "pool_ok a" and p: "region_of p = region_of (pa_buffer a)"
    and m: "c_mod (offset_of p - offset_of (pa_buffer a)) (pa_item_size a) = 0"
    and i: "0 \<le> c_div (offset_of p - offset_of (pa_buffer a)) (pa_item_size a)"
      "c_div (offset_of p - offset_of (pa_buffer a)) (pa_item_size a) < pa_size_max a"
  shows "pool_block a p"
proof -
  let ?d = "offset_of p - offset_of (pa_buffer a)"
  let ?i = "nat (c_div ?d (pa_item_size a))"
  have "?d = int ?i * pa_item_size a" using m i(1) by (simp add: c_mod_def)
  then have "p = block_addr a ?i"
    using p by (cases p) (simp add: block_addr_def addr_plus_def)
  moreover have "?i < pool_cap a" using i by (simp add: pool_cap_def)
  ultimately show ?thesis by (auto simp: pool_block_def)
qed

lemma releaseBlock_static:
  assumes "PoolAllocator_releaseBlock a p = Inr (r, a')"
  shows "pool_block a' = pool_block a"
  using assms
  by (auto simp: PoolAllocator_releaseBlock_def Let_def and_then_Inr_iff pool_block_def pool_cap_def block_addr_def
      fun_eq_iff split: if_splits)

lemma getBlock_static:
  "PoolAllocator_getBlock a = Inr (b, a') \<Longrightarrow>
   pa_buffer a' = pa_buffer a \<and> pa_item_size a' = pa_item_size a \<and> pa_size_max a' = pa_size_max a"
  by (auto simp: PoolAllocator_getBlock_def Let_def and_then_Inr_iff split: if_splits)

lemma get_many_static:
  "get_many PoolAllocator_getBlock n a = Inr (bs, a') \<Longrightarrow>
   pa_buffer a' = pa_buffer a \<and> pa_item_size a' = pa_item_size a \<and> pa_size_max a' = pa_size_max a"
  by (induction n arbitrary: a bs) (fastforce simp: and_then_Inr_iff dest: getBlock_static)+

interpretation pool: guarded_store pool_ok live pa_size PoolAllocator_getBlock PoolAllocator_releaseBlock Success
  pool_block DoubleFree
proof
  fix a :: "'r PoolAllocator" and b
  assume ok: "pool_ok a"
  show "\<exists>b a'. PoolAllocator_getBlock a = Inr (Some b, a') \<and> pool_ok a' \<and> b \<notin> live a \<and>
      live a' = insert b (live a) \<and> pa_size a' = pa_size a - 1" if "0 < pa_size a"
    using getBlock_take [OF ok that] pool_ok_take [OF ok that] next_block_fresh [OF ok that] live_take [OF ok that]
    by simp
  show "PoolAllocator_getBlock a = Inr (None, a)" if "pa_size a \<le> 0"
    by (rule getBlock_empty [OF ok that])
  show "\<exists>a'. PoolAllocator_releaseBlock a b = Inr (Success, a') \<and> pool_ok a' \<and> live a' = live a - {b} \<and>
      pa_size a' = pa_size a + 1" if "b \<in> live a"
    using releaseBlock_give [OF ok that] pool_ok_give [OF ok that] live_give [OF ok that] by simp
  show "PoolAllocator_releaseBlock a b = Inr (DoubleFree, a)" if "pool_block a b" "b \<notin> live a"
    using that releaseBlock_double_free [OF ok] by (auto simp: pool_block_def)
  show "pool_block a b" if "b \<in> live a" using that by (auto simp: pool_block_def live_iff)
qed (rule releaseBlock_static)

end
