(* ===== verification/Kernel_State.thy ===== *)
theory Kernel_State
  imports Linked_List Pool_Allocator
begin

text \<open>
  The kernel's global state: the constants of \<open>disastrOS_constants.h\<close>, the objects of the kernel and
  the record \<open>kernel\<close> of the C globals (\<open>disastrOS.c\<close>, \<open>disastrOS_globals.h\<close> and the file-level
  statics of each component).  An object lives in a block of its component's static buffer, so a
  pointer is an address in one of eight regions; the members of a struct that are lists live at list
  addresses (\<open>Children p\<close> is \<open>&p->children\<close>) and the intrusive \<open>ListItem\<close> of an object is the list cell
  at the object's own address, as the C casts have it.  The last part lifts the list and allocator
  operations to the kernel state.
\<close>

section \<open>Constants\<close>

definition MAX_NUM_PROCESSES :: int where "MAX_NUM_PROCESSES = 1024"

definition MAX_NUM_RESOURCES :: int where "MAX_NUM_RESOURCES = 1024"

definition MAX_NUM_RESOURCES_PER_PROCESS :: int where "MAX_NUM_RESOURCES_PER_PROCESS = 32"

definition MAX_NUM_DESCRIPTORS_PER_PROCESS :: int where "MAX_NUM_DESCRIPTORS_PER_PROCESS = 32"

definition STACK_SIZE :: int where "STACK_SIZE = 16384"

definition MAX_SIGNALS :: int where "MAX_SIGNALS = 32"

definition DSOS_SIGCHLD :: int where "DSOS_SIGCHLD = 1"

definition DSOS_SIGHUP :: int where "DSOS_SIGHUP = 2"

definition DSOS_ESYSCALL_ARGUMENT_OUT_OF_BOUNDS :: int where "DSOS_ESYSCALL_ARGUMENT_OUT_OF_BOUNDS = -1"

definition DSOS_ESYSCALL_NOT_IMPLEMENTED :: int where "DSOS_ESYSCALL_NOT_IMPLEMENTED = -2"

definition DSOS_ESYSCALL_OUT_OF_RANGE :: int where "DSOS_ESYSCALL_OUT_OF_RANGE = -3"

definition DSOS_EFORK :: int where "DSOS_EFORK = -4"

definition DSOS_EWAIT :: int where "DSOS_EWAIT = -5"

definition DSOS_ESPAWN :: int where "DSOS_ESPAWN = -6"

definition DSOS_ESLEEP :: int where "DSOS_ESLEEP = -7"

definition DSOS_ERESOURCECREATE :: int where "DSOS_ERESOURCECREATE = -8"

definition DSOS_ERESOURCEOPEN :: int where "DSOS_ERESOURCEOPEN = -9"

definition DSOS_ERESOURCENOEXCL :: int where "DSOS_ERESOURCENOEXCL = -10"

definition DSOS_ERESOURCENOFD :: int where "DSOS_ERESOURCENOFD = -11"

definition DSOS_ERESOURCECLOSE :: int where "DSOS_ERESOURCECLOSE = -12"

definition DSOS_ERESOURCEINUSE :: int where "DSOS_ERESOURCEINUSE = -13"

definition DSOS_EEXIST :: int where "DSOS_EEXIST = -14"

definition DSOS_MAX_SYSCALLS :: int where "DSOS_MAX_SYSCALLS = 32"

definition DSOS_MAX_SYSCALLS_ARGS :: int where "DSOS_MAX_SYSCALLS_ARGS = 8"

definition DSOS_CALL_PREEMPT :: int where "DSOS_CALL_PREEMPT = 1"

definition DSOS_CALL_FORK :: int where "DSOS_CALL_FORK = 2"

definition DSOS_CALL_WAIT :: int where "DSOS_CALL_WAIT = 3"

definition DSOS_CALL_EXIT :: int where "DSOS_CALL_EXIT = 4"

definition DSOS_CALL_SPAWN :: int where "DSOS_CALL_SPAWN = 5"

definition DSOS_CALL_SLEEP :: int where "DSOS_CALL_SLEEP = 6"

definition DSOS_CALL_OPEN_RESOURCE :: int where "DSOS_CALL_OPEN_RESOURCE = 7"

definition DSOS_CALL_CLOSE_RESOURCE :: int where "DSOS_CALL_CLOSE_RESOURCE = 8"

definition DSOS_CALL_DESTROY_RESOURCE :: int where "DSOS_CALL_DESTROY_RESOURCE = 9"

definition DSOS_CALL_SHUTDOWN :: int where "DSOS_CALL_SHUTDOWN = 10"

definition DSOS_CALL_BQ_CREATE :: int where "DSOS_CALL_BQ_CREATE = 11"

definition DSOS_CALL_BQ_DELETE :: int where "DSOS_CALL_BQ_DELETE = 12"

definition DSOS_CALL_BQ_PUT :: int where "DSOS_CALL_BQ_PUT = 13"

definition DSOS_CALL_BQ_GET :: int where "DSOS_CALL_BQ_GET = 14"

definition DSOS_CALL_BQ_DUMP :: int where "DSOS_CALL_BQ_DUMP = 15"

definition DSOS_CREATE :: int where "DSOS_CREATE = 1"

definition DSOS_READ :: int where "DSOS_READ = 2"

definition DSOS_WRITE :: int where "DSOS_WRITE = 3"

definition DSOS_EXCL :: int where "DSOS_EXCL = 4"

definition INTERVAL :: int where "INTERVAL = 100"

declare
  MAX_NUM_PROCESSES_def [dsos_consts] and MAX_NUM_RESOURCES_def [dsos_consts] and
  MAX_NUM_RESOURCES_PER_PROCESS_def [dsos_consts] and MAX_NUM_DESCRIPTORS_PER_PROCESS_def [dsos_consts] and
  STACK_SIZE_def [dsos_consts] and MAX_SIGNALS_def [dsos_consts] and DSOS_SIGCHLD_def [dsos_consts] and
  DSOS_SIGHUP_def [dsos_consts] and DSOS_ESYSCALL_ARGUMENT_OUT_OF_BOUNDS_def [dsos_consts] and
  DSOS_ESYSCALL_NOT_IMPLEMENTED_def [dsos_consts] and DSOS_ESYSCALL_OUT_OF_RANGE_def [dsos_consts] and
  DSOS_EFORK_def [dsos_consts] and DSOS_EWAIT_def [dsos_consts] and DSOS_ESPAWN_def [dsos_consts] and
  DSOS_ESLEEP_def [dsos_consts] and DSOS_ERESOURCECREATE_def [dsos_consts] and
  DSOS_ERESOURCEOPEN_def [dsos_consts] and DSOS_ERESOURCENOEXCL_def [dsos_consts] and
  DSOS_ERESOURCENOFD_def [dsos_consts] and DSOS_ERESOURCECLOSE_def [dsos_consts] and
  DSOS_ERESOURCEINUSE_def [dsos_consts] and DSOS_EEXIST_def [dsos_consts] and
  DSOS_MAX_SYSCALLS_def [dsos_consts] and DSOS_MAX_SYSCALLS_ARGS_def [dsos_consts] and
  DSOS_CALL_PREEMPT_def [dsos_consts] and DSOS_CALL_FORK_def [dsos_consts] and DSOS_CALL_WAIT_def [dsos_consts] and
  DSOS_CALL_EXIT_def [dsos_consts] and DSOS_CALL_SPAWN_def [dsos_consts] and DSOS_CALL_SLEEP_def [dsos_consts] and
  DSOS_CALL_OPEN_RESOURCE_def [dsos_consts] and DSOS_CALL_CLOSE_RESOURCE_def [dsos_consts] and
  DSOS_CALL_DESTROY_RESOURCE_def [dsos_consts] and DSOS_CALL_SHUTDOWN_def [dsos_consts] and
  DSOS_CALL_BQ_CREATE_def [dsos_consts] and DSOS_CALL_BQ_DELETE_def [dsos_consts] and
  DSOS_CALL_BQ_PUT_def [dsos_consts] and DSOS_CALL_BQ_GET_def [dsos_consts] and
  DSOS_CALL_BQ_DUMP_def [dsos_consts] and DSOS_CREATE_def [dsos_consts] and DSOS_READ_def [dsos_consts] and
  DSOS_WRITE_def [dsos_consts] and DSOS_EXCL_def [dsos_consts] and INTERVAL_def [dsos_consts]

section \<open>Addresses\<close>

datatype region =
  Pcb_buffer | Pcb_ptr_buffer | Timer_item_buffer | Resources_buffer | Descriptor_buffer |
  Descriptor_ptr_buffer | Bq_buffer | Bqitem_buffer

instantiation region :: enum
begin

definition enum_region :: "region list" where
  "enum_region = [Pcb_buffer, Pcb_ptr_buffer, Timer_item_buffer, Resources_buffer, Descriptor_buffer,
     Descriptor_ptr_buffer, Bq_buffer, Bqitem_buffer]"

definition enum_all_region :: "(region \<Rightarrow> bool) \<Rightarrow> bool" where
  "enum_all_region P \<longleftrightarrow> list_all P enum_class.enum"

definition enum_ex_region :: "(region \<Rightarrow> bool) \<Rightarrow> bool" where
  "enum_ex_region P \<longleftrightarrow> list_ex P enum_class.enum"

instance
proof
  have all: "r \<in> set (enum_class.enum :: region list)" for r by (cases r) (simp_all add: enum_region_def)
  then show "(UNIV :: region set) = set enum_class.enum" by auto
  show "distinct (enum_class.enum :: region list)" by (simp add: enum_region_def)
  show "enum_class.enum_all P \<longleftrightarrow> Ball UNIV P" "enum_class.enum_ex P \<longleftrightarrow> Bex UNIV P" for P :: "region \<Rightarrow> bool"
    using all by (auto simp: enum_all_region_def enum_ex_region_def list_all_iff list_ex_iff)
qed

end

type_synonym ptr = "region addr"

datatype list_id =
  Ready_list | Waiting_list | Zombie_list | Timer_list | Resources_list | Bq_registry |
  Children ptr | Descriptors ptr | Descriptors_ptrs ptr |
  Items ptr | Wait_getters ptr | Wait_putters ptr

section \<open>Objects\<close>

text \<open>
  The machine context of a process is opaque: unset, made by \<open>makecontext\<close> with an entry function and
  its argument, or saved by \<open>swapcontext\<close>.
\<close>

datatype machine_context = Ctx_unset | Ctx_entry int int | Ctx_saved

datatype ProcessStatus = Invalid | Created | Running | Ready | Waiting | Suspended | Zombie

record PCB =
  pid :: int
  return_value :: int
  status :: ProcessStatus
  signals :: int
  signals_mask :: int
  parent :: "ptr option"
  cpu_state :: machine_context
  timer :: "ptr option"
  last_fd :: int
  syscall_num :: int
  syscall_args :: "nat \<Rightarrow> int"
  syscall_retvalue :: int

record TimerItem =
  awakening_time :: int
  timer_pcb :: ptr

record Resource =
  res_id :: int
  res_type :: int

record Descriptor =
  des_pcb :: ptr
  des_resource :: ptr
  des_fd :: int
  des_ptr :: "ptr option"

record BlockingQueue =
  bq_id :: int
  bq_capacity :: int
  bq_size :: int

text \<open>
  The globals.  \<open>pcb_ptrs p\<close> is the \<open>pcb\<close> member of the \<open>PCBPtr\<close> at \<open>p\<close>, \<open>descriptor_ptrs p\<close> the
  \<open>descriptor\<close> member of a \<open>DescriptorPtr\<close>, \<open>bq_items p\<close> the \<open>value\<close> of a \<open>BQItem\<close>; \<open>user_mem\<close> is the
  memory of the processes that the kernel writes results to.
\<close>

record kernel =
  lists :: "(ptr, list_id) list_mem"
  pools :: "region \<Rightarrow> region PoolAllocator"
  pcbs :: "ptr \<Rightarrow> PCB"
  pcb_ptrs :: "ptr \<Rightarrow> ptr"
  timer_items :: "ptr \<Rightarrow> TimerItem"
  resources :: "ptr \<Rightarrow> Resource"
  descriptors :: "ptr \<Rightarrow> Descriptor"
  descriptor_ptrs :: "ptr \<Rightarrow> ptr"
  bqueues :: "ptr \<Rightarrow> BlockingQueue"
  bq_items :: "ptr \<Rightarrow> int"
  init_pcb :: "ptr option"
  running :: "ptr option"
  last_pid :: int
  shutdown_now :: int
  disastrOS_time :: int
  log_file :: "string option"
  stdout :: string
  user_mem :: "int \<Rightarrow> int"

section \<open>Reading and writing the state\<close>

definition upd_pcb :: "ptr \<Rightarrow> (PCB \<Rightarrow> PCB) \<Rightarrow> kernel \<Rightarrow> kernel" where
  "upd_pcb p f k = k\<lparr>pcbs := (pcbs k)(p := f (pcbs k p))\<rparr>"

definition set_status :: "ptr \<Rightarrow> ProcessStatus \<Rightarrow> kernel \<Rightarrow> kernel" where
  "set_status p v = upd_pcb p (\<lambda>b. b\<lparr>status := v\<rparr>)"

definition set_retvalue :: "ptr \<Rightarrow> int \<Rightarrow> kernel \<Rightarrow> kernel" where
  "set_retvalue p v = upd_pcb p (\<lambda>b. b\<lparr>syscall_retvalue := v\<rparr>)"

definition upd_bqueue :: "ptr \<Rightarrow> (BlockingQueue \<Rightarrow> BlockingQueue) \<Rightarrow> kernel \<Rightarrow> kernel" where
  "upd_bqueue p f k = k\<lparr>bqueues := (bqueues k)(p := f (bqueues k p))\<rparr>"

text \<open>\<open>if (out) *out = v\<close> for a result pointer that a process passed in a register.\<close>

definition store_result :: "int \<Rightarrow> int \<Rightarrow> kernel \<Rightarrow> kernel" where
  "store_result out v k = (if out \<noteq> 0 then k\<lparr>user_mem := (user_mem k)(out := v)\<rparr> else k)"

definition print_out :: "string \<Rightarrow> kernel \<Rightarrow> kernel" where
  "print_out s k = k\<lparr>stdout := stdout k @ s\<rparr>"

definition log_out :: "string \<Rightarrow> kernel \<Rightarrow> kernel" where
  "log_out s k = k\<lparr>log_file := map_option (\<lambda>l. l @ s) (log_file k)\<rparr>"

definition list_first :: "list_id \<Rightarrow> kernel \<Rightarrow> ptr option" where
  "list_first h k = lh_first (head (lists k) h)"

definition list_last :: "list_id \<Rightarrow> kernel \<Rightarrow> ptr option" where
  "list_last h k = lh_last (head (lists k) h)"

definition list_size :: "list_id \<Rightarrow> kernel \<Rightarrow> int" where
  "list_size h k = lh_size (head (lists k) h)"

section \<open>List and allocator operations on the kernel\<close>

definition k_init :: "list_id \<Rightarrow> kernel \<Rightarrow> kernel" where
  "k_init h k = k\<lparr>lists := List_init h (lists k)\<rparr>"

definition k_insert ::
  "list_id \<Rightarrow> ptr option \<Rightarrow> ptr option \<Rightarrow> kernel \<Rightarrow> fault + kernel"
where
  "k_insert h prv item k =
     and_then (List_insert h prv item (lists k)) (\<lambda>(_, m). Inr (k\<lparr>lists := m\<rparr>))"

text \<open>The idiom \<open>List_insert(&h, h.last, item)\<close>.\<close>

definition k_append :: "list_id \<Rightarrow> ptr \<Rightarrow> kernel \<Rightarrow> fault + kernel" where
  "k_append h item k = k_insert h (list_last h k) (Some item) k"

definition k_detach :: "list_id \<Rightarrow> ptr option \<Rightarrow> kernel \<Rightarrow> fault + (ptr \<times> kernel)" where
  "k_detach h item k =
     and_then (List_detach h item (lists k)) (\<lambda>(i, m). Inr (i, k\<lparr>lists := m\<rparr>))"

text \<open>\<open>p->list.prev = p->list.next = 0\<close>\<close>

definition k_clear_links :: "ptr \<Rightarrow> kernel \<Rightarrow> kernel" where
  "k_clear_links p k = k\<lparr>lists := set_next p None (set_prev p None (lists k))\<rparr>"

definition k_get :: "region \<Rightarrow> kernel \<Rightarrow> fault + (ptr option \<times> kernel)" where
  "k_get r k =
     and_then (PoolAllocator_getBlock (pools k r)) (\<lambda>(b, a). Inr (b, k\<lparr>pools := (pools k)(r := a)\<rparr>))"

definition k_release :: "region \<Rightarrow> ptr \<Rightarrow> kernel \<Rightarrow> fault + (int \<times> kernel)" where
  "k_release r p k =
     and_then (PoolAllocator_releaseBlock (pools k r) p)
       (\<lambda>(res, a). Inr (result_code res, k\<lparr>pools := (pools k)(r := a)\<rparr>))"

text \<open>
  \<open>PoolAllocator_init\<close> of a component's static buffer, with its result checked by \<open>assert\<close>.  The
  sizes of the structs depend on the platform (\<open>ucontext_t\<close>), so \<open>sizeof\<close> is a parameter.
\<close>

definition k_pool_init ::
  "region \<Rightarrow> int \<Rightarrow> int \<Rightarrow> int \<Rightarrow> kernel \<Rightarrow> fault + kernel"
where
  "k_pool_init r item_size num_items memory_size k =
     and_then (PoolAllocator_init (pools k r) item_size num_items (Addr r 0) memory_size)
       (\<lambda>(res, a). and_then (assert_that (result_code res = 0))
          (\<lambda>_. Inr (k\<lparr>pools := (pools k)(r := a)\<rparr>)))"

end
