(* ===== verification/Processes.thy ===== *)
theory Processes
  imports Kernel_State
begin

text \<open>
  Process control blocks: \<open>disastrOS_pcb.h\<close> and \<open>disastrOS_pcb.c\<close>.  \<open>PCB_alloc\<close> and \<open>PCBPtr_alloc\<close>
  write through the pointer the allocator returns without testing it, so an exhausted pool is a
  null dereference here as it is in C.
\<close>

section \<open>Printing a list\<close>

text \<open>
  The loop that all the print functions share: \<open>elem p has_next\<close> is what is printed for the object at
  \<open>p\<close>, where \<open>has_next\<close> says whether another object follows.
\<close>

definition print_items ::
  "(ptr \<Rightarrow> bool \<Rightarrow> fault + string) \<Rightarrow> list_id \<Rightarrow> kernel \<Rightarrow> fault + string"
where
  "print_items elem h k =
     and_then
       (c_while (\<lambda>(aux, out). aux \<noteq> None)
          (\<lambda>(aux, out). and_then (deref aux) (\<lambda>p.
             let nxt = li_next (node (lists k) p)
             in and_then (elem p (nxt \<noteq> None)) (\<lambda>s. Inr (nxt, out @ s))))
          (list_first h k, []))
       (\<lambda>(aux, out). Inr out)"

definition comma :: "bool \<Rightarrow> string" where
  "comma has_next = (if has_next then '', '' else [])"

section \<open>Allocation\<close>

definition PCB_BUFFER_SIZE :: "(region \<Rightarrow> int) \<Rightarrow> int" where
  "PCB_BUFFER_SIZE sizeof = MAX_NUM_PROCESSES * (sizeof Pcb_buffer + sizeof_int)"

definition PCBPTR_BUFFER_SIZE :: "(region \<Rightarrow> int) \<Rightarrow> int" where
  "PCBPTR_BUFFER_SIZE sizeof = MAX_NUM_PROCESSES * (sizeof Pcb_ptr_buffer + sizeof_int)"

definition PCB_init :: "(region \<Rightarrow> int) \<Rightarrow> kernel \<Rightarrow> fault + kernel" where
  "PCB_init sizeof k =
     and_then (k_pool_init Pcb_buffer (sizeof Pcb_buffer) MAX_NUM_PROCESSES
                 (PCB_BUFFER_SIZE sizeof) k)
       (k_pool_init Pcb_ptr_buffer (sizeof Pcb_ptr_buffer) MAX_NUM_PROCESSES
          (PCBPTR_BUFFER_SIZE sizeof))"

text \<open>
  The assignments of \<open>PCB_alloc\<close> to the new block, where \<open>next_pid\<close> is \<open>last_pid + 1\<close>; the members it leaves alone keep their old
  value.
\<close>

definition PCB_setup :: "ptr \<Rightarrow> int \<Rightarrow> kernel \<Rightarrow> kernel" where
  "PCB_setup p next_pid k =
     (let k1 = k_clear_links p k;
          k2 = upd_pcb p (\<lambda>b. b\<lparr>pid := last_pid k1\<rparr>) k1;
          k3 = k2\<lparr>last_pid := next_pid\<rparr>;
          k4 = upd_pcb p (\<lambda>b. b\<lparr>return_value := 0, status := Invalid, signals := 0,
                                signals_mask := to_int 0xFFFFFFFF\<rparr>) k3;
          k5 = k_init (Descriptors p) k4;
          k6 = upd_pcb p (\<lambda>b. b\<lparr>parent := None, timer := None\<rparr>) k5
      in k_init (Children p) k6)"

definition PCB_alloc :: "kernel \<Rightarrow> fault + (ptr \<times> kernel)" where
  "PCB_alloc k =
     and_then (k_get Pcb_buffer k) (\<lambda>(b, k1).
     and_then (deref b) (\<lambda>p.
     and_then (add_int (last_pid k1) 1) (\<lambda>next_pid. Inr (p, PCB_setup p next_pid k1))))"

definition PCB_free :: "ptr \<Rightarrow> kernel \<Rightarrow> fault + (int \<times> kernel)" where
  "PCB_free p = k_release Pcb_buffer p"

definition PCBPtr_alloc :: "ptr \<Rightarrow> kernel \<Rightarrow> fault + (ptr \<times> kernel)" where
  "PCBPtr_alloc pcb k =
     and_then (k_get Pcb_ptr_buffer k) (\<lambda>(b, k1).
     and_then (deref b) (\<lambda>w.
       let k2 = k_clear_links w k1
       in Inr (w, k2\<lparr>pcb_ptrs := (pcb_ptrs k2)(w := pcb)\<rparr>)))"

definition PCBPtr_free :: "ptr \<Rightarrow> kernel \<Rightarrow> fault + (int \<times> kernel)" where
  "PCBPtr_free w = k_release Pcb_ptr_buffer w"

section \<open>Lookup\<close>

definition PCB_byPID :: "list_id \<Rightarrow> int \<Rightarrow> kernel \<Rightarrow> fault + ptr option" where
  "PCB_byPID h n k = list_scan (\<lambda>p. pid (pcbs k p) = n) h (lists k)"

definition PCBPtr_byPID :: "list_id \<Rightarrow> int \<Rightarrow> kernel \<Rightarrow> fault + ptr option" where
  "PCBPtr_byPID h n k = list_scan (\<lambda>w. pid (pcbs k (pcb_ptrs k w)) = n) h (lists k)"

section \<open>Debug output\<close>

definition PCBPtrList_print :: "list_id \<Rightarrow> kernel \<Rightarrow> fault + string" where
  "PCBPtrList_print h k =
     and_then (print_items (\<lambda>w has_next. Inr (show_int (pid (pcbs k (pcb_ptrs k w))) @ comma has_next)) h k)
       (\<lambda>s. Inr (''('' @ s @ '')''))"

definition PCB_print :: "ptr \<Rightarrow> kernel \<Rightarrow> fault + string" where
  "PCB_print p k =
     and_then (PCBPtrList_print (Children p) k)
       (\<lambda>s. Inr (''[pid: '' @ show_int (pid (pcbs k p)) @ '', child: '' @ s @ '']''))"

definition PCBList_print :: "list_id \<Rightarrow> kernel \<Rightarrow> fault + string" where
  "PCBList_print h k =
     and_then
       (print_items (\<lambda>p has_next. and_then (PCB_print p k)
           (\<lambda>s. Inr (tabulator @ s @ (if has_next then '','' else []) @ newline))) h k)
       (\<lambda>s. Inr (''{'' @ newline @ s @ ''}'' @ newline))"

end
