(* ===== verification/Timers.thy ===== *)
theory Timers
  imports Processes
begin

text \<open>
  The timer list: \<open>disastrOS_timer.h\<close> and \<open>disastrOS_timer.c\<close>.  Timers are kept in the order of their
  awakening time, equal times in the order of arrival.
\<close>

definition TIMER_ITEM_BUFFER_SIZE :: "(region \<Rightarrow> int) \<Rightarrow> int" where
  "TIMER_ITEM_BUFFER_SIZE sizeof = MAX_NUM_PROCESSES * (sizeof Timer_item_buffer + sizeof_int)"

definition Timer_init :: "(region \<Rightarrow> int) \<Rightarrow> kernel \<Rightarrow> fault + kernel" where
  "Timer_init sizeof =
     k_pool_init Timer_item_buffer (sizeof Timer_item_buffer) MAX_NUM_PROCESSES
       (TIMER_ITEM_BUFFER_SIZE sizeof)"

definition TimerItem_alloc :: "int \<Rightarrow> ptr \<Rightarrow> kernel \<Rightarrow> fault + (ptr option \<times> kernel)" where
  "TimerItem_alloc time pcb k =
     and_then (k_get Timer_item_buffer k) (\<lambda>(b, k1).
       case b of
         None \<Rightarrow> Inr (None, k1)
       | Some t \<Rightarrow>
           let k2 = k_clear_links t k1
           in Inr (Some t, k2\<lparr>timer_items := (timer_items k2)
                (t := \<lparr>awakening_time = time, timer_pcb = pcb\<rparr>)\<rparr>))"

definition TimerItem_free :: "ptr \<Rightarrow> kernel \<Rightarrow> fault + (int \<times> kernel)" where
  "TimerItem_free t = k_release Timer_item_buffer t"

definition TimerList_init :: "list_id \<Rightarrow> kernel \<Rightarrow> kernel" where
  "TimerList_init h = k_init h"

text \<open>
  The scan of \<open>TimerList_add\<close>, whose state is the pair of the loop variables \<open>aux\<close> and
  \<open>previous_item\<close>.
\<close>

definition timer_scan :: "list_id \<Rightarrow> int \<Rightarrow> kernel \<Rightarrow> fault + (ptr option \<times> ptr option)" where
  "timer_scan h time k =
     c_while
       (\<lambda>(aux, previous_item). case aux of
           None \<Rightarrow> False
         | Some item \<Rightarrow> \<not> time < awakening_time (timer_items k item))
       (\<lambda>(aux, previous_item). and_then (deref aux) (\<lambda>item.
           Inr (li_next (node (lists k) item), Some item)))
       (list_first h k, None)"

definition TimerList_add ::
  "list_id \<Rightarrow> int \<Rightarrow> ptr \<Rightarrow> kernel \<Rightarrow> fault + (ptr option \<times> kernel)"
where
  "TimerList_add h time pcb k =
     and_then (timer_scan h time k) (\<lambda>(aux, previous_item).
     and_then (TimerItem_alloc time pcb k) (\<lambda>(new_item, k1).
       case new_item of
         None \<Rightarrow> Inr (None, k1)
       | Some t \<Rightarrow>
           and_then (k_insert h previous_item (Some t) k1) (\<lambda>k2. Inr (Some t, k2))))"

definition TimerList_current :: "list_id \<Rightarrow> int \<Rightarrow> kernel \<Rightarrow> ptr option" where
  "TimerList_current h current_time k =
     (case list_first h k of
        None \<Rightarrow> None
      | Some item \<Rightarrow>
          if current_time \<ge> awakening_time (timer_items k item) then Some item else None)"

definition TimerList_removeCurrent :: "list_id \<Rightarrow> kernel \<Rightarrow> fault + (int \<times> kernel)" where
  "TimerList_removeCurrent h k =
     and_then (k_detach h (list_first h k) k) (\<lambda>(item, k1).
     and_then (TimerItem_free item k1) (\<lambda>(_, k2). Inr (0, k2)))"

definition TimerList_print :: "list_id \<Rightarrow> kernel \<Rightarrow> fault + string" where
  "TimerList_print h k =
     and_then
       (print_items (\<lambda>t has_next. Inr (''(pid:'' @ show_int (pid (pcbs k (timer_pcb (timer_items k t))))
           @ '', t:'' @ show_int (awakening_time (timer_items k t)) @ '')'' @ comma has_next)) h k)
       (\<lambda>s. Inr (''['' @ s @ '']''))"

end
