(* ===== verification/Resources.thy ===== *)
theory Resources
  imports Processes
begin

text \<open>
  Resources and descriptors: \<open>disastrOS_resource.[ch]\<close> and \<open>disastrOS_descriptor.[ch]\<close>.  A descriptor
  is in the list of its process, and a \<open>DescriptorPtr\<close> that points to it is in the list of its
  resource.
\<close>

section \<open>Resources\<close>

definition RESOURCE_BUFFER_SIZE :: "(region \<Rightarrow> int) \<Rightarrow> int" where
  "RESOURCE_BUFFER_SIZE sizeof = MAX_NUM_RESOURCES * (sizeof Resources_buffer + sizeof_int)"

definition Resource_init :: "(region \<Rightarrow> int) \<Rightarrow> kernel \<Rightarrow> fault + kernel" where
  "Resource_init sizeof =
     k_pool_init Resources_buffer (sizeof Resources_buffer) MAX_NUM_RESOURCES
       (RESOURCE_BUFFER_SIZE sizeof)"

definition Resource_alloc :: "int \<Rightarrow> int \<Rightarrow> kernel \<Rightarrow> fault + (ptr option \<times> kernel)" where
  "Resource_alloc rid type k =
     and_then (k_get Resources_buffer k) (\<lambda>(b, k1).
       case b of
         None \<Rightarrow> Inr (None, k1)
       | Some r \<Rightarrow>
           let k2 = k_clear_links r k1;
               k3 = k2\<lparr>resources := (resources k2)(r := \<lparr>res_id = rid, res_type = type\<rparr>)\<rparr>
           in Inr (Some r, k_init (Descriptors_ptrs r) k3))"

definition Resource_free :: "ptr \<Rightarrow> kernel \<Rightarrow> fault + (int \<times> kernel)" where
  "Resource_free r k =
     and_then (assert_that (list_first (Descriptors_ptrs r) k = None)) (\<lambda>_.
     and_then (assert_that (list_last (Descriptors_ptrs r) k = None)) (\<lambda>_.
     k_release Resources_buffer r k))"

definition ResourceList_byId :: "list_id \<Rightarrow> int \<Rightarrow> kernel \<Rightarrow> fault + ptr option" where
  "ResourceList_byId h rid k = list_scan (\<lambda>r. res_id (resources k r) = rid) h (lists k)"

section \<open>Descriptors\<close>

definition MAX_NUM_DESCRIPTORS :: int where
  "MAX_NUM_DESCRIPTORS = MAX_NUM_DESCRIPTORS_PER_PROCESS * MAX_NUM_PROCESSES"

definition DESCRIPTOR_BUFFER_SIZE :: "(region \<Rightarrow> int) \<Rightarrow> int" where
  "DESCRIPTOR_BUFFER_SIZE sizeof = MAX_NUM_DESCRIPTORS * (sizeof Descriptor_buffer + sizeof_int)"

definition DESCRIPTORPTR_BUFFER_SIZE :: "(region \<Rightarrow> int) \<Rightarrow> int" where
  "DESCRIPTORPTR_BUFFER_SIZE sizeof =
     MAX_NUM_DESCRIPTORS * (sizeof Descriptor_ptr_buffer + sizeof_int)"

definition Descriptor_init :: "(region \<Rightarrow> int) \<Rightarrow> kernel \<Rightarrow> fault + kernel" where
  "Descriptor_init sizeof k =
     and_then (k_pool_init Descriptor_buffer (sizeof Descriptor_buffer) MAX_NUM_PROCESSES
                 (DESCRIPTOR_BUFFER_SIZE sizeof) k)
       (k_pool_init Descriptor_ptr_buffer (sizeof Descriptor_ptr_buffer) MAX_NUM_PROCESSES
          (DESCRIPTORPTR_BUFFER_SIZE sizeof))"

text \<open>The member \<open>ptr\<close> of a new descriptor is not set here.\<close>

definition Descriptor_alloc ::
  "int \<Rightarrow> ptr \<Rightarrow> ptr \<Rightarrow> kernel \<Rightarrow> fault + (ptr option \<times> kernel)"
where
  "Descriptor_alloc fd res pcb k =
     and_then (k_get Descriptor_buffer k) (\<lambda>(b, k1).
       case b of
         None \<Rightarrow> Inr (None, k1)
       | Some d \<Rightarrow>
           let k2 = k_clear_links d k1
           in Inr (Some d, k2\<lparr>descriptors := (descriptors k2)(d := (descriptors k2 d)
                \<lparr>des_fd := fd, des_resource := res, des_pcb := pcb\<rparr>)\<rparr>))"

definition Descriptor_free :: "ptr \<Rightarrow> kernel \<Rightarrow> fault + (int \<times> kernel)" where
  "Descriptor_free d = k_release Descriptor_buffer d"

definition DescriptorList_byFd :: "list_id \<Rightarrow> int \<Rightarrow> kernel \<Rightarrow> fault + ptr option" where
  "DescriptorList_byFd h fd k = list_scan (\<lambda>d. des_fd (descriptors k d) = fd) h (lists k)"

definition DescriptorPtr_alloc :: "ptr \<Rightarrow> kernel \<Rightarrow> fault + (ptr option \<times> kernel)" where
  "DescriptorPtr_alloc descriptor k =
     and_then (k_get Descriptor_ptr_buffer k) (\<lambda>(b, k1).
       case b of
         None \<Rightarrow> Inr (None, k1)
       | Some d \<Rightarrow>
           let k2 = k_clear_links d k1
           in Inr (Some d, k2\<lparr>descriptor_ptrs := (descriptor_ptrs k2)(d := descriptor)\<rparr>))"

definition DescriptorPtr_free :: "ptr \<Rightarrow> kernel \<Rightarrow> fault + (int \<times> kernel)" where
  "DescriptorPtr_free d = k_release Descriptor_ptr_buffer d"

section \<open>Debug output\<close>

definition DescriptorList_print :: "list_id \<Rightarrow> kernel \<Rightarrow> fault + string" where
  "DescriptorList_print h k =
     and_then
       (print_items (\<lambda>d has_next. Inr (''(fd: '' @ show_int (des_fd (descriptors k d)) @ '', rid:''
           @ show_int (res_id (resources k (des_resource (descriptors k d)))) @ '')''
           @ comma has_next)) h k)
       (\<lambda>s. Inr (''['' @ s @ '']''))"

definition DescriptorPtrList_print :: "list_id \<Rightarrow> kernel \<Rightarrow> fault + string" where
  "DescriptorPtrList_print h k =
     and_then
       (print_items (\<lambda>w has_next.
           let d = descriptors k (descriptor_ptrs k w)
           in Inr (''(pid: '' @ show_int (des_fd d) @ '', fd: ''
                @ show_int (pid (pcbs k (des_pcb d))) @ '', rid:''
                @ show_int (res_id (resources k (des_resource d))) @ '')'' @ comma has_next)) h k)
       (\<lambda>s. Inr (''['' @ s @ '']''))"

definition Resource_print :: "ptr \<Rightarrow> kernel \<Rightarrow> fault + string" where
  "Resource_print r k =
     and_then (DescriptorPtrList_print (Descriptors_ptrs r) k)
       (\<lambda>s. Inr (''id: '' @ show_int (res_id (resources k r)) @ '', type:''
           @ show_int (res_type (resources k r)) @ '', pids:'' @ s))"

definition ResourceList_print :: "list_id \<Rightarrow> kernel \<Rightarrow> fault + string" where
  "ResourceList_print h k =
     and_then
       (print_items (\<lambda>r has_next. and_then (Resource_print r k)
           (\<lambda>s. Inr (tabulator @ s @ (if has_next then '','' else []) @ newline))) h k)
       (\<lambda>s. Inr (''{'' @ newline @ s @ ''}'' @ newline))"

end
