(* ===== verification/Status.thy ===== *)
theory Status
  imports Timers Resources
begin

text \<open>\<open>disastrOS_printStatus\<close> of \<open>disastrOS.c\<close>, which \<open>internal_sleep\<close> calls when nothing is ready.\<close>

definition disastrOS_printStatus :: "kernel \<Rightarrow> fault + kernel" where
  "disastrOS_printStatus k =
     and_then (case running k of None \<Rightarrow> Inr [] | Some r \<Rightarrow> PCB_print r k) (\<lambda>run.
     and_then (TimerList_print Timer_list k) (\<lambda>tim.
     and_then (ResourceList_print Resources_list k) (\<lambda>res.
     and_then (PCBList_print Ready_list k) (\<lambda>rdy.
     and_then (PCBList_print Waiting_list k) (\<lambda>wai.
     and_then (PCBList_print Zombie_list k) (\<lambda>zom.
     Inr (print_out
       (''****************** DisastrOS ******************'' @ newline
        @ ''Running: '' @ run @ newline
        @ ''Timers: '' @ tim
        @ newline @ ''Resources: '' @ res
        @ newline @ ''Ready: '' @ rdy
        @ newline @ ''Waiting: '' @ wai
        @ newline @ ''Zombie: '' @ zom
        @ newline @ ''***********************************************'' @ newline @ newline) k)))))))"

end
