(* ===== verification/Process_Syscalls.thy ===== *)
theory Process_Syscalls
  imports Status
begin

text \<open>
  The handlers of the process and timer system calls, one definition per file:
  \<open>disastrOS_schedule.c\<close>, \<open>disastrOS_preempt.c\<close>, \<open>disastrOS_fork.c\<close>, \<open>disastrOS_spawn.c\<close>,
  \<open>disastrOS_exit.c\<close>, \<open>disastrOS_wait.c\<close>, \<open>disastrOS_sleep.c\<close> and \<open>disastrOS_shutdown.c\<close>.  A handler
  reads its arguments from the running process, which it dereferences; it leaves its result there
  too, unless it blocks the process and makes another one run.
\<close>

definition internal_schedule :: "kernel \<Rightarrow> fault + kernel" where
  "internal_schedule k =
     (if list_first Ready_list k = None then Inr k
      else
        and_then (k_detach Ready_list (list_first Ready_list k) k) (\<lambda>(nxt, k1).
        and_then
          (case running k1 of
             None \<Rightarrow> Inr k1
           | Some r \<Rightarrow> k_append Ready_list r (set_status r Ready k1))
          (\<lambda>k2. Inr ((set_status nxt Running k2)\<lparr>running := Some nxt\<rparr>))))"

definition internal_preempt :: "kernel \<Rightarrow> fault + kernel" where
  "internal_preempt k = internal_schedule k"

text \<open>
  \<open>fork\<close> and \<open>spawn\<close> share their first half.  The test for a null \<open>new_pcb\<close> comes after
  \<open>PCB_alloc\<close> has written through the pointer, so it never fires and is not repeated here; the same
  holds for the assertion after \<open>PCBPtr_alloc\<close>.
\<close>

definition new_child :: "ptr \<Rightarrow> kernel \<Rightarrow> fault + (ptr \<times> kernel)" where
  "new_child r k =
     and_then (PCB_alloc k) (\<lambda>(new_pcb, k1).
     let k2 = set_status new_pcb Ready k1;
         k3 = upd_pcb new_pcb (\<lambda>b. b\<lparr>parent := Some r\<rparr>) k2
     in
     and_then (PCBPtr_alloc new_pcb k3) (\<lambda>(new_pcb_ptr, k4).
     and_then (k_append (Children r) new_pcb_ptr k4) (\<lambda>k5.
     and_then (k_append Ready_list new_pcb k5) (\<lambda>k6.
     Inr (new_pcb, set_retvalue r (pid (pcbs k6 new_pcb)) k6)))))"

definition internal_fork :: "kernel \<Rightarrow> fault + kernel" where
  "internal_fork k =
     and_then (deref (running k)) (\<lambda>r.
     and_then (new_child r k) (\<lambda>(new_pcb, k1). Inr k1))"

definition internal_spawn :: "kernel \<Rightarrow> fault + kernel" where
  "internal_spawn k =
     and_then (deref (running k)) (\<lambda>r.
     and_then (new_child r k) (\<lambda>(new_pcb, k1).
     Inr (upd_pcb new_pcb (\<lambda>b. b\<lparr>cpu_state :=
            Ctx_entry (syscall_args (pcbs k1 r) 0) (syscall_args (pcbs k1 r) 1)\<rparr>) k1)))"

text \<open>The loop of \<open>exit\<close> that hands the children of the process \<open>r\<close> over to \<open>init_pcb\<close>.\<close>

definition reparent_children :: "ptr \<Rightarrow> kernel \<Rightarrow> fault + kernel" where
  "reparent_children r =
     c_while (\<lambda>k. list_first (Children r) k \<noteq> None)
       (\<lambda>k. and_then (k_detach (Children r) (list_first (Children r) k) k) (\<lambda>(child_item, k1).
            and_then (deref (init_pcb k1)) (\<lambda>ini.
            and_then (k_append (Children ini) child_item k1) (\<lambda>k2.
            Inr (upd_pcb (pcb_ptrs k2 child_item) (\<lambda>b. b\<lparr>parent := Some ini\<rparr>) k2)))))"

definition wake_waiting_parent :: "ptr \<Rightarrow> kernel \<Rightarrow> fault + kernel" where
  "wake_waiting_parent r k =
     (case parent (pcbs k r) of
        None \<Rightarrow> Inr k
      | Some par \<Rightarrow>
          if status (pcbs k par) = Waiting \<and> syscall_num (pcbs k par) = DSOS_CALL_WAIT then
            let pid_to_wait = to_int (syscall_args (pcbs k par) 0) in
            if pid_to_wait = 0 \<or> pid_to_wait = pid (pcbs k r) then
              and_then (k_detach Waiting_list (Some par) k) (\<lambda>(_, k1).
              k_append Ready_list par (set_status par Ready k1))
            else Inr k
          else Inr k)"

definition internal_exit :: "kernel \<Rightarrow> fault + kernel" where
  "internal_exit k =
     and_then (deref (running k)) (\<lambda>r.
     let k1 = upd_pcb r (\<lambda>b. b\<lparr>return_value := to_int (syscall_args b 0)\<rparr>) k in
     and_then (reparent_children r k1) (\<lambda>k2.
     and_then (k_append Zombie_list r (set_status r Zombie k2)) (\<lambda>k3.
     and_then (wake_waiting_parent r k3) (\<lambda>k4.
     internal_schedule (k4\<lparr>running := None\<rparr>)))))"

text \<open>
  \<open>reap_child\<close> of \<open>disastrOS_wait.c\<close>; its caller passes the running process as the parent, so the
  null test on the parent is not repeated.
\<close>

definition reap_child :: "ptr \<Rightarrow> ptr \<Rightarrow> int \<Rightarrow> kernel \<Rightarrow> fault + (int \<times> kernel)" where
  "reap_child par child result_out k =
     and_then (List_find Zombie_list child (lists k)) (\<lambda>found.
     and_then
       (case found of
          None \<Rightarrow> Inr k
        | Some _ \<Rightarrow> and_then (k_detach Zombie_list (Some child) k) (\<lambda>(_, k1). Inr k1))
       (\<lambda>k1.
     and_then (PCBPtr_byPID (Children par) (pid (pcbs k1 child)) k1) (\<lambda>link.
     and_then
       (case link of
          None \<Rightarrow> Inr k1
        | Some w \<Rightarrow>
            and_then (k_detach (Children par) (Some w) k1) (\<lambda>(_, k2).
            and_then (PCBPtr_free w k2) (\<lambda>(_, k3). Inr k3)))
       (\<lambda>k4.
     let k5 = store_result result_out (return_value (pcbs k4 child)) k4;
         reaped_pid = pid (pcbs k5 child)
     in and_then (PCB_free child k5) (\<lambda>(_, k6). Inr (reaped_pid, k6))))))"

definition internal_wait :: "kernel \<Rightarrow> fault + kernel" where
  "internal_wait k =
     and_then (deref (running k)) (\<lambda>r.
     let pid_to_wait = to_int (syscall_args (pcbs k r) 0);
         result = syscall_args (pcbs k r) 1
     in
     if list_first (Children r) k = None then Inr (set_retvalue r DSOS_EWAIT k)
     else
       and_then
         (list_scan (\<lambda>z. parent (pcbs k z) = Some r \<and>
                         (pid_to_wait = 0 \<or> pid (pcbs k z) = pid_to_wait))
            Zombie_list (lists k))
         (\<lambda>awaited.
       case awaited of
         Some z \<Rightarrow>
           and_then (reap_child r z result k) (\<lambda>(reaped_pid, k1).
           Inr (set_retvalue r reaped_pid k1))
       | None \<Rightarrow>
           and_then (k_append Waiting_list r (set_status r Waiting k)) (\<lambda>k1.
           and_then (k_detach Ready_list (list_first Ready_list k1) k1) (\<lambda>(nxt, k2).
           Inr (k2\<lparr>running := Some nxt\<rparr>)))))"

text \<open>The end of \<open>sleep\<close>: the next ready process runs, or none does and the status is printed.\<close>

definition sleep_dispatch :: "kernel \<Rightarrow> fault + kernel" where
  "sleep_dispatch k =
     (if list_first Ready_list k \<noteq> None then
        and_then (k_detach Ready_list (list_first Ready_list k) k) (\<lambda>(nxt, k1).
        Inr (k1\<lparr>running := Some nxt\<rparr>))
      else
        disastrOS_printStatus
          (print_out (''they are all sleeping'' @ newline) (k\<lparr>running := None\<rparr>)))"

definition internal_sleep :: "kernel \<Rightarrow> fault + kernel" where
  "internal_sleep k =
     and_then (deref (running k)) (\<lambda>r.
     if timer (pcbs k r) \<noteq> None then
       Inr (set_retvalue r DSOS_ESLEEP
              (print_out (''process has already a timer!!!'' @ newline) k))
     else
       let cycles_to_sleep = to_int (syscall_args (pcbs k r) 0) in
       and_then (add_int (disastrOS_time k) cycles_to_sleep) (\<lambda>wake_time.
       and_then (TimerList_add Timer_list wake_time r k) (\<lambda>(new_timer, k1).
       if new_timer = None then
         Inr (set_retvalue r DSOS_ESLEEP (print_out (''no new timer!!!'' @ newline) k1))
       else
         and_then (k_append Waiting_list r (set_status r Waiting k1)) sleep_dispatch)))"

text \<open>\<open>shutdown\<close> sets the flag and jumps to \<open>main_context\<close>; the jump is in the dispatcher's result.\<close>

definition internal_shutdown :: "kernel \<Rightarrow> kernel" where
  "internal_shutdown k = k\<lparr>shutdown_now := 1\<rparr>"

end
