(* ===== verification/Resource_Syscalls.thy ===== *)
theory Resource_Syscalls
  imports Resources
begin

text \<open>
  The handlers of the resource system calls: \<open>disastrOS_open_resource.c\<close>,
  \<open>disastrOS_close_resource.c\<close> and \<open>disastrOS_destroy_resource.c\<close>.
\<close>

definition has_flag :: "int \<Rightarrow> int \<Rightarrow> bool" where
  "has_flag mode flag \<longleftrightarrow> and mode flag \<noteq> 0"

text \<open>
  In \<open>CREATE\<close> mode the new resource is inserted before its allocation is checked: a null \<open>res\<close> is
  dereferenced by \<open>List_insert\<close>.
\<close>

definition open_lookup ::
  "int \<Rightarrow> int \<Rightarrow> int \<Rightarrow> ptr option \<Rightarrow> kernel \<Rightarrow> fault + (ptr option \<times> kernel)"
where
  "open_lookup rid type open_mode res k =
     (if has_flag open_mode DSOS_CREATE then
        and_then (Resource_alloc rid type k) (\<lambda>(res', k1).
        and_then (k_insert Resources_list (list_last Resources_list k1) res' k1) (\<lambda>k2.
        Inr (res', k2)))
      else Inr (res, k))"

text \<open>The second half: a descriptor of \<open>res\<close> for the running process \<open>r\<close>.\<close>

definition open_descriptor :: "ptr \<Rightarrow> ptr \<Rightarrow> kernel \<Rightarrow> fault + kernel" where
  "open_descriptor r res k =
     and_then (Descriptor_alloc (last_fd (pcbs k r)) res r k) (\<lambda>(des', k1).
     case des' of
       None \<Rightarrow> Inr (set_retvalue r DSOS_ERESOURCENOFD k1)
     | Some des \<Rightarrow>
         and_then (add_int (last_fd (pcbs k1 r)) 1) (\<lambda>next_fd.
         let k2 = upd_pcb r (\<lambda>b. b\<lparr>last_fd := next_fd\<rparr>) k1 in
         and_then (DescriptorPtr_alloc des k2) (\<lambda>(desptr, k3).
         and_then (k_append (Descriptors r) des k3) (\<lambda>k4.
         let k5 = k4\<lparr>descriptors := (descriptors k4)
                    (des := (descriptors k4 des)\<lparr>des_ptr := desptr\<rparr>)\<rparr> in
         and_then (k_insert (Descriptors_ptrs res) (list_last (Descriptors_ptrs res) k5) desptr k5)
           (\<lambda>k6. Inr (set_retvalue r (des_fd (descriptors k6 des)) k6))))))"

definition internal_openResource :: "kernel \<Rightarrow> fault + kernel" where
  "internal_openResource k =
     and_then (deref (running k)) (\<lambda>r.
     let rid = to_int (syscall_args (pcbs k r) 0);
         type = to_int (syscall_args (pcbs k r) 1);
         open_mode = to_int (syscall_args (pcbs k r) 2)
     in
     and_then (ResourceList_byId Resources_list rid k) (\<lambda>res0.
     if has_flag open_mode DSOS_CREATE \<and> res0 \<noteq> None then
       Inr (set_retvalue r DSOS_ERESOURCECREATE k)
     else
       and_then (open_lookup rid type open_mode res0 k) (\<lambda>(res', k1).
       case res' of
         None \<Rightarrow> Inr (set_retvalue r DSOS_ERESOURCEOPEN k1)
       | Some res \<Rightarrow>
         if res_type (resources k1 res) \<noteq> type then
           Inr (set_retvalue r DSOS_ERESOURCEOPEN k1)
         else if has_flag open_mode DSOS_EXCL \<and> list_size (Descriptors_ptrs res) k1 \<noteq> 0 then
           Inr (set_retvalue r DSOS_ERESOURCENOEXCL k1)
         else open_descriptor r res k1)))"

text \<open>\<open>List_detach\<close> returns its argument, so the assertions on its result never fail.\<close>

definition internal_closeResource :: "kernel \<Rightarrow> fault + kernel" where
  "internal_closeResource k =
     and_then (deref (running k)) (\<lambda>r.
     let fd = to_int (syscall_args (pcbs k r) 0) in
     and_then (DescriptorList_byFd (Descriptors r) fd k) (\<lambda>found.
     case found of
       None \<Rightarrow> Inr (set_retvalue r DSOS_ERESOURCECLOSE k)
     | Some _ \<Rightarrow>
         and_then (k_detach (Descriptors r) found k) (\<lambda>(des, k1).
         let res = des_resource (descriptors k1 des) in
         and_then (k_detach (Descriptors_ptrs res) (des_ptr (descriptors k1 des)) k1)
           (\<lambda>(desptr, k2).
         and_then (Descriptor_free des k2) (\<lambda>(_, k3).
         and_then (DescriptorPtr_free desptr k3) (\<lambda>(_, k4).
         Inr (set_retvalue r 0 k4)))))))"

definition internal_destroyResource :: "kernel \<Rightarrow> fault + kernel" where
  "internal_destroyResource k =
     and_then (deref (running k)) (\<lambda>r.
     let rid = to_int (syscall_args (pcbs k r) 0) in
     and_then (ResourceList_byId Resources_list rid k) (\<lambda>found.
     case found of
       None \<Rightarrow> Inr (set_retvalue r DSOS_ERESOURCECLOSE k)
     | Some res0 \<Rightarrow>
         if list_size (Descriptors_ptrs res0) k \<noteq> 0 then
           Inr (set_retvalue r DSOS_ERESOURCEINUSE k)
         else
           and_then (k_detach Resources_list found k) (\<lambda>(res, k1).
           and_then (Resource_free res k1) (\<lambda>(_, k2).
           Inr (set_retvalue r 0 k2)))))"

end
