(* ===== verification/BQueues.thy ===== *)
theory BQueues
  imports Processes
begin

text \<open>
  The objects of the blocking queues: \<open>bqueue.h\<close> and \<open>bqueue.c\<close>, the allocators of queues and queue
  items, the registry and the release of a queue with everything it still holds.
\<close>

definition MAX_NUM_BQUEUES :: int where "MAX_NUM_BQUEUES = 128"

definition MAX_NUM_BQITEMS :: int where "MAX_NUM_BQITEMS = 4096"

definition BQ_BUFFER_SIZE :: "(region \<Rightarrow> int) \<Rightarrow> int" where
  "BQ_BUFFER_SIZE sizeof = MAX_NUM_BQUEUES * (sizeof Bq_buffer + sizeof_int)"

definition BQITEM_BUFFER_SIZE :: "(region \<Rightarrow> int) \<Rightarrow> int" where
  "BQITEM_BUFFER_SIZE sizeof = MAX_NUM_BQITEMS * (sizeof Bqitem_buffer + sizeof_int)"

definition BQ_init :: "(region \<Rightarrow> int) \<Rightarrow> kernel \<Rightarrow> fault + kernel" where
  "BQ_init sizeof k =
     and_then (k_pool_init Bq_buffer (sizeof Bq_buffer) MAX_NUM_BQUEUES (BQ_BUFFER_SIZE sizeof) k)
       (\<lambda>k1. and_then (k_pool_init Bqitem_buffer (sizeof Bqitem_buffer) MAX_NUM_BQITEMS
                         (BQITEM_BUFFER_SIZE sizeof) k1)
         (\<lambda>k2. Inr (k_init Bq_registry k2)))"

text \<open>\<open>BQ_registry()\<close> is the address of the registry list.\<close>

definition BQ_registry :: list_id where "BQ_registry = Bq_registry"

definition BQ_alloc :: "int \<Rightarrow> int \<Rightarrow> kernel \<Rightarrow> fault + (ptr option \<times> kernel)" where
  "BQ_alloc qid capacity k =
     and_then (k_get Bq_buffer k) (\<lambda>(b, k1).
       case b of
         None \<Rightarrow> Inr (None, k1)
       | Some q \<Rightarrow>
           let k2 = k_clear_links q k1;
               k3 = upd_bqueue q (\<lambda>_. \<lparr>bq_id = qid, bq_capacity = capacity, bq_size = 0\<rparr>) k2
           in Inr (Some q,
                k_init (Wait_putters q) (k_init (Wait_getters q) (k_init (Items q) k3))))"

definition BQItem_alloc :: "kernel \<Rightarrow> fault + (ptr option \<times> kernel)" where
  "BQItem_alloc k =
     and_then (k_get Bqitem_buffer k) (\<lambda>(b, k1).
       case b of
         None \<Rightarrow> Inr (None, k1)
       | Some it \<Rightarrow>
           let k2 = k_clear_links it k1
           in Inr (Some it, k2\<lparr>bq_items := (bq_items k2)(it := 0)\<rparr>))"

definition BQItem_free :: "ptr \<Rightarrow> kernel \<Rightarrow> fault + (int \<times> kernel)" where
  "BQItem_free it k = and_then (k_release Bqitem_buffer it k) (\<lambda>(_, k1). Inr (0, k1))"

text \<open>\<open>BQ_free\<close>: the loop that frees the items, the two assertions, the release of the block.\<close>

definition BQ_free_items :: "ptr \<Rightarrow> kernel \<Rightarrow> fault + kernel" where
  "BQ_free_items q =
     c_while (\<lambda>k. list_first (Items q) k \<noteq> None)
       (\<lambda>k. and_then (k_detach (Items q) (list_first (Items q) k) k) (\<lambda>(it, k1).
            and_then (k_release Bqitem_buffer it k1) (\<lambda>(_, k2). Inr k2)))"

definition BQ_free :: "ptr \<Rightarrow> kernel \<Rightarrow> fault + (int \<times> kernel)" where
  "BQ_free q k =
     and_then (BQ_free_items q k) (\<lambda>k1.
     let k2 = upd_bqueue q (\<lambda>b. b\<lparr>bq_size := 0\<rparr>) k1 in
     and_then (assert_that (list_size (Wait_getters q) k2 = 0)) (\<lambda>_.
     and_then (assert_that (list_size (Wait_putters q) k2 = 0)) (\<lambda>_.
     and_then (k_release Bq_buffer q k2) (\<lambda>(_, k3). Inr (0, k3)))))"

definition BQ_byId :: "list_id \<Rightarrow> int \<Rightarrow> kernel \<Rightarrow> fault + ptr option" where
  "BQ_byId h qid k = list_scan (\<lambda>q. bq_id (bqueues k q) = qid) h (lists k)"

end
