(* ===== verification/BQueue_Syscalls.thy ===== *)
theory BQueue_Syscalls
  imports BQueues
begin

text \<open>
  The handlers of the blocking-queue system calls, \<open>disastrOS_bqueue.c\<close>.  A process that must wait is
  put on the queue's list of getters or putters, through a \<open>PCBPtr\<close>, and on the kernel's waiting
  list; its call is completed by the process that wakes it.
\<close>

definition wake_ready :: "ptr \<Rightarrow> kernel \<Rightarrow> fault + kernel" where
  "wake_ready p k =
     and_then (List_find Waiting_list p (lists k)) (\<lambda>found.
     and_then
       (case found of
          None \<Rightarrow> Inr k
        | Some _ \<Rightarrow> and_then (k_detach Waiting_list (Some p) k) (\<lambda>(_, k1). Inr k1))
       (\<lambda>k1. k_append Ready_list p (set_status p Ready k1)))"

text \<open>The end of a blocking call: the next ready process runs, or none does.\<close>

definition dispatch_next :: "kernel \<Rightarrow> fault + kernel" where
  "dispatch_next k =
     (if list_first Ready_list k \<noteq> None then
        and_then (k_detach Ready_list (list_first Ready_list k) k) (\<lambda>(nxt, k1).
        Inr ((set_status nxt Running k1)\<lparr>running := Some nxt\<rparr>))
      else Inr (k\<lparr>running := None\<rparr>))"

text \<open>
  \<open>block_on h r\<close>: the running process \<open>r\<close> goes to sleep on the list \<open>h\<close> of a queue.
\<close>

definition block_on :: "list_id \<Rightarrow> ptr \<Rightarrow> kernel \<Rightarrow> fault + kernel" where
  "block_on h r k =
     and_then (PCBPtr_alloc r (set_status r Waiting k)) (\<lambda>(w, k1).
     and_then (k_append h w k1) (\<lambda>k2.
     and_then (k_append Waiting_list r k2) dispatch_next))"

text \<open>\<open>take_waiter h\<close>: the first process on the list \<open>h\<close> of a queue leaves it.\<close>

definition take_waiter :: "list_id \<Rightarrow> kernel \<Rightarrow> fault + (ptr \<times> kernel)" where
  "take_waiter h k =
     and_then (k_detach h (list_first h k) k) (\<lambda>(w, k1).
     let p = pcb_ptrs k1 w in
     and_then (PCBPtr_free w k1) (\<lambda>(_, k2). Inr (p, k2)))"

definition internal_bq_create :: "kernel \<Rightarrow> fault + kernel" where
  "internal_bq_create k =
     and_then (deref (running k)) (\<lambda>r.
     let qid = to_int (syscall_args (pcbs k r) 0);
         cap = to_int (syscall_args (pcbs k r) 1);
         k1 = print_out (''bq_create(pid='' @ show_int (pid (pcbs k r)) @ '', id='' @ show_int qid
                @ '', cap='' @ show_int cap @ '')'' @ newline) k
     in
     if cap \<le> 0 then Inr (set_retvalue r DSOS_ESYSCALL_ARGUMENT_OUT_OF_BOUNDS k1)
     else
       and_then (BQ_byId BQ_registry qid k1) (\<lambda>found.
       if found \<noteq> None then Inr (set_retvalue r DSOS_EEXIST k1)
       else
         and_then (BQ_alloc qid cap k1) (\<lambda>(q', k2).
         case q' of
           None \<Rightarrow> Inr (set_retvalue r DSOS_ESYSCALL_NOT_IMPLEMENTED k2)
         | Some q \<Rightarrow>
             and_then (k_append BQ_registry q k2) (\<lambda>k3.
             Inr (set_retvalue r 0 k3)))))"

definition internal_bq_delete :: "kernel \<Rightarrow> fault + kernel" where
  "internal_bq_delete k =
     and_then (deref (running k)) (\<lambda>r.
     let qid = to_int (syscall_args (pcbs k r) 0) in
     and_then (BQ_byId BQ_registry qid k) (\<lambda>found.
     case found of
       None \<Rightarrow> Inr (set_retvalue r DSOS_ERESOURCENOFD k)
     | Some q \<Rightarrow>
         if list_size (Wait_getters q) k \<noteq> 0 \<or> list_size (Wait_putters q) k \<noteq> 0 then
           Inr (set_retvalue r DSOS_ERESOURCEINUSE k)
         else
           and_then (k_detach BQ_registry (Some q) k) (\<lambda>(_, k1).
           and_then (BQ_free q k1) (\<lambda>(_, k2).
           Inr (set_retvalue r 0 k2)))))"

text \<open>\<open>List_insert(&q->items, q->items.last, it); ++q->size;\<close> of an item that holds \<open>v\<close>\<close>

definition push_item :: "ptr \<Rightarrow> ptr \<Rightarrow> int \<Rightarrow> kernel \<Rightarrow> fault + kernel" where
  "push_item q it v k =
     (let k1 = k\<lparr>bq_items := (bq_items k)(it := v)\<rparr> in
      and_then (k_append (Items q) it k1) (\<lambda>k2.
      Inr (upd_bqueue q (\<lambda>b. b\<lparr>bq_size := bq_size b + 1\<rparr>) k2)))"

definition internal_bq_put :: "kernel \<Rightarrow> fault + kernel" where
  "internal_bq_put k =
     and_then (deref (running k)) (\<lambda>r.
     let qid = to_int (syscall_args (pcbs k r) 0);
         v = syscall_args (pcbs k r) 1
     in
     and_then (BQ_byId BQ_registry qid k) (\<lambda>found.
     case found of
       None \<Rightarrow> Inr (set_retvalue r DSOS_ERESOURCENOFD k)
     | Some q \<Rightarrow>
         if list_first (Wait_getters q) k \<noteq> None then
           and_then (take_waiter (Wait_getters q) k) (\<lambda>(getter, k1).
           let outp = syscall_args (pcbs k1 getter) 1;
               k2 = store_result outp v k1
           in
           and_then (wake_ready getter (set_retvalue getter 0 k2)) (\<lambda>k3.
           Inr (set_retvalue r 0 k3)))
         else if bq_size (bqueues k q) < bq_capacity (bqueues k q) then
           and_then (BQItem_alloc k) (\<lambda>(it', k1).
           case it' of
             None \<Rightarrow> Inr (set_retvalue r DSOS_ESYSCALL_NOT_IMPLEMENTED k1)
           | Some it \<Rightarrow>
               and_then (push_item q it v k1) (\<lambda>k2.
               Inr (set_retvalue r 0 k2)))
         else block_on (Wait_putters q) r k))"

text \<open>
  \<open>complete_put q\<close>: the first waiting putter's value goes into the buffer and the putter is woken.
\<close>

definition complete_put :: "ptr \<Rightarrow> kernel \<Rightarrow> fault + kernel" where
  "complete_put q k =
     and_then (take_waiter (Wait_putters q) k) (\<lambda>(prod, k1).
     let v2 = syscall_args (pcbs k1 prod) 1 in
     and_then (BQItem_alloc k1) (\<lambda>(it2, k2).
     and_then (case it2 of None \<Rightarrow> Inr k2 | Some it \<Rightarrow> push_item q it v2 k2) (\<lambda>k3.
     wake_ready prod (set_retvalue prod 0 k3))))"

definition internal_bq_get :: "kernel \<Rightarrow> fault + kernel" where
  "internal_bq_get k =
     and_then (deref (running k)) (\<lambda>r.
     let qid = to_int (syscall_args (pcbs k r) 0);
         outp = syscall_args (pcbs k r) 1
     in
     and_then (BQ_byId BQ_registry qid k) (\<lambda>found.
     case found of
       None \<Rightarrow> Inr (set_retvalue r DSOS_ERESOURCENOFD k)
     | Some q \<Rightarrow>
         if list_first (Items q) k \<noteq> None then
           and_then (k_detach (Items q) (list_first (Items q) k) k) (\<lambda>(it, k1).
           let k2 = upd_bqueue q (\<lambda>b. b\<lparr>bq_size := bq_size b - 1\<rparr>) k1;
               k3 = store_result outp (bq_items k2 it) k2
           in
           and_then (BQItem_free it k3) (\<lambda>(_, k4).
           and_then
             (if list_first (Wait_putters q) k4 \<noteq> None then complete_put q k4 else Inr k4)
             (\<lambda>k5. Inr (set_retvalue r 0 k5))))
         else if list_first (Wait_putters q) k \<noteq> None then
           and_then (take_waiter (Wait_putters q) k) (\<lambda>(prod, k1).
           let v = syscall_args (pcbs k1 prod) 1;
               k2 = store_result outp v k1
           in
           and_then (wake_ready prod (set_retvalue prod 0 k2)) (\<lambda>k3.
           Inr (set_retvalue r 0 k3)))
         else block_on (Wait_getters q) r k))"

definition list_len :: "list_id \<Rightarrow> kernel \<Rightarrow> fault + int" where
  "list_len h k =
     and_then
       (c_while (\<lambda>(it, n). it \<noteq> None)
          (\<lambda>(it, n). and_then (deref it) (\<lambda>p. Inr (li_next (node (lists k) p), n + 1)))
          (list_first h k, 0))
       (\<lambda>(it, n). Inr n)"

definition internal_bq_dump :: "kernel \<Rightarrow> fault + kernel" where
  "internal_bq_dump k =
     and_then (deref (running k)) (\<lambda>r.
     let qid = to_int (syscall_args (pcbs k r) 0) in
     and_then (BQ_byId BQ_registry qid k) (\<lambda>found.
     case found of
       None \<Rightarrow> Inr (set_retvalue r DSOS_ERESOURCENOFD k)
     | Some q \<Rightarrow>
         and_then (print_items (\<lambda>it has_next. Inr (show_int (bq_items k it) @ comma has_next))
                     (Items q) k) (\<lambda>items.
         and_then (list_len (Wait_putters q) k) (\<lambda>np.
         and_then (list_len (Wait_getters q) k) (\<lambda>ng.
         Inr (set_retvalue r 0 (print_out
           (''BQ['' @ show_int (bq_id (bqueues k q)) @ ''] size='' @ show_int (bq_size (bqueues k q))
            @ ''/'' @ show_int (bq_capacity (bqueues k q)) @ '' items=['' @ items
            @ ''] wait_putters='' @ show_int np @ '' wait_getters='' @ show_int ng @ newline)
           k)))))))"

end
