(* ===== verification/Kernel.thy ===== *)
theory Kernel
  imports Process_Syscalls Resource_Syscalls BQueue_Syscalls
begin

text \<open>
  The kernel's entry points, \<open>disastrOS.c\<close>: the timer interrupt, the system call and its trap, the
  start of the system.  The transfers of control with \<open>setcontext\<close> are the values of \<open>control\<close>:
  back to a process, to \<open>main_context\<close> (the point in \<open>disastrOS_start\<close> after \<open>getcontext\<close>), or to
  \<open>interrupt_context\<close>, which runs \<open>timerInterrupt\<close> from its beginning.  A function that returns in
  a context made by \<open>makecontext\<close> resumes the context's \<open>uc_link\<close>, here \<open>main_context\<close>.
\<close>

section \<open>Transfers of control and the log\<close>

datatype control = To_process ptr | To_main | To_interrupt

definition log_line :: "int \<Rightarrow> int \<Rightarrow> string \<Rightarrow> string" where
  "log_line time p action =
     ''TIME: '' @ show_int time @ tabulator @ ''PID: '' @ show_int p @ tabulator
     @ ''ACTION: '' @ action @ newline"

definition running_pid :: "kernel \<Rightarrow> int" where
  "running_pid k = (case running k of None \<Rightarrow> -1 | Some r \<Rightarrow> pid (pcbs k r))"

definition disastrOS_getpid :: "kernel \<Rightarrow> int" where
  "disastrOS_getpid k = running_pid k"

section \<open>The timer interrupt\<close>

text \<open>One iteration of the loop that wakes the processes whose timer has expired.\<close>

definition wake_expired :: "kernel \<Rightarrow> fault + kernel" where
  "wake_expired k =
     and_then (deref (TimerList_current Timer_list (disastrOS_time k) k)) (\<lambda>t.
     let p = timer_pcb (timer_items k t) in
     and_then (TimerList_removeCurrent Timer_list k) (\<lambda>(_, k1).
     let k2 = upd_pcb p (\<lambda>b. b\<lparr>timer := None\<rparr>) k1 in
     and_then (List_find Waiting_list p (lists k2)) (\<lambda>found.
     and_then
       (case found of
          None \<Rightarrow> Inr k2
        | Some _ \<Rightarrow> and_then (k_detach Waiting_list (Some p) k2) (\<lambda>(_, k3). Inr k3))
       (\<lambda>k3. k_append Ready_list p (set_status p Ready k3)))))"

definition wake_all_expired :: "kernel \<Rightarrow> fault + kernel" where
  "wake_all_expired =
     c_while (\<lambda>k. TimerList_current Timer_list (disastrOS_time k) k \<noteq> None) wake_expired"

definition timer_dispatch :: "kernel \<Rightarrow> fault + kernel" where
  "timer_dispatch k =
     (if running k = None \<and> list_first Ready_list k \<noteq> None then
        and_then (k_detach Ready_list (list_first Ready_list k) k) (\<lambda>(nxt, k1).
        Inr ((set_status nxt Running k1)\<lparr>running := Some nxt\<rparr>))
      else if running k \<noteq> None \<and> list_first Ready_list k \<noteq> None then internal_schedule k
      else Inr k)"

definition timerInterrupt :: "kernel \<Rightarrow> fault + (control \<times> kernel)" where
  "timerInterrupt k =
     (let k1 = log_out (log_line (disastrOS_time k) (running_pid k) ''TIMER_OUT'') k in
      and_then (add_int (disastrOS_time k1) 1) (\<lambda>now.
      let k2 = k1\<lparr>disastrOS_time := now\<rparr> in
      and_then (wake_all_expired k2) (\<lambda>k3.
      and_then (timer_dispatch k3) (\<lambda>k4.
      let k5 = log_out (log_line (disastrOS_time k4) (running_pid k4) ''TIMER_IN'') k4
      in Inr (case running k5 of Some r \<Rightarrow> (To_process r, k5) | None \<Rightarrow> (To_main, k5))))))"

text \<open>The signal handler saves the interrupted context in the running process.\<close>

definition timerHandler :: "kernel \<Rightarrow> fault + (control \<times> kernel)" where
  "timerHandler k =
     timerInterrupt
       (case running k of
          None \<Rightarrow> k
        | Some r \<Rightarrow> upd_pcb r (\<lambda>b. b\<lparr>cpu_state := Ctx_saved\<rparr>) k)"

section \<open>System calls\<close>

datatype syscall_fn =
  Fn_preempt | Fn_fork | Fn_spawn | Fn_wait | Fn_exit | Fn_sleep | Fn_openResource |
  Fn_closeResource | Fn_destroyResource | Fn_shutdown | Fn_bq_create | Fn_bq_delete |
  Fn_bq_put | Fn_bq_get | Fn_bq_dump

text \<open>The tables that \<open>disastrOS_start\<close> fills; \<open>syscall_numarg\<close> is static, so its other entries are 0.\<close>

definition syscall_vector :: "syscall_fn option list" where
  "syscall_vector =
     (let v0 = replicate (nat DSOS_MAX_SYSCALLS) None;
          v1 = v0[nat DSOS_CALL_PREEMPT := Some Fn_preempt];
          v2 = v1[nat DSOS_CALL_FORK := Some Fn_fork];
          v3 = v2[nat DSOS_CALL_SPAWN := Some Fn_spawn];
          v4 = v3[nat DSOS_CALL_WAIT := Some Fn_wait];
          v5 = v4[nat DSOS_CALL_EXIT := Some Fn_exit];
          v6 = v5[nat DSOS_CALL_SLEEP := Some Fn_sleep];
          v7 = v6[nat DSOS_CALL_OPEN_RESOURCE := Some Fn_openResource];
          v8 = v7[nat DSOS_CALL_CLOSE_RESOURCE := Some Fn_closeResource];
          v9 = v8[nat DSOS_CALL_DESTROY_RESOURCE := Some Fn_destroyResource];
          v10 = v9[nat DSOS_CALL_SHUTDOWN := Some Fn_shutdown];
          v11 = v10[nat DSOS_CALL_BQ_CREATE := Some Fn_bq_create];
          v12 = v11[nat DSOS_CALL_BQ_DELETE := Some Fn_bq_delete];
          v13 = v12[nat DSOS_CALL_BQ_PUT := Some Fn_bq_put];
          v14 = v13[nat DSOS_CALL_BQ_GET := Some Fn_bq_get]
      in v14[nat DSOS_CALL_BQ_DUMP := Some Fn_bq_dump])"

definition syscall_numarg :: "int list" where
  "syscall_numarg =
     (let n0 = replicate (nat DSOS_MAX_SYSCALLS) 0;
          n1 = n0[nat DSOS_CALL_PREEMPT := 0];
          n2 = n1[nat DSOS_CALL_FORK := 0];
          n3 = n2[nat DSOS_CALL_SPAWN := 2];
          n4 = n3[nat DSOS_CALL_WAIT := 2];
          n5 = n4[nat DSOS_CALL_EXIT := 1];
          n6 = n5[nat DSOS_CALL_SLEEP := 1];
          n7 = n6[nat DSOS_CALL_OPEN_RESOURCE := 3];
          n8 = n7[nat DSOS_CALL_CLOSE_RESOURCE := 1];
          n9 = n8[nat DSOS_CALL_DESTROY_RESOURCE := 1];
          n10 = n9[nat DSOS_CALL_BQ_CREATE := 2];
          n11 = n10[nat DSOS_CALL_BQ_DELETE := 1];
          n12 = n11[nat DSOS_CALL_BQ_PUT := 2];
          n13 = n12[nat DSOS_CALL_BQ_GET := 2];
          n14 = n13[nat DSOS_CALL_BQ_DUMP := 1]
      in n14[nat DSOS_CALL_SHUTDOWN := 0])"

text \<open>A handler either returns to the trap or, for \<open>shutdown\<close>, jumps to \<open>main_context\<close>.\<close>

definition returning :: "fault + kernel \<Rightarrow> fault + (control option \<times> kernel)" where
  "returning r = and_then r (\<lambda>k. Inr (None, k))"

fun run_handler :: "syscall_fn \<Rightarrow> kernel \<Rightarrow> fault + (control option \<times> kernel)" where
  "run_handler Fn_preempt k = returning (internal_preempt k)"
| "run_handler Fn_fork k = returning (internal_fork k)"
| "run_handler Fn_spawn k = returning (internal_spawn k)"
| "run_handler Fn_wait k = returning (internal_wait k)"
| "run_handler Fn_exit k = returning (internal_exit k)"
| "run_handler Fn_sleep k = returning (internal_sleep k)"
| "run_handler Fn_openResource k = returning (internal_openResource k)"
| "run_handler Fn_closeResource k = returning (internal_closeResource k)"
| "run_handler Fn_destroyResource k = returning (internal_destroyResource k)"
| "run_handler Fn_shutdown k = Inr (Some To_main, internal_shutdown k)"
| "run_handler Fn_bq_create k = returning (internal_bq_create k)"
| "run_handler Fn_bq_delete k = returning (internal_bq_delete k)"
| "run_handler Fn_bq_put k = returning (internal_bq_put k)"
| "run_handler Fn_bq_get k = returning (internal_bq_get k)"
| "run_handler Fn_bq_dump k = returning (internal_bq_dump k)"

text \<open>The end of the trap: with a log file the running process is dereferenced once more.\<close>

definition return_to_process :: "int \<Rightarrow> kernel \<Rightarrow> fault + (control \<times> kernel)" where
  "return_to_process n k =
     and_then
       (if log_file k = None then Inr k
        else and_then (deref (running k)) (\<lambda>r.
          Inr (log_out (log_line (disastrOS_time k) (pid (pcbs k r))
                 (''SYSCALL_OUT '' @ show_int n)) k)))
       (\<lambda>k1. Inr (case running k1 of Some r \<Rightarrow> (To_process r, k1) | None \<Rightarrow> (To_interrupt, k1)))"

definition disastrOS_trap :: "kernel \<Rightarrow> fault + (control \<times> kernel)" where
  "disastrOS_trap k =
     and_then (deref (running k)) (\<lambda>r.
     let n = syscall_num (pcbs k r);
         k1 = log_out (log_line (disastrOS_time k) (pid (pcbs k r))
                (''SYSCALL_IN '' @ show_int n)) k
     in
     if n < 0 \<or> n > DSOS_MAX_SYSCALLS then
       return_to_process n (set_retvalue r DSOS_ESYSCALL_OUT_OF_RANGE k1)
     else
       and_then (arr_read syscall_vector n) (\<lambda>my_syscall.
       case my_syscall of
         None \<Rightarrow> return_to_process n (set_retvalue r DSOS_ESYSCALL_NOT_IMPLEMENTED k1)
       | Some f \<Rightarrow>
           and_then (run_handler f k1) (\<lambda>(jump, k2).
           case jump of
             Some c \<Rightarrow> Inr (c, k2)
           | None \<Rightarrow> return_to_process n k2)))"

text \<open>
  The call in the process: the arguments are copied from the variable argument list into the PCB,
  then the trap is entered.  \<open>Inl n\<close> is an immediate return of \<open>n\<close> without a trap.
\<close>

fun copy_args :: "nat \<Rightarrow> nat \<Rightarrow> int list \<Rightarrow> (nat \<Rightarrow> int) \<Rightarrow> fault + (nat \<Rightarrow> int)" where
  "copy_args 0 i va regs = Inr regs"
| "copy_args (Suc n) i [] regs = Inl Out_of_bounds"
| "copy_args (Suc n) i (a # va) regs = copy_args n (Suc i) va (regs(i := a))"

definition disastrOS_syscall ::
  "int \<Rightarrow> int list \<Rightarrow> kernel \<Rightarrow> fault + (int + control \<times> kernel)"
where
  "disastrOS_syscall n va k =
     and_then (assert_that (running k \<noteq> None)) (\<lambda>_.
     if n < 0 \<or> n > DSOS_MAX_SYSCALLS then Inr (Inl DSOS_ESYSCALL_OUT_OF_RANGE)
     else
       and_then (arr_read syscall_numarg n) (\<lambda>nargs.
       and_then (deref (running k)) (\<lambda>r.
       and_then (copy_args (nat nargs) 0 va (syscall_args (pcbs k r))) (\<lambda>regs.
       let k1 = upd_pcb r (\<lambda>b. b\<lparr>syscall_args := regs, syscall_num := n, cpu_state := Ctx_saved\<rparr>) k
       in and_then (disastrOS_trap k1) (\<lambda>ck. Inr (Inr ck))))))"

section \<open>The calls of the processes\<close>

definition disastrOS_fork :: "kernel \<Rightarrow> fault + (int + control \<times> kernel)" where
  "disastrOS_fork = disastrOS_syscall DSOS_CALL_FORK []"

definition disastrOS_wait :: "int \<Rightarrow> int \<Rightarrow> kernel \<Rightarrow> fault + (int + control \<times> kernel)" where
  "disastrOS_wait n retval = disastrOS_syscall DSOS_CALL_WAIT [n, retval]"

definition disastrOS_exit :: "int \<Rightarrow> kernel \<Rightarrow> fault + (int + control \<times> kernel)" where
  "disastrOS_exit exitval = disastrOS_syscall DSOS_CALL_EXIT [exitval]"

definition disastrOS_preempt :: "kernel \<Rightarrow> fault + (int + control \<times> kernel)" where
  "disastrOS_preempt = disastrOS_syscall DSOS_CALL_PREEMPT []"

definition disastrOS_spawn :: "int \<Rightarrow> int \<Rightarrow> kernel \<Rightarrow> fault + (int + control \<times> kernel)" where
  "disastrOS_spawn f args = disastrOS_syscall DSOS_CALL_SPAWN [f, args]"

definition disastrOS_shutdown :: "kernel \<Rightarrow> fault + (int + control \<times> kernel)" where
  "disastrOS_shutdown = disastrOS_syscall DSOS_CALL_SHUTDOWN []"

definition disastrOS_sleep :: "int \<Rightarrow> kernel \<Rightarrow> fault + (int + control \<times> kernel)" where
  "disastrOS_sleep sleep_time = disastrOS_syscall DSOS_CALL_SLEEP [sleep_time]"

definition disastrOS_openResource ::
  "int \<Rightarrow> int \<Rightarrow> int \<Rightarrow> kernel \<Rightarrow> fault + (int + control \<times> kernel)"
where
  "disastrOS_openResource resource_id type mode =
     disastrOS_syscall DSOS_CALL_OPEN_RESOURCE [resource_id, type, mode]"

definition disastrOS_closeResource :: "int \<Rightarrow> kernel \<Rightarrow> fault + (int + control \<times> kernel)" where
  "disastrOS_closeResource fd = disastrOS_syscall DSOS_CALL_CLOSE_RESOURCE [fd]"

definition disastrOS_destroyResource :: "int \<Rightarrow> kernel \<Rightarrow> fault + (int + control \<times> kernel)" where
  "disastrOS_destroyResource resource_id =
     disastrOS_syscall DSOS_CALL_DESTROY_RESOURCE [resource_id]"

definition disastrOS_bqCreate :: "int \<Rightarrow> int \<Rightarrow> kernel \<Rightarrow> fault + (int + control \<times> kernel)" where
  "disastrOS_bqCreate qid capacity = disastrOS_syscall DSOS_CALL_BQ_CREATE [qid, capacity]"

definition disastrOS_bqPut :: "int \<Rightarrow> int \<Rightarrow> kernel \<Rightarrow> fault + (int + control \<times> kernel)" where
  "disastrOS_bqPut qid v = disastrOS_syscall DSOS_CALL_BQ_PUT [qid, v]"

definition disastrOS_bqGet :: "int \<Rightarrow> int \<Rightarrow> kernel \<Rightarrow> fault + (int + control \<times> kernel)" where
  "disastrOS_bqGet qid out = disastrOS_syscall DSOS_CALL_BQ_GET [qid, out]"

definition disastrOS_bqDelete :: "int \<Rightarrow> kernel \<Rightarrow> fault + (int + control \<times> kernel)" where
  "disastrOS_bqDelete qid = disastrOS_syscall DSOS_CALL_BQ_DELETE [qid]"

definition disastrOS_bqDump :: "int \<Rightarrow> kernel \<Rightarrow> fault + (int + control \<times> kernel)" where
  "disastrOS_bqDump qid = disastrOS_syscall DSOS_CALL_BQ_DUMP [qid]"

section \<open>Start of the system\<close>

text \<open>
  The static storage of the program before \<open>disastrOS_start\<close>: everything is zero.  The \<open>pcb\<close> and
  resource members of unused blocks, which no code reads, get an arbitrary address.
\<close>

definition null_block :: ptr where "null_block = Addr Pcb_buffer 0"

definition zero_pool :: "region \<Rightarrow> region PoolAllocator" where
  "zero_pool r = \<lparr>pa_buffer = Addr r 0, pa_free_list = [], pa_buffer_size = 0, pa_size = 0,
     pa_size_max = 0, pa_item_size = 0, pa_first_idx = 0, pa_bucket_size = 0\<rparr>"

definition zero_pcb :: PCB where
  "zero_pcb = \<lparr>pid = 0, return_value = 0, status = Created, signals = 0, signals_mask = 0,
     parent = None, cpu_state = Ctx_unset, timer = None, last_fd = 0, syscall_num = 0,
     syscall_args = (\<lambda>_. 0), syscall_retvalue = 0\<rparr>"

definition zero_kernel :: kernel where
  "zero_kernel = \<lparr>
     lists = \<lparr>node = (\<lambda>_. \<lparr>li_prev = None, li_next = None\<rparr>),
              head = (\<lambda>_. \<lparr>lh_first = None, lh_last = None, lh_size = 0\<rparr>)\<rparr>,
     pools = zero_pool,
     pcbs = (\<lambda>_. zero_pcb), pcb_ptrs = (\<lambda>_. null_block),
     timer_items = (\<lambda>_. \<lparr>awakening_time = 0, timer_pcb = null_block\<rparr>),
     resources = (\<lambda>_. \<lparr>res_id = 0, res_type = 0\<rparr>),
     descriptors = (\<lambda>_. \<lparr>des_pcb = null_block, des_resource = null_block, des_fd = 0, des_ptr = None\<rparr>),
     descriptor_ptrs = (\<lambda>_. null_block),
     bqueues = (\<lambda>_. \<lparr>bq_id = 0, bq_capacity = 0, bq_size = 0\<rparr>), bq_items = (\<lambda>_. 0),
     init_pcb = None, running = None, last_pid = 0, shutdown_now = 0, disastrOS_time = 0,
     log_file = None, stdout = [], user_mem = (\<lambda>_. 0)\<rparr>"

text \<open>The part of \<open>disastrOS_start\<close> before \<open>getcontext(&main_context)\<close>.\<close>

definition start_init :: "(region \<Rightarrow> int) \<Rightarrow> kernel \<Rightarrow> fault + kernel" where
  "start_init sizeof k =
     and_then (PCB_init sizeof k) (\<lambda>k1.
     and_then (Timer_init sizeof k1) (\<lambda>k2.
     and_then (Resource_init sizeof k2) (\<lambda>k3.
     and_then (Descriptor_init sizeof k3) (\<lambda>k4.
     let k5 = k4\<lparr>init_pcb := None\<rparr>;
         k6 = k5\<lparr>running := None\<rparr>;
         k7 = k_init Ready_list k6;
         k8 = k_init Waiting_list k7;
         k9 = k_init Zombie_list k8;
         k10 = k_init Resources_list k9;
         k11 = k_init Timer_list k10
     in BQ_init sizeof k11))))"

text \<open>
  The part after it, which also runs whenever control comes back to \<open>main_context\<close>: the end of the
  program after a shutdown (\<open>None\<close>), otherwise the creation and start of the first process.
\<close>

definition start_resume :: "int \<Rightarrow> int \<Rightarrow> bool \<Rightarrow> kernel \<Rightarrow> fault + (control \<times> kernel) option" where
  "start_resume f f_args logging k =
     (if shutdown_now k \<noteq> 0 then Inr None
      else
        and_then (PCB_alloc k) (\<lambda>(p, k1).
        let k2 = k1\<lparr>running := Some p\<rparr>;
            k3 = set_status p Running k2;
            k4 = k3\<lparr>init_pcb := Some p\<rparr>;
            k5 = upd_pcb p (\<lambda>b. b\<lparr>cpu_state := Ctx_entry f f_args\<rparr>) k4;
            k6 = (if logging then
                    k5\<lparr>log_file := Some (log_line (disastrOS_time k5) (-1) ''START'')\<rparr>
                  else k5)
        in Inr (Some (To_process p, k6))))"

definition disastrOS_start ::
  "(region \<Rightarrow> int) \<Rightarrow> int \<Rightarrow> int \<Rightarrow> bool \<Rightarrow> kernel \<Rightarrow> fault + (control \<times> kernel) option"
where
  "disastrOS_start sizeof f f_args logging k =
     and_then (start_init sizeof k) (start_resume f f_args logging)"

end
