(* ===== verification/Contexts.thy ===== *)
theory Contexts
  imports Kernel
begin

text \<open>
  The set up of signals and of the contexts in \<open>disastrOS.c\<close> and \<open>disastrOS_spawn.c\<close>: on which stack and with which
  signals blocked the trap, the interrupt and the processes run, and so where the timer can tick.
\<close>

section \<open>Contexts\<close>

datatype signal = SIGALRM | Other_signal nat

text \<open>What \<open>makecontext\<close> is given: the function to run, and the fields of \<open>ucontext_t\<close> that the code sets.\<close>

datatype entry_point = At_disastrOS_trap | At_timerInterrupt | At_function int int | Here

datatype stack_area = Current_stack | System_stack | Stack_of ptr

record ucontext =
  uc_entry :: entry_point
  ss_sp :: stack_area
  ss_size :: int
  ss_flags :: int
  uc_link :: bool \<comment> \<open>whether it is \<open>main_context\<close>\<close>
  uc_sigmask :: "signal set"

text \<open>\<open>getcontext\<close> in a context with the signals \<open>bs\<close> blocked.\<close>

definition getcontext :: "signal set \<Rightarrow> ucontext" where
  "getcontext bs = \<lparr>uc_entry = Here, ss_sp = Current_stack, ss_size = 0, ss_flags = 0, uc_link = False, uc_sigmask = bs\<rparr>"

definition makecontext :: "ucontext \<Rightarrow> entry_point \<Rightarrow> ucontext" where
  "makecontext c e = c\<lparr>uc_entry := e\<rparr>"

text \<open>The contexts of the trap and of the interrupt.\<close>

definition trap_context :: "signal set \<Rightarrow> ucontext" where
  "trap_context bs =
     (let c0 = getcontext bs;
          c1 = c0\<lparr>ss_sp := System_stack\<rparr>;
          c2 = c1\<lparr>ss_size := STACK_SIZE\<rparr>;
          c3 = c2\<lparr>uc_sigmask := {}\<rparr>;
          c4 = c3\<lparr>uc_sigmask := insert SIGALRM (uc_sigmask c3)\<rparr>;
          c5 = c4\<lparr>ss_flags := 0\<rparr>;
          c6 = c5\<lparr>uc_link := True\<rparr>
      in makecontext c6 At_disastrOS_trap)"

definition interrupt_context :: "signal set \<Rightarrow> ucontext" where
  "interrupt_context bs =
     (let c0 = trap_context bs;
          c1 = c0\<lparr>uc_link := True\<rparr>;
          c2 = c1\<lparr>uc_sigmask := {}\<rparr>
      in makecontext c2 At_timerInterrupt)"

text \<open>The context of the first process, at \<open>p\<close>, and of a process that is spawned.\<close>

definition first_context :: "signal set \<Rightarrow> ptr \<Rightarrow> int \<Rightarrow> int \<Rightarrow> ucontext" where
  "first_context bs p f f_args =
     (let c0 = getcontext bs;
          c1 = c0\<lparr>ss_sp := Stack_of p\<rparr>;
          c2 = c1\<lparr>ss_size := STACK_SIZE\<rparr>;
          c3 = c2\<lparr>ss_flags := 0\<rparr>;
          c4 = c3\<lparr>uc_link := True\<rparr>
      in makecontext c4 (At_function f f_args))"

definition spawned_context :: "signal set \<Rightarrow> ptr \<Rightarrow> int \<Rightarrow> int \<Rightarrow> ucontext" where
  "spawned_context bs p f f_args =
     (let c0 = getcontext bs;
          c1 = c0\<lparr>ss_sp := Stack_of p\<rparr>;
          c2 = c1\<lparr>ss_size := STACK_SIZE\<rparr>;
          c3 = c2\<lparr>ss_flags := 0\<rparr>;
          c4 = c3\<lparr>uc_sigmask := {}\<rparr>;
          c5 = c4\<lparr>uc_link := True\<rparr>
      in makecontext c5 (At_function f f_args))"

text \<open>
  What the kernel's model keeps of a context, and that it is what the code stores: \<open>disastrOS_start\<close> and \<open>spawn\<close> set
  the context of their process to the ones above.
\<close>

definition kept :: "ucontext \<Rightarrow> machine_context" where
  "kept c = (case uc_entry c of At_function f f_args \<Rightarrow> Ctx_entry f f_args | _ \<Rightarrow> Ctx_saved)"

lemma start_sets_context:
  assumes "shutdown_now k = 0"
  shows "start_resume f f_args False k =
    and_then (PCB_alloc k) (\<lambda>(p, k1).
      Inr (Some (To_process p, upd_pcb p (\<lambda>b. b\<lparr>cpu_state := kept (first_context bs p f f_args)\<rparr>)
        ((set_status p Running (k1\<lparr>running := Some p\<rparr>))\<lparr>init_pcb := Some p\<rparr>))))"
  using assms by (simp add: start_resume_def kept_def first_context_def makecontext_def Let_def)

lemma spawn_sets_context:
  "internal_spawn k =
    and_then (deref (running k)) (\<lambda>r.
    and_then (new_child r k) (\<lambda>(p, k1).
    Inr (upd_pcb p (\<lambda>b. b\<lparr>cpu_state :=
      kept (spawned_context bs p (syscall_args (pcbs k1 r) 0) (syscall_args (pcbs k1 r) 1))\<rparr>) k1)))"
  by (simp add: internal_spawn_def kept_def spawned_context_def makecontext_def Let_def)

section \<open>Signals\<close>

text \<open>
  The action for \<open>SIGALRM\<close>, as far as the code sets it: the handler is \<open>timerHandler\<close>, which blocks the signals in
  \<open>sa_mask\<close> and, without \<open>SA_NODEFER\<close>, the signal itself.
\<close>

datatype sa_flag = SA_RESTART | SA_SIGINFO | SA_NODEFER

record sigaction =
  sa_mask :: "signal set"
  sa_flags :: "sa_flag set"

text \<open>The state of the UNIX process that the code changes; the intervals are in microseconds.\<close>

record signal_state =
  handler :: "sigaction option"
  signal_set :: "signal set"
  it_interval :: int
  it_value :: int
  error_out :: "string list"

text \<open>
  \<open>sigaction_fails\<close> stands for the answer of the system to \<open>sigaction\<close>; \<open>setitimer\<close> refuses a number of microseconds
  that is negative or not below a million.
\<close>

definition setitimer :: "int \<Rightarrow> int \<Rightarrow> signal_state \<Rightarrow> int \<times> signal_state" where
  "setitimer usec interval s =
     (if 0 \<le> usec \<and> usec < 1000000 then (0, s\<lparr>it_interval := interval, it_value := usec\<rparr>) else (-1, s))"

definition setupSignals :: "bool \<Rightarrow> signal_state \<Rightarrow> signal_state" where
  "setupSignals sigaction_fails s =
     (let act = \<lparr>sa_mask = {}, sa_flags = {SA_RESTART, SA_SIGINFO}\<rparr>;
          s1 = s\<lparr>signal_set := {}\<rparr>;
          s2 = s1\<lparr>signal_set := insert SIGALRM (signal_set s1)\<rparr>;
          s3 = (if sigaction_fails then s2\<lparr>error_out := error_out s2 @ [''Signal handler'']\<rparr> else s2\<lparr>handler := Some act\<rparr>);
          tv_usec = INTERVAL * 1000;
          (res, s4) = setitimer tv_usec tv_usec s3
      in if res \<noteq> 0 then s4\<lparr>error_out := error_out s4 @ [''setitiimer'']\<rparr> else s4)"

section \<open>Where the timer ticks\<close>

text \<open>The timer can interrupt code that runs in a context.\<close>

definition can_tick :: "signal_state \<Rightarrow> ucontext \<Rightarrow> bool" where
  "can_tick s c \<longleftrightarrow> handler s \<noteq> None \<and> 0 < it_value s \<and> SIGALRM \<notin> uc_sigmask c"

lemma setup_ticks:
  "handler (setupSignals False s) = Some \<lparr>sa_mask = {}, sa_flags = {SA_RESTART, SA_SIGINFO}\<rparr>"
  "it_interval (setupSignals b s) = 100000" "it_value (setupSignals b s) = 100000" "signal_set (setupSignals b s) = {SIGALRM}"
  by (simp_all add: setupSignals_def setitimer_def INTERVAL_def Let_def)

text \<open>
  A tick comes in the processes, as the steps of the machine have it, and never in the trap, whatever was blocked when the
  system was started; the first process has the mask of the program.  It can come in the interrupt, which has the same
  stack as the trap and is entered from its beginning by the next tick: this is not in the model of the machine.
\<close>

lemma ticks:
  assumes "s = setupSignals False s0"
  shows "\<not> can_tick s (trap_context bs)" and "can_tick s (spawned_context bs p f a)"
    and "can_tick s (first_context bs p f a) \<longleftrightarrow> SIGALRM \<notin> bs"
    and "can_tick s (interrupt_context bs)" and "ss_sp (interrupt_context bs) = ss_sp (trap_context bs)"
  using assms
  by (simp_all add: can_tick_def setup_ticks trap_context_def spawned_context_def first_context_def interrupt_context_def
      getcontext_def makecontext_def Let_def)

end
