(* ===== verification/Kernel_Ops.thy ===== *)
theory Kernel_Ops
  imports Kernel
begin

text \<open>
  The structural invariant of the kernel's memory and, for each list and allocator operation on the
  kernel, a total-correctness rule: under the invariant the operation does not go wrong, the
  invariant holds again and the abstract lists and the set of live blocks change as stated.  The
  handlers' proofs apply these rules from the outside in and are left with facts about HOL lists
  and sets.
\<close>

section \<open>The structural invariant\<close>

text \<open>The kind of object a list holds.\<close>

fun kind :: "list_id \<Rightarrow> region" where
  "kind Ready_list = Pcb_buffer"
| "kind Waiting_list = Pcb_buffer"
| "kind Zombie_list = Pcb_buffer"
| "kind Timer_list = Timer_item_buffer"
| "kind Resources_list = Resources_buffer"
| "kind Bq_registry = Bq_buffer"
| "kind (Children p) = Pcb_ptr_buffer"
| "kind (Descriptors p) = Descriptor_buffer"
| "kind (Descriptors_ptrs p) = Descriptor_ptr_buffer"
| "kind (Items p) = Bqitem_buffer"
| "kind (Wait_getters p) = Pcb_ptr_buffer"
| "kind (Wait_putters p) = Pcb_ptr_buffer"

definition struct_inv :: "(ptr, list_id) list_mem \<Rightarrow> (region \<Rightarrow> region PoolAllocator) \<Rightarrow> bool" where
  "struct_inv m P \<longleftrightarrow>
     lists_ok m \<and>
     (\<forall>r. pool_ok (P r) \<and> pa_buffer (P r) = Addr r 0) \<and>
     (\<forall>h. set (contents m h) \<subseteq> live (P (kind h)))"

definition loose :: "('p, 'h) list_mem \<Rightarrow> 'p \<Rightarrow> bool" where
  "loose m p \<longleftrightarrow> unlisted m p \<and> clean m p"

text \<open>The blocks of the region \<open>r\<close> that are in use, and how many are left.\<close>

abbreviation in_use :: "kernel \<Rightarrow> region \<Rightarrow> ptr set" where
  "in_use k r \<equiv> live (pools k r)"

abbreviation room :: "kernel \<Rightarrow> region \<Rightarrow> int" where
  "room k r \<equiv> pa_size (pools k r)"

abbreviation lst :: "kernel \<Rightarrow> list_id \<Rightarrow> ptr list" where
  "lst k \<equiv> contents (lists k)"

lemma struct_lists_ok: "struct_inv m P \<Longrightarrow> lists_ok m"
  by (simp add: struct_inv_def)

lemma struct_pool_ok: "struct_inv m P \<Longrightarrow> pool_ok (P r)"
  by (simp add: struct_inv_def)

lemma struct_live: "struct_inv m P \<Longrightarrow> p \<in> set (contents m h) \<Longrightarrow> p \<in> live (P (kind h))"
  by (auto simp: struct_inv_def)

lemma struct_region: "struct_inv m P \<Longrightarrow> p \<in> live (P r) \<Longrightarrow> region_of p = r"
  using live_region by (fastforce simp: struct_inv_def)

lemma struct_listed_region: "struct_inv m P \<Longrightarrow> p \<in> set (contents m h) \<Longrightarrow> region_of p = kind h"
  by (blast dest: struct_live struct_region)

lemma struct_dead_unlisted: "struct_inv m P \<Longrightarrow> p \<notin> live (P (region_of p)) \<Longrightarrow> unlisted m p"
  unfolding unlisted_def using struct_live struct_listed_region by metis

lemma struct_distinct: "struct_inv m P \<Longrightarrow> distinct (contents m h)"
  by (simp add: struct_lists_ok)

lemma struct_disjoint:
  "struct_inv m P \<Longrightarrow> p \<in> set (contents m h) \<Longrightarrow> p \<in> set (contents m h') \<Longrightarrow> h = h'"
  by (blast dest: struct_lists_ok lists_ok_disjoint)

lemmas list_reads = list_first_def list_last_def list_size_def

lemma list_first_lst: "struct_inv (lists k) (pools k) \<Longrightarrow> list_first h k = hd_opt (lst k h)"
  by (simp add: list_first_def first_contents struct_lists_ok)

lemma list_last_lst: "struct_inv (lists k) (pools k) \<Longrightarrow> list_last h k = last_opt (lst k h)"
  by (simp add: list_last_def last_contents struct_lists_ok)

lemma list_size_lst: "struct_inv (lists k) (pools k) \<Longrightarrow> list_size h k = int (length (lst k h))"
  by (simp add: list_size_def size_contents struct_lists_ok)

lemmas list_lst = list_first_lst list_last_lst list_size_lst

lemma scan_lst:
  "struct_inv m P \<Longrightarrow> list_scan found h m = Inr (List.find found (contents m h))"
  by (simp add: list_scan_contents struct_lists_ok)

lemma find_lst:
  "struct_inv m P \<Longrightarrow> List_find h p m = Inr (if p \<in> set (contents m h) then Some p else None)"
  by (simp add: List_find_contents struct_lists_ok)

lemma loose_notin: "loose m p \<Longrightarrow> p \<notin> set (contents m h)"
  by (simp add: loose_def unlisted_def)

section \<open>Rules for the list operations\<close>

lemma insert_rule:
  assumes inv: "struct_inv (lists k) (pools k)" and p: "loose (lists k) p" "p \<in> in_use k (kind h)"
    and prv: "case prv of None \<Rightarrow> True | Some q \<Rightarrow> q \<in> set (lst k h)"
    and Q: "\<And>m. struct_inv m (pools k) \<Longrightarrow>
      contents m = (lst k)(h := insert_after prv p (lst k h)) \<Longrightarrow>
      (\<And>x. x \<noteq> p \<Longrightarrow> loose (lists k) x \<Longrightarrow> loose m x) \<Longrightarrow> Q (k\<lparr>lists := m\<rparr>)"
  shows "ok_with (k_insert h prv (Some p) k) Q"
proof -
  let ?m = "list_link h prv p (lists k)"
  have ok: "lists_ok (lists k)" and c: "clean (lists k) p" and u: "unlisted (lists k) p"
    using inv p by (auto simp: struct_inv_def loose_def)
  note L = list_link_ok [OF ok u c prv]
  have "struct_inv ?m (pools k)" using L inv p(2) by (auto simp: struct_inv_def)
  moreover have "loose ?m x" if "x \<noteq> p" "loose (lists k) x" for x
    using that L list_link_clean [OF ok prv that(1)] by (auto simp: loose_def unlisted_def)
  ultimately have "Q (k\<lparr>lists := ?m\<rparr>)" using L by (intro Q) auto
  then show ?thesis by (simp add: k_insert_def List_insert_clean [OF c])
qed

lemma append_rule:
  assumes inv: "struct_inv (lists k) (pools k)" and p: "loose (lists k) p" "p \<in> in_use k (kind h)"
    and Q: "\<And>m. struct_inv m (pools k) \<Longrightarrow>
      contents m = (lst k)(h := lst k h @ [p]) \<Longrightarrow>
      (\<And>x. x \<noteq> p \<Longrightarrow> loose (lists k) x \<Longrightarrow> loose m x) \<Longrightarrow> Q (k\<lparr>lists := m\<rparr>)"
  shows "ok_with (k_append h p k) Q"
  unfolding k_append_def list_last_lst [OF inv]
  using assms struct_distinct [OF inv, of h]
  by (intro insert_rule) (auto split: option.splits dest: last_opt_in)

lemma detach_rule:
  assumes inv: "struct_inv (lists k) (pools k)" and p: "p \<in> set (lst k h)"
    and Q: "\<And>m. struct_inv m (pools k) \<Longrightarrow>
      contents m = (lst k)(h := remove1 p (lst k h)) \<Longrightarrow> loose m p \<Longrightarrow>
      (\<And>x. loose (lists k) x \<Longrightarrow> loose m x) \<Longrightarrow> Q (p, k\<lparr>lists := m\<rparr>)"
  shows "ok_with (k_detach h (Some p) k) Q"
proof -
  let ?m = "list_unlink h p (lists k)"
  have ok: "lists_ok (lists k)" using inv by (simp add: struct_inv_def)
  note L = list_unlink_ok [OF ok p]
  have "struct_inv ?m (pools k)"
    using L inv set_remove1_subset [of p "lst k h"] by (fastforce simp: struct_inv_def)
  moreover have "loose ?m p"
    using L list_unlink_clean_self [of h p "lists k"] lists_ok_disjoint [OF ok p]
      lists_ok_distinct [OF ok, of h]
    by (auto simp: loose_def unlisted_def)
  moreover have "loose ?m x" if "loose (lists k) x" for x
    using that L list_unlink_clean [OF ok p] set_remove1_subset [of p "lst k h"]
    by (auto simp: loose_def unlisted_def)
  ultimately have "Q (p, k\<lparr>lists := ?m\<rparr>)" using L by (intro Q) auto
  then show ?thesis by (simp add: k_detach_def List_detach_Some)
qed

lemma detach_first_rule:
  assumes inv: "struct_inv (lists k) (pools k)" and p: "lst k h = p # ps"
    and Q: "\<And>m. struct_inv m (pools k) \<Longrightarrow>
      contents m = (lst k)(h := ps) \<Longrightarrow> loose m p \<Longrightarrow>
      (\<And>x. loose (lists k) x \<Longrightarrow> loose m x) \<Longrightarrow> Q (p, k\<lparr>lists := m\<rparr>)"
  shows "ok_with (k_detach h (list_first h k) k) Q"
  using p by (simp add: list_first_lst [OF inv]) (rule detach_rule [OF inv]; simp add: Q)

lemma detach_null [simp]: "k_detach h None k = Inl Null_deref"
  by (simp add: k_detach_def List_detach_null)

section \<open>Rules for the allocators\<close>

text \<open>A fresh block is unlisted, and clearing its links makes it loose without touching a list.\<close>

lemma clear_links_ok:
  assumes ok: "lists_ok m" and u: "unlisted m p"
  shows "lists_ok (set_next p None (set_prev p None m)) \<and>
    contents (set_next p None (set_prev p None m)) = contents m"
proof (rule lists_okI)
  fix h
  show "dlist (set_next p None (set_prev p None m)) h (contents m h)"
  proof (rule dlist_frame [OF lists_ok_dlist [OF ok]])
    fix x assume "x \<in> set (contents m h)"
    with u have "x \<noteq> p" by (auto simp: unlisted_def)
    then show "node (set_next p None (set_prev p None m)) x = node m x"
      by (simp add: set_defs)
  qed (simp add: set_defs)
qed (rule lists_ok_disjoint [OF ok])

text \<open>What taking or giving back one block does to the pools.\<close>

definition pools_take ::
  "(region \<Rightarrow> region PoolAllocator) \<Rightarrow> region \<Rightarrow> ptr \<Rightarrow> (region \<Rightarrow> region PoolAllocator) \<Rightarrow> bool"
where
  "pools_take P r p P' \<longleftrightarrow>
     p \<notin> live (P r) \<and> region_of p = r \<and>
     (\<forall>r'. live (P' r') = (if r' = r then insert p (live (P r')) else live (P r'))) \<and>
     (\<forall>r'. pa_size (P' r') = (if r' = r then pa_size (P r') - 1 else pa_size (P r')))"

definition pools_give ::
  "(region \<Rightarrow> region PoolAllocator) \<Rightarrow> region \<Rightarrow> ptr \<Rightarrow> (region \<Rightarrow> region PoolAllocator) \<Rightarrow> bool"
where
  "pools_give P r p P' \<longleftrightarrow>
     p \<in> live (P r) \<and>
     (\<forall>r'. live (P' r') = (if r' = r then live (P r') - {p} else live (P r'))) \<and>
     (\<forall>r'. pa_size (P' r') = (if r' = r then pa_size (P r') + 1 else pa_size (P r')))"

lemma get_clear:
  assumes inv: "struct_inv (lists k) (pools k)" and room: "0 < room k r"
  obtains p m P where "k_get r k = Inr (Some p, k\<lparr>pools := P\<rparr>)"
    "k_clear_links p (k\<lparr>pools := P\<rparr>) = k\<lparr>pools := P, lists := m\<rparr>"
    "struct_inv m P" "contents m = lst k" "loose m p"
    "\<And>x. loose (lists k) x \<Longrightarrow> loose m x" "pools_take (pools k) r p P"
proof -
  let ?p = "next_block (pools k r)" and ?P = "(pools k)(r := pool_take (pools k r))"
  have ok: "pool_ok (pools k r)" and buf: "pa_buffer (pools k r) = Addr r 0"
    and lok: "lists_ok (lists k)"
    using inv by (auto simp: struct_inv_def)
  note live = live_take [OF ok room]
  have fresh: "?p \<notin> in_use k r" by (rule next_block_fresh [OF ok room])
  have reg: "region_of ?p = r" using next_block_region [of "pools k r"] buf by simp
  have u: "unlisted (lists k) ?p"
    using struct_dead_unlisted [OF inv, of ?p] fresh reg by simp
  let ?m = "set_next ?p None (set_prev ?p None (lists k))"
  note C = clear_links_ok [OF lok u]
  show thesis
  proof (rule that [of ?p ?P ?m])
    show "struct_inv ?m ?P"
      using C inv pool_ok_take [OF ok room] live by (auto simp: struct_inv_def)
    show "loose ?m ?p"
      using C u by (simp add: loose_def unlisted_def clean_def set_defs)
    show "loose ?m x" if "loose (lists k) x" for x
      using that C by (auto simp: loose_def unlisted_def clean_def set_defs)
    show "pools_take (pools k) r ?p ?P" using fresh reg live by (simp add: pools_take_def)
  qed (use C getBlock_take [OF ok room] in \<open>simp_all add: k_get_def k_clear_links_def\<close>)
qed

lemma get_none:
  assumes "struct_inv (lists k) (pools k)" and "room k r \<le> 0"
  shows "k_get r k = Inr (None, k)"
proof -
  have "pool_ok (pools k r)" using assms(1) by (simp add: struct_inv_def)
  from getBlock_empty [OF this assms(2)] show ?thesis by (simp add: k_get_def)
qed

lemma release_rule:
  assumes inv: "struct_inv (lists k) (pools k)" and p: "p \<in> in_use k r"
    and u: "unlisted (lists k) p"
    and Q: "\<And>P. struct_inv (lists k) P \<Longrightarrow> pools_give (pools k) r p P \<Longrightarrow> Q (0, k\<lparr>pools := P\<rparr>)"
  shows "ok_with (k_release r p k) Q"
proof -
  let ?P = "(pools k)(r := pool_give (pools k r) p)"
  have ok: "pool_ok (pools k r)" using inv by (simp add: struct_inv_def)
  have "struct_inv (lists k) ?P"
    using inv u pool_ok_give [OF ok p] live_give [OF ok p]
    by (auto simp: struct_inv_def unlisted_def)
  moreover have "pools_give (pools k) r p ?P"
    using p live_give [OF ok p] by (simp add: pools_give_def)
  ultimately show ?thesis
    using Q by (simp add: k_release_def releaseBlock_give [OF ok p])
qed

lemma init_ok:
  assumes inv: "struct_inv m P"
  shows "struct_inv (List_init h m) P" and "contents (List_init h m) = (contents m)(h := [])"
    and "loose m x \<Longrightarrow> loose (List_init h m) x"
  using inv List_init_ok [of m h]
  by (auto simp: struct_inv_def loose_def unlisted_def clean_def)

section \<open>Rules for the object allocators\<close>

lemma PCBPtr_alloc_rule:
  assumes inv: "struct_inv (lists k) (pools k)" and room: "0 < room k Pcb_ptr_buffer"
    and Q: "\<And>w m P. struct_inv m P \<Longrightarrow> contents m = lst k \<Longrightarrow> loose m w \<Longrightarrow>
      (\<And>x. loose (lists k) x \<Longrightarrow> loose m x) \<Longrightarrow> pools_take (pools k) Pcb_ptr_buffer w P \<Longrightarrow>
      Q (w, k\<lparr>pools := P, lists := m, pcb_ptrs := (pcb_ptrs k)(w := pcb)\<rparr>)"
  shows "ok_with (PCBPtr_alloc pcb k) Q"
  by (rule get_clear [OF inv room]) (simp add: PCBPtr_alloc_def Let_def Q)

lemma PCBPtr_alloc_full:
  assumes "struct_inv (lists k) (pools k)" and "room k Pcb_ptr_buffer \<le> 0"
  shows "PCBPtr_alloc pcb k = Inl Null_deref"
  by (simp add: PCBPtr_alloc_def get_none [OF assms])

lemma PCB_setup_eq:
  "k_clear_links p k = k\<lparr>lists := m\<rparr> \<Longrightarrow>
   PCB_setup p n k = k\<lparr>lists := List_init (Children p) (List_init (Descriptors p) m), last_pid := n,
      pcbs := (pcbs k)(p := (pcbs k p)\<lparr>pid := last_pid k, return_value := 0, status := Invalid,
        signals := 0, signals_mask := -1, parent := None, timer := None\<rparr>)\<rparr>"
  by (simp add: PCB_setup_def Let_def upd_pcb_def k_init_def to_int_def)

lemma PCB_alloc_rule:
  assumes inv: "struct_inv (lists k) (pools k)" and room: "0 < room k Pcb_buffer"
    and pid: "0 \<le> last_pid k" "last_pid k < 2 ^ 31 - 1"
    and Q: "\<And>p m P. struct_inv m P \<Longrightarrow>
      contents m = (lst k)(Descriptors p := [], Children p := []) \<Longrightarrow> loose m p \<Longrightarrow>
      (\<And>x. loose (lists k) x \<Longrightarrow> loose m x) \<Longrightarrow> pools_take (pools k) Pcb_buffer p P \<Longrightarrow>
      Q (p, k\<lparr>pools := P, lists := m, last_pid := last_pid k + 1,
        pcbs := (pcbs k)(p := (pcbs k p)\<lparr>pid := last_pid k, return_value := 0, status := Invalid,
          signals := 0, signals_mask := -1, parent := None, timer := None\<rparr>)\<rparr>)"
  shows "ok_with (PCB_alloc k) Q"
proof (rule get_clear [OF inv room])
  fix p m P
  assume get: "k_get Pcb_buffer k = Inr (Some p, k\<lparr>pools := P\<rparr>)"
    and clear: "k_clear_links p (k\<lparr>pools := P\<rparr>) = k\<lparr>pools := P, lists := m\<rparr>"
    and m: "struct_inv m P" "contents m = lst k" "loose m p"
      "\<And>x. loose (lists k) x \<Longrightarrow> loose m x" "pools_take (pools k) Pcb_buffer p P"
  have next_pid: "add_int (last_pid k) 1 = Inr (last_pid k + 1)"
    using pid by (intro add_int_ok) auto
  note i1 = init_ok [where h = "Descriptors p", OF m(1)]
  note i2 = init_ok [where h = "Children p", OF i1(1)]
  show "ok_with (PCB_alloc k) Q"
    using Q [OF i2(1), of p] i2(2,3) i1(2,3) m(2-5) next_pid get
    by (simp add: PCB_alloc_def PCB_setup_eq [of p "k\<lparr>pools := P\<rparr>" m] clear)
qed

lemma PCB_alloc_full:
  assumes "struct_inv (lists k) (pools k)" and "room k Pcb_buffer \<le> 0"
  shows "PCB_alloc k = Inl Null_deref"
  by (simp add: PCB_alloc_def get_none [OF assms])

lemma TimerItem_alloc_rule:
  assumes inv: "struct_inv (lists k) (pools k)"
    and full: "room k Timer_item_buffer \<le> 0 \<Longrightarrow> Q (None, k)"
    and Q: "\<And>t m P. struct_inv m P \<Longrightarrow> contents m = lst k \<Longrightarrow> loose m t \<Longrightarrow>
      (\<And>x. loose (lists k) x \<Longrightarrow> loose m x) \<Longrightarrow> pools_take (pools k) Timer_item_buffer t P \<Longrightarrow>
      Q (Some t, k\<lparr>pools := P, lists := m,
        timer_items := (timer_items k)(t := \<lparr>awakening_time = time, timer_pcb = pcb\<rparr>)\<rparr>)"
  shows "ok_with (TimerItem_alloc time pcb k) Q"
proof (cases "0 < room k Timer_item_buffer")
  case True
  show ?thesis
    by (rule get_clear [OF inv True]) (simp add: TimerItem_alloc_def Let_def Q)
next
  case False
  then show ?thesis using full by (simp add: TimerItem_alloc_def get_none [OF inv])
qed

lemma Resource_alloc_rule:
  assumes inv: "struct_inv (lists k) (pools k)" and room: "0 < room k Resources_buffer"
    and Q: "\<And>r m P. struct_inv m P \<Longrightarrow> contents m = (lst k)(Descriptors_ptrs r := []) \<Longrightarrow>
      loose m r \<Longrightarrow> (\<And>x. loose (lists k) x \<Longrightarrow> loose m x) \<Longrightarrow>
      pools_take (pools k) Resources_buffer r P \<Longrightarrow>
      Q (Some r, k\<lparr>pools := P,
        resources := (resources k)(r := \<lparr>res_id = rid, res_type = type\<rparr>), lists := m\<rparr>)"
  shows "ok_with (Resource_alloc rid type k) Q"
proof (rule get_clear [OF inv room])
  fix r m P
  assume get: "k_get Resources_buffer k = Inr (Some r, k\<lparr>pools := P\<rparr>)"
    and clear: "k_clear_links r (k\<lparr>pools := P\<rparr>) = k\<lparr>pools := P, lists := m\<rparr>"
    and m: "struct_inv m P" "contents m = lst k" "loose m r"
      "\<And>x. loose (lists k) x \<Longrightarrow> loose m x" "pools_take (pools k) Resources_buffer r P"
  note i = init_ok [where h = "Descriptors_ptrs r", OF m(1)]
  show "ok_with (Resource_alloc rid type k) Q"
    using Q [OF i(1), of r] i(2,3) m(2-5) get
    by (simp add: Resource_alloc_def Let_def clear k_init_def)
qed

lemma Resource_alloc_full:
  assumes "struct_inv (lists k) (pools k)" and "room k Resources_buffer \<le> 0"
  shows "Resource_alloc rid type k = Inr (None, k)"
  by (simp add: Resource_alloc_def get_none [OF assms])

lemma Descriptor_alloc_rule:
  assumes inv: "struct_inv (lists k) (pools k)"
    and full: "room k Descriptor_buffer \<le> 0 \<Longrightarrow> Q (None, k)"
    and Q: "\<And>d m P. struct_inv m P \<Longrightarrow> contents m = lst k \<Longrightarrow> loose m d \<Longrightarrow>
      (\<And>x. loose (lists k) x \<Longrightarrow> loose m x) \<Longrightarrow> pools_take (pools k) Descriptor_buffer d P \<Longrightarrow>
      Q (Some d, k\<lparr>pools := P, lists := m, descriptors := (descriptors k)(d := (descriptors k d)
        \<lparr>des_fd := fd, des_resource := res, des_pcb := pcb\<rparr>)\<rparr>)"
  shows "ok_with (Descriptor_alloc fd res pcb k) Q"
proof (cases "0 < room k Descriptor_buffer")
  case True
  show ?thesis
    by (rule get_clear [OF inv True]) (simp add: Descriptor_alloc_def Let_def Q)
next
  case False
  then show ?thesis using full by (simp add: Descriptor_alloc_def get_none [OF inv])
qed

lemma DescriptorPtr_alloc_rule:
  assumes inv: "struct_inv (lists k) (pools k)" and room: "0 < room k Descriptor_ptr_buffer"
    and Q: "\<And>d m P. struct_inv m P \<Longrightarrow> contents m = lst k \<Longrightarrow> loose m d \<Longrightarrow>
      (\<And>x. loose (lists k) x \<Longrightarrow> loose m x) \<Longrightarrow> pools_take (pools k) Descriptor_ptr_buffer d P \<Longrightarrow>
      Q (Some d, k\<lparr>pools := P, lists := m,
        descriptor_ptrs := (descriptor_ptrs k)(d := descriptor)\<rparr>)"
  shows "ok_with (DescriptorPtr_alloc descriptor k) Q"
  by (rule get_clear [OF inv room]) (simp add: DescriptorPtr_alloc_def Let_def Q)

lemma BQItem_alloc_rule:
  assumes inv: "struct_inv (lists k) (pools k)"
    and full: "room k Bqitem_buffer \<le> 0 \<Longrightarrow> Q (None, k)"
    and Q: "\<And>it m P. struct_inv m P \<Longrightarrow> contents m = lst k \<Longrightarrow> loose m it \<Longrightarrow>
      (\<And>x. loose (lists k) x \<Longrightarrow> loose m x) \<Longrightarrow> pools_take (pools k) Bqitem_buffer it P \<Longrightarrow>
      Q (Some it, k\<lparr>pools := P, lists := m, bq_items := (bq_items k)(it := 0)\<rparr>)"
  shows "ok_with (BQItem_alloc k) Q"
proof (cases "0 < room k Bqitem_buffer")
  case True
  show ?thesis
    by (rule get_clear [OF inv True]) (simp add: BQItem_alloc_def Let_def Q)
next
  case False
  then show ?thesis using full by (simp add: BQItem_alloc_def get_none [OF inv])
qed

lemma BQ_alloc_rule:
  assumes inv: "struct_inv (lists k) (pools k)"
    and full: "room k Bq_buffer \<le> 0 \<Longrightarrow> Q (None, k)"
    and Q: "\<And>q m P. struct_inv m P \<Longrightarrow>
      contents m = (lst k)(Items q := [], Wait_getters q := [], Wait_putters q := []) \<Longrightarrow>
      loose m q \<Longrightarrow> (\<And>x. loose (lists k) x \<Longrightarrow> loose m x) \<Longrightarrow> pools_take (pools k) Bq_buffer q P \<Longrightarrow>
      Q (Some q, k\<lparr>pools := P, bqueues := (bqueues k)
        (q := \<lparr>bq_id = qid, bq_capacity = cap, bq_size = 0\<rparr>), lists := m\<rparr>)"
  shows "ok_with (BQ_alloc qid cap k) Q"
proof (cases "0 < room k Bq_buffer")
  case True
  show ?thesis
  proof (rule get_clear [OF inv True])
    fix q m P
    assume get: "k_get Bq_buffer k = Inr (Some q, k\<lparr>pools := P\<rparr>)"
      and clear: "k_clear_links q (k\<lparr>pools := P\<rparr>) = k\<lparr>pools := P, lists := m\<rparr>"
      and m: "struct_inv m P" "contents m = lst k" "loose m q"
        "\<And>x. loose (lists k) x \<Longrightarrow> loose m x" "pools_take (pools k) Bq_buffer q P"
    note i1 = init_ok [where h = "Items q", OF m(1)]
    note i2 = init_ok [where h = "Wait_getters q", OF i1(1)]
    note i3 = init_ok [where h = "Wait_putters q", OF i2(1)]
    show "ok_with (BQ_alloc qid cap k) Q"
      using Q [OF i3(1), of q] i3(2,3) i2(2,3) i1(2,3) m(2-5) get
      by (simp add: BQ_alloc_def Let_def clear k_init_def upd_bqueue_def)
  qed
next
  case False
  then show ?thesis using full by (simp add: BQ_alloc_def get_none [OF inv])
qed

end
