(* ===== verification/Kernel_Inv.thy ===== *)
theory Kernel_Inv
  imports Kernel_Ops
begin

text \<open>
  The invariant of the kernel, \<open>kernel_ok\<close>, as a conjunction of one predicate per component: the
  scheduler's lists, the family tree of the processes, the pids, the blocked processes with what
  will wake them, the timers, the resources and descriptors, the blocking queues, and the blocks in
  use.  Each predicate reads the abstract lists \<open>lst k\<close>, so a proof that a handler keeps it works on
  HOL lists and sets.
\<close>

section \<open>Reading an updated state\<close>

text \<open>
  An update of one object stays folded in the proofs, and these rules read the other members
  through it; the conditional ones see that an update keeps a member.
\<close>

lemma upd_pcb_frame [simp]:
  "lists (upd_pcb p f k) = lists k"
  "pools (upd_pcb p f k) = pools k"
  "pcb_ptrs (upd_pcb p f k) = pcb_ptrs k"
  "timer_items (upd_pcb p f k) = timer_items k"
  "resources (upd_pcb p f k) = resources k"
  "descriptors (upd_pcb p f k) = descriptors k"
  "descriptor_ptrs (upd_pcb p f k) = descriptor_ptrs k"
  "bqueues (upd_pcb p f k) = bqueues k"
  "bq_items (upd_pcb p f k) = bq_items k"
  "init_pcb (upd_pcb p f k) = init_pcb k"
  "running (upd_pcb p f k) = running k"
  "last_pid (upd_pcb p f k) = last_pid k"
  "shutdown_now (upd_pcb p f k) = shutdown_now k"
  "disastrOS_time (upd_pcb p f k) = disastrOS_time k"
  "log_file (upd_pcb p f k) = log_file k"
  "stdout (upd_pcb p f k) = stdout k"
  "user_mem (upd_pcb p f k) = user_mem k"
  by (simp_all add: upd_pcb_def)

lemma upd_bqueue_frame [simp]:
  "lists (upd_bqueue q g k) = lists k"
  "pools (upd_bqueue q g k) = pools k"
  "pcb_ptrs (upd_bqueue q g k) = pcb_ptrs k"
  "timer_items (upd_bqueue q g k) = timer_items k"
  "resources (upd_bqueue q g k) = resources k"
  "descriptors (upd_bqueue q g k) = descriptors k"
  "descriptor_ptrs (upd_bqueue q g k) = descriptor_ptrs k"
  "bq_items (upd_bqueue q g k) = bq_items k"
  "init_pcb (upd_bqueue q g k) = init_pcb k"
  "running (upd_bqueue q g k) = running k"
  "last_pid (upd_bqueue q g k) = last_pid k"
  "shutdown_now (upd_bqueue q g k) = shutdown_now k"
  "disastrOS_time (upd_bqueue q g k) = disastrOS_time k"
  "log_file (upd_bqueue q g k) = log_file k"
  "stdout (upd_bqueue q g k) = stdout k"
  "user_mem (upd_bqueue q g k) = user_mem k"
  "pcbs (upd_bqueue q g k) = pcbs k"
  by (simp_all add: upd_bqueue_def)

lemma upd_pcb_keeps [simp]:
  "(\<And>b. pid (f b) = pid b) \<Longrightarrow> pid (pcbs (upd_pcb p f k) x) = pid (pcbs k x)"
  "(\<And>b. return_value (f b) = return_value b) \<Longrightarrow> return_value (pcbs (upd_pcb p f k) x) = return_value (pcbs k x)"
  "(\<And>b. status (f b) = status b) \<Longrightarrow> status (pcbs (upd_pcb p f k) x) = status (pcbs k x)"
  "(\<And>b. parent (f b) = parent b) \<Longrightarrow> parent (pcbs (upd_pcb p f k) x) = parent (pcbs k x)"
  "(\<And>b. timer (f b) = timer b) \<Longrightarrow> timer (pcbs (upd_pcb p f k) x) = timer (pcbs k x)"
  "(\<And>b. last_fd (f b) = last_fd b) \<Longrightarrow> last_fd (pcbs (upd_pcb p f k) x) = last_fd (pcbs k x)"
  "(\<And>b. syscall_num (f b) = syscall_num b) \<Longrightarrow> syscall_num (pcbs (upd_pcb p f k) x) = syscall_num (pcbs k x)"
  "(\<And>b. syscall_args (f b) = syscall_args b) \<Longrightarrow> syscall_args (pcbs (upd_pcb p f k) x) = syscall_args (pcbs k x)"
  "(\<And>b. syscall_retvalue (f b) = syscall_retvalue b) \<Longrightarrow> syscall_retvalue (pcbs (upd_pcb p f k) x) = syscall_retvalue (pcbs k x)"
  "(\<And>b. cpu_state (f b) = cpu_state b) \<Longrightarrow> cpu_state (pcbs (upd_pcb p f k) x) = cpu_state (pcbs k x)"
  by (simp_all add: upd_pcb_def)

lemma upd_pcb_commute [simp]:
  "(upd_pcb p f k)\<lparr>lists := m\<rparr> = upd_pcb p f (k\<lparr>lists := m\<rparr>)"
  "(upd_pcb p f k)\<lparr>pools := P\<rparr> = upd_pcb p f (k\<lparr>pools := P\<rparr>)"
  "(upd_pcb p f k)\<lparr>pcb_ptrs := l\<rparr> = upd_pcb p f (k\<lparr>pcb_ptrs := l\<rparr>)"
  by (simp_all add: upd_pcb_def)

lemma upd_pcb_twice [simp]: "upd_pcb p f (upd_pcb p g k) = upd_pcb p (\<lambda>b. f (g b)) k"
  by (simp add: upd_pcb_def)

lemma upd_pcb_at: "pcbs (upd_pcb p f k) x = (if x = p then f (pcbs k p) else pcbs k x)"
  by (simp add: upd_pcb_def)

lemma upd_pcb_same [simp]: "pcbs (upd_pcb p f k) p = f (pcbs k p)"
  by (simp add: upd_pcb_def)

lemma upd_pcb_other [simp]: "x \<noteq> p \<Longrightarrow> pcbs (upd_pcb p f k) x = pcbs k x"
  by (simp add: upd_pcb_def)

lemma upd_bqueue_keeps [simp]:
  "(\<And>b. bq_id (g b) = bq_id b) \<Longrightarrow> bq_id (bqueues (upd_bqueue q g k) x) = bq_id (bqueues k x)"
  "(\<And>b. bq_capacity (g b) = bq_capacity b) \<Longrightarrow> bq_capacity (bqueues (upd_bqueue q g k) x) = bq_capacity (bqueues k x)"
  "(\<And>b. bq_size (g b) = bq_size b) \<Longrightarrow> bq_size (bqueues (upd_bqueue q g k) x) = bq_size (bqueues k x)"
  by (simp_all add: upd_bqueue_def)

lemma bq_size_at:
  "bq_size (bqueues (upd_bqueue q g k) x) =
     (if x = q then bq_size (g (bqueues k q)) else bq_size (bqueues k x))"
  by (simp add: upd_bqueue_def)

lemma upd_bqueue_commute [simp]:
  "(upd_bqueue q g k)\<lparr>lists := m\<rparr> = upd_bqueue q g (k\<lparr>lists := m\<rparr>)"
  "(upd_bqueue q g k)\<lparr>pools := P\<rparr> = upd_bqueue q g (k\<lparr>pools := P\<rparr>)"
  "(upd_bqueue q g k)\<lparr>bq_items := i\<rparr> = upd_bqueue q g (k\<lparr>bq_items := i\<rparr>)"
  by (simp_all add: upd_bqueue_def)

lemma upd_bqueue_twice [simp]: "upd_bqueue q f (upd_bqueue q g k) = upd_bqueue q (\<lambda>b. f (g b)) k"
  by (simp add: upd_bqueue_def)

lemma print_out_frame [simp]:
  "lists (print_out s k) = lists k"
  "pools (print_out s k) = pools k"
  "pcb_ptrs (print_out s k) = pcb_ptrs k"
  "timer_items (print_out s k) = timer_items k"
  "resources (print_out s k) = resources k"
  "descriptors (print_out s k) = descriptors k"
  "descriptor_ptrs (print_out s k) = descriptor_ptrs k"
  "bq_items (print_out s k) = bq_items k"
  "init_pcb (print_out s k) = init_pcb k"
  "running (print_out s k) = running k"
  "last_pid (print_out s k) = last_pid k"
  "shutdown_now (print_out s k) = shutdown_now k"
  "disastrOS_time (print_out s k) = disastrOS_time k"
  "log_file (print_out s k) = log_file k"
  "user_mem (print_out s k) = user_mem k"
  "pcbs (print_out s k) = pcbs k"
  "bqueues (print_out s k) = bqueues k"
  by (simp_all add: print_out_def)

lemma log_out_frame [simp]:
  "lists (log_out s k) = lists k"
  "pools (log_out s k) = pools k"
  "pcb_ptrs (log_out s k) = pcb_ptrs k"
  "timer_items (log_out s k) = timer_items k"
  "resources (log_out s k) = resources k"
  "descriptors (log_out s k) = descriptors k"
  "descriptor_ptrs (log_out s k) = descriptor_ptrs k"
  "bq_items (log_out s k) = bq_items k"
  "init_pcb (log_out s k) = init_pcb k"
  "running (log_out s k) = running k"
  "last_pid (log_out s k) = last_pid k"
  "shutdown_now (log_out s k) = shutdown_now k"
  "disastrOS_time (log_out s k) = disastrOS_time k"
  "stdout (log_out s k) = stdout k"
  "user_mem (log_out s k) = user_mem k"
  "pcbs (log_out s k) = pcbs k"
  "bqueues (log_out s k) = bqueues k"
  by (simp_all add: log_out_def)

lemma store_result_mem:
  "user_mem (store_result a v k) = (if a = 0 then user_mem k else (user_mem k)(a := v))"
  by (simp add: store_result_def)

lemma store_result_frame [simp]:
  "lists (store_result a v k) = lists k"
  "pools (store_result a v k) = pools k"
  "pcb_ptrs (store_result a v k) = pcb_ptrs k"
  "timer_items (store_result a v k) = timer_items k"
  "resources (store_result a v k) = resources k"
  "descriptors (store_result a v k) = descriptors k"
  "descriptor_ptrs (store_result a v k) = descriptor_ptrs k"
  "bq_items (store_result a v k) = bq_items k"
  "init_pcb (store_result a v k) = init_pcb k"
  "running (store_result a v k) = running k"
  "last_pid (store_result a v k) = last_pid k"
  "shutdown_now (store_result a v k) = shutdown_now k"
  "disastrOS_time (store_result a v k) = disastrOS_time k"
  "log_file (store_result a v k) = log_file k"
  "stdout (store_result a v k) = stdout k"
  "pcbs (store_result a v k) = pcbs k"
  "bqueues (store_result a v k) = bqueues k"
  by (simp_all add: store_result_def)

lemma store_result_commute [simp]:
  "(store_result a v k)\<lparr>lists := m\<rparr> = store_result a v (k\<lparr>lists := m\<rparr>)"
  "(store_result a v k)\<lparr>pools := P\<rparr> = store_result a v (k\<lparr>pools := P\<rparr>)"
  "(store_result a v k)\<lparr>bq_items := f\<rparr> = store_result a v (k\<lparr>bq_items := f\<rparr>)"
  by (simp_all add: store_result_def)

section \<open>The parts of the invariant\<close>

text \<open>
  Every process is in exactly one place: running, ready, waiting or zombie.  The status agrees with
  the list; a process that \<open>wait\<close> or \<open>sleep\<close> dispatched runs with the status \<open>Ready\<close>.
\<close>

definition sched_ok :: "kernel \<Rightarrow> bool" where
  "sched_ok k \<longleftrightarrow>
     (\<forall>p. p \<in> in_use k Pcb_buffer \<longleftrightarrow>
        running k = Some p \<or> p \<in> set (lst k Ready_list) \<or> p \<in> set (lst k Waiting_list) \<or>
        p \<in> set (lst k Zombie_list)) \<and>
     (\<forall>r. running k = Some r \<longrightarrow>
        loose (lists k) r \<and> (status (pcbs k r) = Running \<or> status (pcbs k r) = Ready)) \<and>
     (\<forall>p \<in> set (lst k Ready_list). status (pcbs k p) = Ready) \<and>
     (\<forall>p \<in> set (lst k Waiting_list). status (pcbs k p) = Waiting) \<and>
     (\<forall>p \<in> set (lst k Zombie_list). status (pcbs k p) = Zombie)"

text \<open>
  A process has a link in its parent's list of children, the only one for it, and the link's owner is
  its parent, which is another process.  A zombie that can be reaped has no children left.
  \<open>init_pcb\<close> has no parent.
\<close>

definition family_ok :: "kernel \<Rightarrow> bool" where
  "family_ok k \<longleftrightarrow>
     (init_pcb k = None \<longrightarrow> in_use k Pcb_buffer = {}) \<and>
     (\<forall>i. init_pcb k = Some i \<longrightarrow> i \<in> in_use k Pcb_buffer \<and> parent (pcbs k i) = None) \<and>
     (\<forall>q. \<forall>w \<in> set (lst k (Children q)).
        q \<in> in_use k Pcb_buffer \<and> pcb_ptrs k w \<in> in_use k Pcb_buffer \<and>
        parent (pcbs k (pcb_ptrs k w)) = Some q) \<and>
     (\<forall>p \<in> in_use k Pcb_buffer. \<forall>q. parent (pcbs k p) = Some q \<longrightarrow>
        (\<exists>w \<in> set (lst k (Children q)). pcb_ptrs k w = p)) \<and>
     (\<forall>q. inj_on (pcb_ptrs k) (set (lst k (Children q)))) \<and>
     (\<forall>p \<in> in_use k Pcb_buffer. parent (pcbs k p) \<noteq> Some p) \<and>
     (\<forall>z \<in> set (lst k Zombie_list). parent (pcbs k z) \<noteq> None \<longrightarrow> lst k (Children z) = [])"

definition pids_ok :: "kernel \<Rightarrow> bool" where
  "pids_ok k \<longleftrightarrow>
     0 \<le> last_pid k \<and>
     (\<forall>p \<in> in_use k Pcb_buffer. 0 \<le> pid (pcbs k p) \<and> pid (pcbs k p) < last_pid k) \<and>
     inj_on (\<lambda>p. pid (pcbs k p)) (in_use k Pcb_buffer)"

text \<open>The processes that wait in a given system call.\<close>

definition blocked :: "int \<Rightarrow> kernel \<Rightarrow> ptr set" where
  "blocked n k = {p \<in> set (lst k Waiting_list). syscall_num (pcbs k p) = n}"

text \<open>
  A timer belongs to a process that waits in \<open>sleep\<close>, a link in a queue's list of getters or putters
  to one that waits in \<open>bq_get\<close> or \<open>bq_put\<close>, and each process has at most one; conversely every
  waiting process has the one that its call says, or waits for a child.
\<close>

definition timers_ok :: "kernel \<Rightarrow> bool" where
  "timers_ok k \<longleftrightarrow>
     sorted (map (\<lambda>t. awakening_time (timer_items k t)) (lst k Timer_list)) \<and>
     inj_on (\<lambda>t. timer_pcb (timer_items k t)) (set (lst k Timer_list)) \<and>
     (\<forall>t \<in> set (lst k Timer_list). timer_pcb (timer_items k t) \<in> blocked DSOS_CALL_SLEEP k) \<and>
     (\<forall>p \<in> blocked DSOS_CALL_SLEEP k. \<exists>t \<in> set (lst k Timer_list). timer_pcb (timer_items k t) = p) \<and>
     (\<forall>p \<in> in_use k Pcb_buffer. timer (pcbs k p) = None)"

definition waiters_ok :: "(ptr \<Rightarrow> list_id) \<Rightarrow> int \<Rightarrow> kernel \<Rightarrow> bool" where
  "waiters_ok H call k \<longleftrightarrow>
     (\<forall>q. \<forall>w \<in> set (lst k (H q)). pcb_ptrs k w \<in> blocked call k) \<and>
     (\<forall>q q'. \<forall>w \<in> set (lst k (H q)). \<forall>w' \<in> set (lst k (H q')).
        pcb_ptrs k w = pcb_ptrs k w' \<longrightarrow> w = w') \<and>
     (\<forall>p \<in> blocked call k. \<exists>q. \<exists>w \<in> set (lst k (H q)). pcb_ptrs k w = p)"

definition calls_ok :: "kernel \<Rightarrow> bool" where
  "calls_ok k \<longleftrightarrow>
     (\<forall>p \<in> set (lst k Waiting_list). syscall_num (pcbs k p) \<in>
        {DSOS_CALL_SLEEP, DSOS_CALL_WAIT, DSOS_CALL_BQ_GET, DSOS_CALL_BQ_PUT})"

text \<open>
  A registered queue holds as many items as its size says and at most its capacity; processes
  wait for items only when there are none, and for room only when it is full.
\<close>

definition queues_ok :: "kernel \<Rightarrow> bool" where
  "queues_ok k \<longleftrightarrow>
     inj_on (\<lambda>q. bq_id (bqueues k q)) (set (lst k Bq_registry)) \<and>
     (\<forall>q. q \<notin> set (lst k Bq_registry) \<longrightarrow>
        lst k (Items q) = [] \<and> lst k (Wait_getters q) = [] \<and> lst k (Wait_putters q) = []) \<and>
     (\<forall>q \<in> set (lst k Bq_registry).
        0 < bq_capacity (bqueues k q) \<and>
        bq_size (bqueues k q) = int (length (lst k (Items q))) \<and>
        int (length (lst k (Items q))) \<le> bq_capacity (bqueues k q) \<and>
        (lst k (Wait_getters q) \<noteq> [] \<longrightarrow> lst k (Items q) = [] \<and> lst k (Wait_putters q) = []) \<and>
        (lst k (Wait_putters q) \<noteq> [] \<longrightarrow>
          int (length (lst k (Items q))) = bq_capacity (bqueues k q)))"

text \<open>
  A descriptor in a process's list points to the \<open>DescriptorPtr\<close> that points back to it from the list
  of its resource; the file descriptors of a process are distinct and below \<open>last_fd\<close>.
\<close>

definition descriptors_ok :: "kernel \<Rightarrow> bool" where
  "descriptors_ok k \<longleftrightarrow>
     inj_on (\<lambda>r. res_id (resources k r)) (set (lst k Resources_list)) \<and>
     (\<forall>r. r \<notin> set (lst k Resources_list) \<longrightarrow> lst k (Descriptors_ptrs r) = []) \<and>
     (\<forall>p. \<forall>d \<in> set (lst k (Descriptors p)).
        des_fd (descriptors k d) < last_fd (pcbs k p) \<and>
        (\<exists>w. des_ptr (descriptors k d) = Some w \<and> descriptor_ptrs k w = d \<and>
             w \<in> set (lst k (Descriptors_ptrs (des_resource (descriptors k d)))))) \<and>
     (\<forall>p. inj_on (\<lambda>d. des_fd (descriptors k d)) (set (lst k (Descriptors p)))) \<and>
     (\<forall>r. \<forall>w \<in> set (lst k (Descriptors_ptrs r)).
        descriptor_ptrs k w \<in> in_use k Descriptor_buffer \<and>
        des_ptr (descriptors k (descriptor_ptrs k w)) = Some w) \<and>
     room k Descriptor_ptr_buffer = room k Descriptor_buffer"

text \<open>
  Every block in use of these regions is in a list: none is lost.  Descriptors are missing because
  \<open>exit\<close> does not close them.
\<close>

definition leak_free :: "kernel \<Rightarrow> bool" where
  "leak_free k \<longleftrightarrow>
     (\<forall>x \<in> in_use k Pcb_ptr_buffer. \<exists>q. x \<in> set (lst k (Children q)) \<or>
        x \<in> set (lst k (Wait_getters q)) \<or> x \<in> set (lst k (Wait_putters q))) \<and>
     in_use k Timer_item_buffer \<subseteq> set (lst k Timer_list) \<and>
     in_use k Resources_buffer \<subseteq> set (lst k Resources_list) \<and>
     in_use k Bq_buffer \<subseteq> set (lst k Bq_registry) \<and>
     (\<forall>x \<in> in_use k Bqitem_buffer. \<exists>q. x \<in> set (lst k (Items q)))"

lemma leak_free_listed:
  "leak_free k \<Longrightarrow> r \<in> {Pcb_ptr_buffer, Timer_item_buffer, Resources_buffer, Bq_buffer, Bqitem_buffer} \<Longrightarrow>
   x \<in> in_use k r \<Longrightarrow> \<exists>h. kind h = r \<and> x \<in> set (lst k h)"
  by (fastforce simp: leak_free_def intro: kind.simps)

definition kernel_ok :: "kernel \<Rightarrow> bool" where
  "kernel_ok k \<longleftrightarrow>
     struct_inv (lists k) (pools k) \<and> sched_ok k \<and> family_ok k \<and> pids_ok k \<and> timers_ok k \<and>
     waiters_ok Wait_getters DSOS_CALL_BQ_GET k \<and> waiters_ok Wait_putters DSOS_CALL_BQ_PUT k \<and>
     calls_ok k \<and> queues_ok k \<and> descriptors_ok k \<and> leak_free k"

lemmas kernel_ok_parts =
  sched_ok_def family_ok_def pids_ok_def timers_ok_def waiters_ok_def calls_ok_def queues_ok_def
  descriptors_ok_def leak_free_def

lemma kernel_okD:
  assumes "kernel_ok k"
  shows "struct_inv (lists k) (pools k)" "sched_ok k" "family_ok k" "pids_ok k" "timers_ok k"
    "waiters_ok Wait_getters DSOS_CALL_BQ_GET k" "waiters_ok Wait_putters DSOS_CALL_BQ_PUT k"
    "calls_ok k" "queues_ok k" "descriptors_ok k" "leak_free k"
  using assms by (simp_all add: kernel_ok_def)

lemma kernel_okI:
  "struct_inv (lists k) (pools k) \<Longrightarrow> sched_ok k \<Longrightarrow> family_ok k \<Longrightarrow> pids_ok k \<Longrightarrow> timers_ok k \<Longrightarrow>
   waiters_ok Wait_getters DSOS_CALL_BQ_GET k \<Longrightarrow> waiters_ok Wait_putters DSOS_CALL_BQ_PUT k \<Longrightarrow>
   calls_ok k \<Longrightarrow> queues_ok k \<Longrightarrow> descriptors_ok k \<Longrightarrow> leak_free k \<Longrightarrow> kernel_ok k"
  by (simp add: kernel_ok_def)

section \<open>Frame rules\<close>

text \<open>
  One rule per part: it still holds in \<open>k'\<close> when the members and lists that it reads are those of
  \<open>k\<close>.  A handler's proof then only treats the parts that the handler touches.
\<close>

lemma family_frame:
  assumes "family_ok k" and "init_pcb k' = init_pcb k"
    and "in_use k' Pcb_buffer = in_use k Pcb_buffer"
    and "\<And>q. lst k' (Children q) = lst k (Children q)"
    and "set (lst k' Zombie_list) = set (lst k Zombie_list)"
    and "\<And>q w. w \<in> set (lst k (Children q)) \<Longrightarrow> pcb_ptrs k' w = pcb_ptrs k w"
    and "\<And>p. parent (pcbs k' p) = parent (pcbs k p)"
  shows "family_ok k'"
  using assms by (simp add: family_ok_def inj_on_def)

lemma pids_frame:
  assumes "pids_ok k" and "last_pid k' = last_pid k"
    and "in_use k' Pcb_buffer = in_use k Pcb_buffer"
    and "\<And>p. pid (pcbs k' p) = pid (pcbs k p)"
  shows "pids_ok k'"
  using assms by (simp add: pids_ok_def)

lemma blocked_frame:
  assumes "set (lst k' Waiting_list) = set (lst k Waiting_list)"
    and "\<And>p. p \<in> set (lst k Waiting_list) \<Longrightarrow> syscall_num (pcbs k' p) = syscall_num (pcbs k p)"
  shows "blocked n k' = blocked n k"
  using assms by (auto simp: blocked_def)

lemma timers_frame:
  assumes "timers_ok k" and "lst k' Timer_list = lst k Timer_list"
    and "blocked DSOS_CALL_SLEEP k' = blocked DSOS_CALL_SLEEP k"
    and "timer_items k' = timer_items k"
    and "\<And>p. p \<in> in_use k' Pcb_buffer \<Longrightarrow> timer (pcbs k' p) = None"
  shows "timers_ok k'"
  using assms by (simp add: timers_ok_def)

lemma waiters_frame:
  assumes "waiters_ok H n k" and "\<And>q. lst k' (H q) = lst k (H q)"
    and "blocked n k' = blocked n k"
    and "\<And>q w. w \<in> set (lst k (H q)) \<Longrightarrow> pcb_ptrs k' w = pcb_ptrs k w"
  shows "waiters_ok H n k'"
  using assms by (simp add: waiters_ok_def)

lemma calls_frame:
  assumes "calls_ok k" and "set (lst k' Waiting_list) = set (lst k Waiting_list)"
    and "\<And>p. p \<in> set (lst k Waiting_list) \<Longrightarrow> syscall_num (pcbs k' p) = syscall_num (pcbs k p)"
  shows "calls_ok k'"
  using assms by (simp add: calls_ok_def)

lemma queues_frame:
  assumes "queues_ok k" and "lst k' Bq_registry = lst k Bq_registry"
    and "\<And>q. lst k' (Items q) = lst k (Items q)"
    and "\<And>q. lst k' (Wait_getters q) = lst k (Wait_getters q)"
    and "\<And>q. lst k' (Wait_putters q) = lst k (Wait_putters q)"
    and "bqueues k' = bqueues k"
  shows "queues_ok k'"
  using assms by (simp add: queues_ok_def)

lemma descriptors_frame:
  assumes "descriptors_ok k" and "lst k' Resources_list = lst k Resources_list"
    and "\<And>r. lst k' (Descriptors_ptrs r) = lst k (Descriptors_ptrs r)"
    and "\<And>p. lst k' (Descriptors p) = lst k (Descriptors p)"
    and "resources k' = resources k" and "descriptors k' = descriptors k"
    and "descriptor_ptrs k' = descriptor_ptrs k"
    and "in_use k' Descriptor_buffer = in_use k Descriptor_buffer"
    and "room k' Descriptor_ptr_buffer = room k Descriptor_ptr_buffer"
    and "room k' Descriptor_buffer = room k Descriptor_buffer"
    and "\<And>p. last_fd (pcbs k' p) = last_fd (pcbs k p)"
  shows "descriptors_ok k'"
  using assms by (simp add: descriptors_ok_def)

lemma leak_frame:
  assumes "leak_free k" and "\<And>q. lst k' (Children q) = lst k (Children q)"
    and "\<And>q. lst k' (Wait_getters q) = lst k (Wait_getters q)"
    and "\<And>q. lst k' (Wait_putters q) = lst k (Wait_putters q)"
    and "\<And>q. lst k' (Items q) = lst k (Items q)"
    and "lst k' Timer_list = lst k Timer_list"
    and "lst k' Resources_list = lst k Resources_list"
    and "lst k' Bq_registry = lst k Bq_registry"
    and "\<And>r. r \<in> {Pcb_ptr_buffer, Timer_item_buffer, Resources_buffer, Bq_buffer, Bqitem_buffer} \<Longrightarrow>
      in_use k' r = in_use k r"
  shows "leak_free k'"
  using assms by (simp add: leak_free_def)

declare set_status_def [simp] set_retvalue_def [simp]

text \<open>What only moves processes between \<open>running\<close> and the ready list keeps the other parts.\<close>

lemma resched_ok:
  assumes ok: "kernel_ok k" and new: "struct_inv (lists k') (pools k')" "sched_ok k'"
    and L: "\<And>h. h \<noteq> Ready_list \<Longrightarrow> lst k' h = lst k h"
    and same: "pools k' = pools k" "pcb_ptrs k' = pcb_ptrs k" "timer_items k' = timer_items k"
      "resources k' = resources k" "descriptors k' = descriptors k"
      "descriptor_ptrs k' = descriptor_ptrs k" "bqueues k' = bqueues k"
      "init_pcb k' = init_pcb k" "last_pid k' = last_pid k"
    and p: "\<And>p. parent (pcbs k' p) = parent (pcbs k p)" "\<And>p. pid (pcbs k' p) = pid (pcbs k p)"
      "\<And>p. timer (pcbs k' p) = timer (pcbs k p)" "\<And>p. last_fd (pcbs k' p) = last_fd (pcbs k p)"
      "\<And>p. p \<in> set (lst k Waiting_list) \<Longrightarrow> syscall_num (pcbs k' p) = syscall_num (pcbs k p)"
  shows "kernel_ok k'"
proof (rule kernel_okI [OF new])
  note S = kernel_okD [OF ok]
  have B: "blocked n k' = blocked n k" for n by (rule blocked_frame) (simp_all add: L p)
  show "family_ok k'" by (rule family_frame [OF S(3)]) (simp_all add: L same p)
  show "pids_ok k'" by (rule pids_frame [OF S(4)]) (simp_all add: L same p)
  show "timers_ok k'"
    using S(5) by (intro timers_frame [OF S(5)]) (simp_all add: L same p B timers_ok_def)
  show "waiters_ok Wait_getters DSOS_CALL_BQ_GET k'"
    by (rule waiters_frame [OF S(6)]) (simp_all add: L same B)
  show "waiters_ok Wait_putters DSOS_CALL_BQ_PUT k'"
    by (rule waiters_frame [OF S(7)]) (simp_all add: L same B)
  show "calls_ok k'" by (rule calls_frame [OF S(8)]) (simp_all add: L p)
  show "queues_ok k'" by (rule queues_frame [OF S(9)]) (simp_all add: L same)
  show "descriptors_ok k'" by (rule descriptors_frame [OF S(10)]) (simp_all add: L same p)
  show "leak_free k'" by (rule leak_frame [OF S(11)]) (simp_all add: L same)
qed

lemma running_loose:
  "kernel_ok k \<Longrightarrow> running k = Some r \<Longrightarrow> loose (lists k) r \<and> r \<in> in_use k Pcb_buffer"
  by (simp add: kernel_ok_def sched_ok_def)

lemma running_notin: "kernel_ok k \<Longrightarrow> running k = Some r \<Longrightarrow> r \<notin> set (lst k h)"
  by (simp add: running_loose [THEN conjunct1] loose_notin)

lemma ready_apart:
  assumes "struct_inv m P" and "contents m Ready_list = p # ps"
  shows "p \<notin> set ps" "p \<notin> set (contents m Waiting_list)" "p \<notin> set (contents m Zombie_list)"
  using struct_distinct [OF assms(1), of Ready_list] struct_disjoint [OF assms(1), of p Ready_list]
    assms(2) by force+

lemma family_okI:
  assumes "init_pcb k = None \<Longrightarrow> in_use k Pcb_buffer = {}"
    and "\<And>i. init_pcb k = Some i \<Longrightarrow> i \<in> in_use k Pcb_buffer \<and> parent (pcbs k i) = None"
    and "\<And>q w. w \<in> set (lst k (Children q)) \<Longrightarrow> q \<in> in_use k Pcb_buffer \<and>
      pcb_ptrs k w \<in> in_use k Pcb_buffer \<and> parent (pcbs k (pcb_ptrs k w)) = Some q"
    and "\<And>p q. p \<in> in_use k Pcb_buffer \<Longrightarrow> parent (pcbs k p) = Some q \<Longrightarrow>
      \<exists>w \<in> set (lst k (Children q)). pcb_ptrs k w = p"
    and "\<And>q w w'. w \<in> set (lst k (Children q)) \<Longrightarrow> w' \<in> set (lst k (Children q)) \<Longrightarrow>
      pcb_ptrs k w = pcb_ptrs k w' \<Longrightarrow> w = w'"
    and "\<And>z q. z \<in> set (lst k Zombie_list) \<Longrightarrow> parent (pcbs k z) = Some q \<Longrightarrow>
      lst k (Children z) = []"
    and "\<And>p. p \<in> in_use k Pcb_buffer \<Longrightarrow> parent (pcbs k p) \<noteq> Some p"
  shows "family_ok k"
  unfolding family_ok_def inj_on_def using assms by (intro conjI) blast+

lemma family_link:
  "family_ok k \<Longrightarrow> p \<in> in_use k Pcb_buffer \<Longrightarrow> parent (pcbs k p) = Some q \<Longrightarrow>
   \<exists>w \<in> set (lst k (Children q)). pcb_ptrs k w = p"
  by (simp add: family_ok_def)

lemma family_child:
  "family_ok k \<Longrightarrow> w \<in> set (lst k (Children q)) \<Longrightarrow>
   q \<in> in_use k Pcb_buffer \<and> pcb_ptrs k w \<in> in_use k Pcb_buffer \<and>
   parent (pcbs k (pcb_ptrs k w)) = Some q"
  by (simp add: family_ok_def)

lemma family_inj:
  "family_ok k \<Longrightarrow> w \<in> set (lst k (Children q)) \<Longrightarrow> w' \<in> set (lst k (Children q')) \<Longrightarrow>
   pcb_ptrs k w = pcb_ptrs k w' \<Longrightarrow> w = w'"
  using family_child [of k w q] family_child [of k w' q'] by (auto simp: family_ok_def inj_on_def)

lemma family_zombie:
  "family_ok k \<Longrightarrow> z \<in> set (lst k Zombie_list) \<Longrightarrow> parent (pcbs k z) = Some q \<Longrightarrow>
   lst k (Children z) = []"
  by (simp add: family_ok_def)

lemma family_self: "family_ok k \<Longrightarrow> p \<in> in_use k Pcb_buffer \<Longrightarrow> parent (pcbs k p) \<noteq> Some p"
  by (simp add: family_ok_def)

lemma family_init:
  "family_ok k \<Longrightarrow> init_pcb k = Some i \<Longrightarrow> i \<in> in_use k Pcb_buffer \<and> parent (pcbs k i) = None"
  by (simp add: family_ok_def)

lemma pids_inj:
  "pids_ok k \<Longrightarrow> p \<in> in_use k Pcb_buffer \<Longrightarrow> q \<in> in_use k Pcb_buffer \<Longrightarrow>
   pid (pcbs k p) = pid (pcbs k q) \<Longrightarrow> p = q"
  by (auto simp: pids_ok_def inj_on_def)

lemma leak_links:
  "leak_free k \<Longrightarrow> x \<in> in_use k Pcb_ptr_buffer \<Longrightarrow>
   \<exists>q. x \<in> set (lst k (Children q)) \<or> x \<in> set (lst k (Wait_getters q)) \<or>
       x \<in> set (lst k (Wait_putters q))"
  by (simp add: leak_free_def)

lemma leak_items:
  "leak_free k \<Longrightarrow> x \<in> in_use k Bqitem_buffer \<Longrightarrow> \<exists>q. x \<in> set (lst k (Items q))"
  by (simp add: leak_free_def)

lemma dead_no_children: "family_ok k \<Longrightarrow> p \<notin> in_use k Pcb_buffer \<Longrightarrow> lst k (Children p) = []"
  using family_child [of k _ p] by (cases "lst k (Children p)") auto

lemma descriptors_okI:
  assumes "inj_on (\<lambda>r. res_id (resources k r)) (set (lst k Resources_list))"
    and "\<And>r. r \<notin> set (lst k Resources_list) \<Longrightarrow> lst k (Descriptors_ptrs r) = []"
    and "\<And>p d. d \<in> set (lst k (Descriptors p)) \<Longrightarrow> des_fd (descriptors k d) < last_fd (pcbs k p)"
    and "\<And>p d. d \<in> set (lst k (Descriptors p)) \<Longrightarrow>
        \<exists>w. des_ptr (descriptors k d) = Some w \<and> descriptor_ptrs k w = d \<and>
             w \<in> set (lst k (Descriptors_ptrs (des_resource (descriptors k d))))"
    and "\<And>p x y. x \<in> set (lst k (Descriptors p)) \<Longrightarrow> y \<in> set (lst k (Descriptors p)) \<Longrightarrow>
        des_fd (descriptors k x) = des_fd (descriptors k y) \<Longrightarrow> x = y"
    and "\<And>r w. w \<in> set (lst k (Descriptors_ptrs r)) \<Longrightarrow>
        descriptor_ptrs k w \<in> in_use k Descriptor_buffer \<and>
        des_ptr (descriptors k (descriptor_ptrs k w)) = Some w"
    and "room k Descriptor_ptr_buffer = room k Descriptor_buffer"
  shows "descriptors_ok k"
  unfolding descriptors_ok_def using assms by (intro conjI) (auto intro: inj_onI)

lemma descriptor_fd:
  "descriptors_ok k \<Longrightarrow> d \<in> set (lst k (Descriptors p)) \<Longrightarrow>
   des_fd (descriptors k d) < last_fd (pcbs k p)"
  by (simp add: descriptors_ok_def)

lemma descriptor_link:
  "descriptors_ok k \<Longrightarrow> d \<in> set (lst k (Descriptors p)) \<Longrightarrow>
   \<exists>w. des_ptr (descriptors k d) = Some w \<and> descriptor_ptrs k w = d \<and>
       w \<in> set (lst k (Descriptors_ptrs (des_resource (descriptors k d))))"
  by (simp add: descriptors_ok_def)

lemma descriptor_inj:
  "descriptors_ok k \<Longrightarrow> x \<in> set (lst k (Descriptors p)) \<Longrightarrow> y \<in> set (lst k (Descriptors p)) \<Longrightarrow>
   des_fd (descriptors k x) = des_fd (descriptors k y) \<Longrightarrow> x = y"
  unfolding descriptors_ok_def inj_on_def by blast

lemma descriptor_back:
  "descriptors_ok k \<Longrightarrow> w \<in> set (lst k (Descriptors_ptrs r)) \<Longrightarrow>
   descriptor_ptrs k w \<in> in_use k Descriptor_buffer \<and>
   des_ptr (descriptors k (descriptor_ptrs k w)) = Some w"
  by (simp add: descriptors_ok_def)

lemma resource_ids_inj:
  "descriptors_ok k \<Longrightarrow> inj_on (\<lambda>r. res_id (resources k r)) (set (lst k Resources_list))"
  by (simp add: descriptors_ok_def)

lemma resource_unlisted:
  "descriptors_ok k \<Longrightarrow> r \<notin> set (lst k Resources_list) \<Longrightarrow> lst k (Descriptors_ptrs r) = []"
  by (simp add: descriptors_ok_def)

lemma descriptor_rooms:
  "descriptors_ok k \<Longrightarrow> room k Descriptor_ptr_buffer = room k Descriptor_buffer"
  by (simp add: descriptors_ok_def)

text \<open>How the links and the items in use change when one is added or removed.\<close>

lemma leak_update:
  assumes F: "leak_free k"
    and links: "\<And>x. x \<in> in_use k' Pcb_ptr_buffer \<Longrightarrow>
      (\<exists>q. x \<in> set (lst k' (Children q)) \<or> x \<in> set (lst k' (Wait_getters q)) \<or>
           x \<in> set (lst k' (Wait_putters q))) \<or>
      x \<in> in_use k Pcb_ptr_buffer \<and>
      (\<forall>q. (x \<in> set (lst k (Children q)) \<longrightarrow> x \<in> set (lst k' (Children q))) \<and>
           (x \<in> set (lst k (Wait_getters q)) \<longrightarrow> x \<in> set (lst k' (Wait_getters q))) \<and>
           (x \<in> set (lst k (Wait_putters q)) \<longrightarrow> x \<in> set (lst k' (Wait_putters q))))"
    and items: "\<And>x. x \<in> in_use k' Bqitem_buffer \<Longrightarrow>
      (\<exists>q. x \<in> set (lst k' (Items q))) \<or>
      x \<in> in_use k Bqitem_buffer \<and> (\<forall>q. x \<in> set (lst k (Items q)) \<longrightarrow> x \<in> set (lst k' (Items q)))"
    and same: "in_use k' Timer_item_buffer = in_use k Timer_item_buffer"
      "in_use k' Resources_buffer = in_use k Resources_buffer"
      "in_use k' Bq_buffer = in_use k Bq_buffer"
      "lst k' Timer_list = lst k Timer_list" "lst k' Resources_list = lst k Resources_list"
      "lst k' Bq_registry = lst k Bq_registry"
  shows "leak_free k'"
proof -
  have "\<exists>q. x \<in> set (lst k' (Children q)) \<or> x \<in> set (lst k' (Wait_getters q)) \<or>
           x \<in> set (lst k' (Wait_putters q))" if "x \<in> in_use k' Pcb_ptr_buffer" for x
    using links [OF that] leak_links [OF F, of x] by blast
  moreover have "\<exists>q. x \<in> set (lst k' (Items q))" if "x \<in> in_use k' Bqitem_buffer" for x
    using items [OF that] leak_items [OF F, of x] by blast
  ultimately show ?thesis using F by (simp add: leak_free_def same)
qed

end
