(* ===== verification/Scheduling.thy ===== *)
theory Scheduling
  imports Kernel_Inv
begin

text \<open>
  Correctness of the scheduler: \<open>internal_schedule\<close> and \<open>internal_preempt\<close>, \<open>dispatch_next\<close> and
  the dispatching halves of the blocking calls.  Each rule gives the exact state that results, then
  the invariant is shown of it.
\<close>

lemma schedule_rule:
  assumes inv: "struct_inv (lists k) (pools k)"
    and run: "\<And>r. running k = Some r \<Longrightarrow> loose (lists k) r \<and> r \<in> in_use k Pcb_buffer"
    and idle: "lst k Ready_list = [] \<Longrightarrow> Q k"
    and none: "\<And>m p ps. lst k Ready_list = p # ps \<Longrightarrow> running k = None \<Longrightarrow> struct_inv m (pools k) \<Longrightarrow>
      contents m = (lst k)(Ready_list := ps) \<Longrightarrow> loose m p \<Longrightarrow>
      Q ((set_status p Running (k\<lparr>lists := m\<rparr>))\<lparr>running := Some p\<rparr>)"
    and swap: "\<And>m p ps r. lst k Ready_list = p # ps \<Longrightarrow> running k = Some r \<Longrightarrow> p \<noteq> r \<Longrightarrow>
      struct_inv m (pools k) \<Longrightarrow> contents m = (lst k)(Ready_list := ps @ [r]) \<Longrightarrow> loose m p \<Longrightarrow>
      Q ((set_status p Running (set_status r Ready (k\<lparr>lists := m\<rparr>)))\<lparr>running := Some p\<rparr>)"
  shows "ok_with (internal_schedule k) Q"
proof (cases "lst k Ready_list")
  case Nil
  then show ?thesis using idle by (simp add: internal_schedule_def list_lst inv)
next
  case (Cons p ps)
  show ?thesis
    unfolding internal_schedule_def
    apply (simp add: list_first_lst [OF inv] Cons ok_with_and_then)
    apply (rule detach_rule [OF inv])
    subgoal by (simp add: Cons)
    subgoal for m
      apply (cases "running k")
      subgoal using none [of p ps m] by (simp add: Cons set_status_def upd_pcb_def)
      subgoal for r
        apply (simp add: ok_with_and_then)
        apply (rule append_rule)
        using run [of r] swap [of p ps r] Cons loose_notin [of "lists k" r Ready_list]
        apply (auto simp: set_status_def upd_pcb_def)
        done
      done
    done
qed

lemma schedule_ok:
  assumes ok: "kernel_ok k"
  shows "ok_with (internal_schedule k) kernel_ok"
proof (rule schedule_rule)
  note S = kernel_okD [OF ok]
  show "struct_inv (lists k) (pools k)" by (rule S)
  show "loose (lists k) r \<and> r \<in> in_use k Pcb_buffer" if "running k = Some r" for r
    using running_loose [OF ok that] .
  show "kernel_ok k" by (rule ok)
  fix m p ps
  assume A: "lst k Ready_list = p # ps" "struct_inv m (pools k)" "loose m p"
  note B = ready_apart [OF S(1) A(1)]
  show "kernel_ok ((set_status p Running (k\<lparr>lists := m\<rparr>))\<lparr>running := Some p\<rparr>)"
    if "running k = None" "contents m = (lst k)(Ready_list := ps)"
  proof (rule resched_ok [OF ok])
    show "sched_ok ((set_status p Running (k\<lparr>lists := m\<rparr>))\<lparr>running := Some p\<rparr>)"
      using S(2) A B that by (auto simp: sched_ok_def upd_pcb_at)
  qed (simp_all add: A that)
  show "kernel_ok ((set_status p Running (set_status r Ready (k\<lparr>lists := m\<rparr>)))\<lparr>running := Some p\<rparr>)"
    if "running k = Some r" "p \<noteq> r" "contents m = (lst k)(Ready_list := ps @ [r])" for r
  proof (rule resched_ok [OF ok])
    show "sched_ok ((set_status p Running (set_status r Ready (k\<lparr>lists := m\<rparr>)))\<lparr>running := Some p\<rparr>)"
      using S(2) A B that running_notin [OF ok that(1)] by (auto simp: sched_ok_def upd_pcb_at)
  qed (simp_all add: A that)
qed

section \<open>Updates of one process\<close>

text \<open>
  An update that keeps the members the invariant reads keeps the invariant; the number of the system
  call may change when the process is not waiting.
\<close>

text \<open>
  A step that leaves processes, timers and links alone: only the queues, the resources and the blocks
  they own have to be looked at.
\<close>

lemma pcb_not_block:
  "struct_inv (lists k) (pools k) \<Longrightarrow> pools_take (pools k) r b P \<Longrightarrow> r \<noteq> Pcb_buffer \<Longrightarrow>
   x \<in> in_use k Pcb_buffer \<Longrightarrow> x \<noteq> b"
  using struct_region by (fastforce simp: pools_take_def)

lemma objects_ok:
  assumes ok: "kernel_ok k" and inv: "struct_inv (lists k') (pools k')"
    and loose: "\<And>x. x \<in> in_use k Pcb_buffer \<Longrightarrow> loose (lists k) x \<Longrightarrow> loose (lists k') x"
    and same_lists: "\<And>h. kind h \<in> {Pcb_buffer, Timer_item_buffer, Pcb_ptr_buffer} \<Longrightarrow> lst k' h = lst k h"
    and live: "in_use k' Pcb_buffer = in_use k Pcb_buffer"
    and same: "pcbs k' = pcbs k" "pcb_ptrs k' = pcb_ptrs k" "timer_items k' = timer_items k"
      "running k' = running k" "init_pcb k' = init_pcb k" "last_pid k' = last_pid k"
    and parts: "queues_ok k'" "descriptors_ok k'" "leak_free k'"
  shows "kernel_ok k'"
proof (rule kernel_okI [OF inv])
  note S = kernel_okD [OF ok]
  have B: "blocked n k' = blocked n k" for n by (rule blocked_frame) (simp_all add: same_lists same)
  show "sched_ok k'" using S(2) loose by (auto simp: sched_ok_def same_lists live same)
  show "family_ok k'" by (rule family_frame [OF S(3)]) (simp_all add: same_lists live same)
  show "pids_ok k'" by (rule pids_frame [OF S(4)]) (simp_all add: live same)
  show "timers_ok k'" by (rule timers_frame [OF S(5)]) (use S(5) in \<open>simp_all add: same_lists live same B timers_ok_def\<close>)
  show "waiters_ok Wait_getters DSOS_CALL_BQ_GET k'"
    by (rule waiters_frame [OF S(6)]) (simp_all add: same_lists same B)
  show "waiters_ok Wait_putters DSOS_CALL_BQ_PUT k'"
    by (rule waiters_frame [OF S(7)]) (simp_all add: same_lists same B)
  show "calls_ok k'" by (rule calls_frame [OF S(8)]) (simp_all add: same_lists same)
qed (fact parts)+

lemma upd_ok:
  assumes ok: "kernel_ok k"
    and keeps: "\<And>b. pid (f b) = pid b" "\<And>b. parent (f b) = parent b" "\<And>b. timer (f b) = timer b"
      "\<And>b. last_fd (f b) = last_fd b" "\<And>b. status (f b) = status b"
    and call: "p \<in> set (lst k Waiting_list) \<Longrightarrow> syscall_num (f (pcbs k p)) = syscall_num (pcbs k p)"
  shows "kernel_ok (upd_pcb p f k)"
proof (rule resched_ok [OF ok])
  show "sched_ok (upd_pcb p f k)"
    using kernel_okD(2) [OF ok] by (simp add: sched_ok_def keeps)
  show "syscall_num (pcbs (upd_pcb p f k) x) = syscall_num (pcbs k x)"
    if "x \<in> set (lst k Waiting_list)" for x
    using call that by (auto simp: upd_pcb_at)
qed (simp_all add: keeps kernel_okD(1) [OF ok])

lemma retvalue_ok: "kernel_ok k \<Longrightarrow> kernel_ok (set_retvalue p v k)"
  by (simp add: upd_ok)

lemma output_ok [simp]:
  "kernel_ok (print_out s k) = kernel_ok k" "kernel_ok (log_out s k) = kernel_ok k"
  "kernel_ok (store_result a v k) = kernel_ok k"
  by (simp_all add: kernel_ok_def kernel_ok_parts blocked_def)

section \<open>Blocking\<close>

text \<open>
  A blocking call moves the running process to the end of the waiting list and the first ready one,
  if there is one, to \<open>running\<close>.
\<close>

lemma block_sched:
  assumes old: "sched_ok k" "struct_inv (lists k) (pools k)" "running k = Some r"
    and R: "lst k' Ready_list = tl (lst k Ready_list)" "running k' = hd_opt (lst k Ready_list)"
    and L: "lst k' Waiting_list = lst k Waiting_list @ [r]" "lst k' Zombie_list = lst k Zombie_list"
    and U: "in_use k' Pcb_buffer = in_use k Pcb_buffer"
    and new: "\<And>p. running k' = Some p \<Longrightarrow> loose (lists k') p"
      "\<And>p. running k' = Some p \<Longrightarrow> status (pcbs k' p) = Running \<or> status (pcbs k' p) = status (pcbs k p)"
    and st: "status (pcbs k' r) = Waiting"
      "\<And>p. p \<noteq> r \<Longrightarrow> running k' \<noteq> Some p \<Longrightarrow> status (pcbs k' p) = status (pcbs k p)"
  shows "sched_ok k'"
proof -
  have r: "r \<notin> set (lst k h)" for h using old by (simp add: sched_ok_def loose_notin)
  have run: "p \<in> set (lst k Ready_list)" "p \<notin> set (tl (lst k Ready_list))"
    "p \<notin> set (lst k Waiting_list)" "p \<notin> set (lst k Zombie_list)" if "running k' = Some p" for p
    using that R(2) ready_apart [OF old(2)] by (auto simp: hd_opt_Some)
  have same: "status (pcbs k' p) = status (pcbs k p)"
    if "p \<in> set (tl (lst k Ready_list)) \<or> p \<in> set (lst k Waiting_list) \<or> p \<in> set (lst k Zombie_list)"
    for p
    using that run [of p] r [of Ready_list] r list.set_sel(2) [of "lst k Ready_list" p]
    by (intro st(2)) (metis list.sel(2))+
  have split: "set (lst k Ready_list) = set_option (running k') \<union> set (tl (lst k Ready_list))"
    using R(2) by (cases "lst k Ready_list") auto
  show ?thesis
    unfolding sched_ok_def R(1) L U
    using old(1,3) split new run(1) same st(1) by (auto simp: sched_ok_def)
qed

lemma block_blocked:
  assumes "lst k' Waiting_list = lst k Waiting_list @ [r]" "\<And>p. syscall_num (pcbs k' p) = syscall_num (pcbs k p)"
  shows "blocked n k' = (if n = syscall_num (pcbs k r) then insert r (blocked n k) else blocked n k)"
  using assms by (auto simp: blocked_def)

lemma block_ok:
  assumes ok: "kernel_ok k" and run: "running k = Some r"
    and struct: "struct_inv (lists k') (pools k')"
    and R: "lst k' Ready_list = tl (lst k Ready_list)" "running k' = hd_opt (lst k Ready_list)"
    and W: "lst k' Waiting_list = lst k Waiting_list @ [r]"
    and L: "lst k' Zombie_list = lst k Zombie_list" "\<And>q. lst k' (Children q) = lst k (Children q)"
      "lst k' Resources_list = lst k Resources_list"
      "\<And>p. lst k' (Descriptors p) = lst k (Descriptors p)"
      "\<And>q. lst k' (Descriptors_ptrs q) = lst k (Descriptors_ptrs q)"
    and U: "in_use k' Pcb_buffer = in_use k Pcb_buffer"
      "in_use k' Descriptor_buffer = in_use k Descriptor_buffer"
      "room k' Descriptor_buffer = room k Descriptor_buffer"
      "room k' Descriptor_ptr_buffer = room k Descriptor_ptr_buffer"
    and same: "resources k' = resources k" "descriptors k' = descriptors k"
      "descriptor_ptrs k' = descriptor_ptrs k" "init_pcb k' = init_pcb k" "last_pid k' = last_pid k"
    and links: "\<And>q w. w \<in> set (lst k (Children q)) \<Longrightarrow> pcb_ptrs k' w = pcb_ptrs k w"
    and p: "\<And>p. parent (pcbs k' p) = parent (pcbs k p)" "\<And>p. pid (pcbs k' p) = pid (pcbs k p)"
      "\<And>p. last_fd (pcbs k' p) = last_fd (pcbs k p)"
      "\<And>p. syscall_num (pcbs k' p) = syscall_num (pcbs k p)"
    and new: "\<And>p. running k' = Some p \<Longrightarrow> loose (lists k') p"
      "\<And>p. running k' = Some p \<Longrightarrow> p \<noteq> r \<Longrightarrow>
         status (pcbs k' p) = Running \<or> status (pcbs k' p) = status (pcbs k p)"
    and st: "status (pcbs k' r) = Waiting"
      "\<And>p. p \<noteq> r \<Longrightarrow> running k' \<noteq> Some p \<Longrightarrow> status (pcbs k' p) = status (pcbs k p)"
    and call: "syscall_num (pcbs k r) \<in>
        {DSOS_CALL_SLEEP, DSOS_CALL_WAIT, DSOS_CALL_BQ_GET, DSOS_CALL_BQ_PUT}"
    and parts: "timers_ok k'" "waiters_ok Wait_getters DSOS_CALL_BQ_GET k'"
      "waiters_ok Wait_putters DSOS_CALL_BQ_PUT k'" "queues_ok k'" "leak_free k'"
  shows "kernel_ok k'"
proof (rule kernel_okI [OF struct _ _ _ parts(1-3) _ parts(4) _ parts(5)])
  note S = kernel_okD [OF ok]
  have "p \<noteq> r" if "running k' = Some p" for p
    using that R(2) running_notin [OF ok run, of Ready_list] by (auto simp: hd_opt_Some)
  then show "sched_ok k'"
    by (intro block_sched [OF S(2) S(1) run R W]) (use L(1) U new st in blast)+
  show "family_ok k'" by (rule family_frame [OF S(3)]) (simp_all add: L U same links p)
  show "pids_ok k'" by (rule pids_frame [OF S(4)]) (simp_all add: U same p)
  show "calls_ok k'" using S(8) call by (simp add: calls_ok_def W p)
  show "descriptors_ok k'" by (rule descriptors_frame [OF S(10)]) (simp_all add: L U same p)
qed

section \<open>Waking\<close>

text \<open>The dual: a waiting process moves to the end of the ready list.\<close>

lemma wake_sched:
  assumes old: "sched_ok k" "struct_inv (lists k) (pools k)" and p: "p \<in> set (lst k Waiting_list)"
    and L: "lst k' Ready_list = lst k Ready_list @ [p]" "lst k' Waiting_list = remove1 p (lst k Waiting_list)"
      "lst k' Zombie_list = lst k Zombie_list" "running k' = running k"
    and U: "in_use k' Pcb_buffer = in_use k Pcb_buffer"
    and run: "\<And>r. running k = Some r \<Longrightarrow> loose (lists k') r"
    and st: "status (pcbs k' p) = Ready" "\<And>x. x \<noteq> p \<Longrightarrow> status (pcbs k' x) = status (pcbs k x)"
  shows "sched_ok k'"
proof -
  have r: "r \<noteq> p" if "running k = Some r" for r
    using old(1) p that loose_notin [of "lists k" r] by (auto simp: sched_ok_def)
  have d: "distinct (lst k Waiting_list)" by (rule struct_distinct [OF old(2)])
  have notin: "p \<notin> set (lst k Ready_list)" "p \<notin> set (lst k Zombie_list)"
    using struct_disjoint [OF old(2) p] by auto
  have same: "status (pcbs k' x) = status (pcbs k x)"
    if "x \<in> set (lst k Ready_list) \<or> x \<in> set (lst k Zombie_list) \<or>
        x \<in> set (remove1 p (lst k Waiting_list)) \<or> running k = Some x" for x
    using that notin r d by (intro st) auto
  show ?thesis
    unfolding sched_ok_def L U
    using old(1) p same st(1) run d by (auto simp: sched_ok_def)
qed

lemma wake_blocked:
  assumes "lst k' Waiting_list = remove1 p (lst k Waiting_list)"
    and "\<And>x. syscall_num (pcbs k' x) = syscall_num (pcbs k x)"
    and "struct_inv (lists k) (pools k)"
  shows "blocked n k' = blocked n k - {p}"
  using assms struct_distinct [OF assms(3)] by (auto simp: blocked_def)

lemma blocked_other: "syscall_num (pcbs k p) \<noteq> n \<Longrightarrow> blocked n k - {p} = blocked n k"
  by (auto simp: blocked_def)

lemma wake_ok:
  assumes ok: "kernel_ok k" and p: "p \<in> set (lst k Waiting_list)"
    and struct: "struct_inv (lists k') (pools k')"
    and R: "lst k' Ready_list = lst k Ready_list @ [p]"
      "lst k' Waiting_list = remove1 p (lst k Waiting_list)"
      "lst k' Zombie_list = lst k Zombie_list" "running k' = running k"
    and L: "\<And>q. lst k' (Children q) = lst k (Children q)"
      "lst k' Resources_list = lst k Resources_list"
      "\<And>p. lst k' (Descriptors p) = lst k (Descriptors p)"
      "\<And>q. lst k' (Descriptors_ptrs q) = lst k (Descriptors_ptrs q)"
    and U: "in_use k' Pcb_buffer = in_use k Pcb_buffer"
      "in_use k' Descriptor_buffer = in_use k Descriptor_buffer"
      "room k' Descriptor_buffer = room k Descriptor_buffer"
      "room k' Descriptor_ptr_buffer = room k Descriptor_ptr_buffer"
    and same: "resources k' = resources k" "descriptors k' = descriptors k"
      "descriptor_ptrs k' = descriptor_ptrs k" "init_pcb k' = init_pcb k" "last_pid k' = last_pid k"
    and links: "\<And>q w. w \<in> set (lst k (Children q)) \<Longrightarrow> pcb_ptrs k' w = pcb_ptrs k w"
    and pc: "\<And>p. parent (pcbs k' p) = parent (pcbs k p)" "\<And>p. pid (pcbs k' p) = pid (pcbs k p)"
      "\<And>p. last_fd (pcbs k' p) = last_fd (pcbs k p)"
      "\<And>p. syscall_num (pcbs k' p) = syscall_num (pcbs k p)"
    and run: "\<And>r. running k = Some r \<Longrightarrow> loose (lists k') r"
    and st: "status (pcbs k' p) = Ready" "\<And>x. x \<noteq> p \<Longrightarrow> status (pcbs k' x) = status (pcbs k x)"
    and parts: "timers_ok k'" "waiters_ok Wait_getters DSOS_CALL_BQ_GET k'"
      "waiters_ok Wait_putters DSOS_CALL_BQ_PUT k'" "queues_ok k'" "leak_free k'"
  shows "kernel_ok k'"
proof (rule kernel_okI [OF struct _ _ _ parts(1-3) _ parts(4) _ parts(5)])
  note S = kernel_okD [OF ok]
  show "sched_ok k'" by (rule wake_sched [OF S(2) S(1) p R]) (use U run st in simp_all)
  show "family_ok k'" by (rule family_frame [OF S(3)]) (simp_all add: R L U same links pc)
  show "pids_ok k'" by (rule pids_frame [OF S(4)]) (simp_all add: U same pc)
  show "calls_ok k'" using S(8) struct_distinct [OF S(1)] by (simp add: calls_ok_def R pc)
  show "descriptors_ok k'" by (rule descriptors_frame [OF S(10)]) (simp_all add: L U same pc)
qed

end
