(* ===== verification/BQueue_Waiting.thy ===== *)
theory BQueue_Waiting
  imports Scheduling
begin

text \<open>
  The moves every blocking call of \<open>disastrOS_bqueue.c\<close> is made of: the running process goes to sleep
  on a queue (\<open>block_on\<close>), a waiter leaves the queue and becomes ready (\<open>take_waiter\<close>, \<open>wake_ready\<close>).
  Each move is shown to keep the kernel invariant.
\<close>

section \<open>Links of waiting processes\<close>

lemma waiters_blocked:
  "waiters_ok H n k \<Longrightarrow> w \<in> set (lst k (H q)) \<Longrightarrow> pcb_ptrs k w \<in> blocked n k"
  by (simp add: waiters_ok_def)

lemma waiters_inj:
  "waiters_ok H n k \<Longrightarrow> x \<in> set (lst k (H a)) \<Longrightarrow> y \<in> set (lst k (H b)) \<Longrightarrow>
   pcb_ptrs k x = pcb_ptrs k y \<Longrightarrow> x = y"
  unfolding waiters_ok_def by blast

lemma waiters_link:
  "waiters_ok H n k \<Longrightarrow> p \<in> blocked n k \<Longrightarrow> \<exists>a. \<exists>x \<in> set (lst k (H a)). pcb_ptrs k x = p"
  by (simp add: waiters_ok_def)

text \<open>The first link of a queue's list goes, with the process it stands for no longer blocked.\<close>

lemma waiters_remove:
  assumes W: "waiters_ok H n k" and inv: "struct_inv (lists k) (pools k)" and w: "lst k (H q) = w # ws"
    and L: "\<And>q'. lst k' (H q') = (if q' = q then ws else lst k (H q'))"
    and B: "blocked n k' = blocked n k - {pcb_ptrs k w}"
    and same: "pcb_ptrs k' = pcb_ptrs k" and H: "inj H"
  shows "waiters_ok H n k'"
proof -
  have old: "x \<in> set (lst k (H q')) \<and> x \<noteq> w" if "x \<in> set (lst k' (H q'))" for x q'
    using that w struct_distinct [OF inv, of "H q"] struct_disjoint [OF inv, of w "H q" "H q'"] H
    by (auto simp: L inj_def split: if_splits)
  have wq: "w \<in> set (lst k (H q))" using w by simp
  note inj = waiters_inj [OF W] and bl = waiters_blocked [OF W] and ex = waiters_link [OF W]
  have "\<exists>a. \<exists>x \<in> set (lst k' (H a)). pcb_ptrs k x = p" if "p \<in> blocked n k - {pcb_ptrs k w}" for p
  proof -
    from that ex obtain a x where "x \<in> set (lst k (H a))" "pcb_ptrs k x = p" by blast
    with that w show ?thesis by (intro exI [of _ a] bexI [of _ x]) (auto simp: L)
  qed
  then show ?thesis
    unfolding waiters_ok_def same B using old inj [OF _ wq] inj bl by (metis DiffI singletonD)
qed

lemma waiters_add:
  assumes W: "waiters_ok H n k" and w: "unlisted (lists k) w" and r: "r \<notin> blocked n k"
    and L: "\<And>q'. lst k' (H q') = (if q' = q then lst k (H q) @ [w] else lst k (H q'))"
    and B: "blocked n k' = insert r (blocked n k)"
    and ptr: "pcb_ptrs k' = (pcb_ptrs k)(w := r)"
  shows "waiters_ok H n k'"
proof -
  have new: "x \<noteq> w" if "x \<in> set (lst k (H a))" for x a using that w by (auto simp: unlisted_def)
  note inj = waiters_inj [OF W] and bl = waiters_blocked [OF W] and ex = waiters_link [OF W]
  have old: "x = w \<and> a = q \<or> x \<noteq> w \<and> x \<in> set (lst k (H a)) " if "x \<in> set (lst k' (H a))" for x a
    using that new by (auto simp: L split: if_splits)
  have "pcb_ptrs k' x \<in> blocked n k'" if "x \<in> set (lst k' (H a))" for x a
    using old [OF that] bl [of x a] by (auto simp: B ptr)
  moreover have "x = y" if "x \<in> set (lst k' (H a))" "y \<in> set (lst k' (H b))" "pcb_ptrs k' x = pcb_ptrs k' y" for x y a b
    using old [OF that(1)] old [OF that(2)] that(3) bl [of x a] bl [of y b] inj [of x a y b] r by (auto simp: ptr)
  moreover have "\<exists>a. \<exists>x \<in> set (lst k' (H a)). pcb_ptrs k' x = p" if "p \<in> blocked n k'" for p
  proof (cases "p = r")
    case True
    then show ?thesis by (intro exI [of _ q] bexI [of _ w]) (auto simp: L ptr)
  next
    case False
    with that have "p \<in> blocked n k" by (simp add: B)
    from ex [OF this] obtain a x where x: "x \<in> set (lst k (H a))" "pcb_ptrs k x = p" by blast
    with new [OF x(1)] show ?thesis by (intro exI [of _ a] bexI [of _ x]) (auto simp: L ptr)
  qed
  ultimately show ?thesis unfolding waiters_ok_def by blast
qed

text \<open>The process that a blocking call of a queue dispatches gets its status; none may be left.\<close>

fun mark_running :: "ptr option \<Rightarrow> kernel \<Rightarrow> kernel" where
  "mark_running None k = k\<lparr>running := None\<rparr>"
| "mark_running (Some p) k = (set_status p Running k)\<lparr>running := Some p\<rparr>"

lemma mark_running_frame [simp]:
  "lists (mark_running p k) = lists k"
  "pools (mark_running p k) = pools k"
  "pcb_ptrs (mark_running p k) = pcb_ptrs k"
  "timer_items (mark_running p k) = timer_items k"
  "resources (mark_running p k) = resources k"
  "descriptors (mark_running p k) = descriptors k"
  "descriptor_ptrs (mark_running p k) = descriptor_ptrs k"
  "bqueues (mark_running p k) = bqueues k"
  "bq_items (mark_running p k) = bq_items k"
  "init_pcb (mark_running p k) = init_pcb k"
  "last_pid (mark_running p k) = last_pid k"
  "shutdown_now (mark_running p k) = shutdown_now k"
  "disastrOS_time (mark_running p k) = disastrOS_time k"
  "log_file (mark_running p k) = log_file k"
  "stdout (mark_running p k) = stdout k"
  "user_mem (mark_running p k) = user_mem k"
  "running (mark_running p k) = p"
  "pid (pcbs (mark_running p k) q) = pid (pcbs k q)"
  "return_value (pcbs (mark_running p k) q) = return_value (pcbs k q)"
  "parent (pcbs (mark_running p k) q) = parent (pcbs k q)"
  "timer (pcbs (mark_running p k) q) = timer (pcbs k q)"
  "last_fd (pcbs (mark_running p k) q) = last_fd (pcbs k q)"
  "syscall_num (pcbs (mark_running p k) q) = syscall_num (pcbs k q)"
  "syscall_args (pcbs (mark_running p k) q) = syscall_args (pcbs k q)"
  "cpu_state (pcbs (mark_running p k) q) = cpu_state (pcbs k q)"
  "syscall_retvalue (pcbs (mark_running p k) q) = syscall_retvalue (pcbs k q)"
  by (cases p; simp)+

lemma mark_running_status:
  "status (pcbs (mark_running p k) q) = (if p = Some q then Running else status (pcbs k q))"
  by (cases p) (auto simp: upd_pcb_at)

section \<open>Rules for the steps of put and get\<close>

lemma wake_ready_rule:
  assumes inv: "struct_inv (lists k) (pools k)" and p: "p \<in> set (lst k Waiting_list)"
    and Q: "\<And>m. struct_inv m (pools k) \<Longrightarrow>
      contents m = (lst k)(Waiting_list := remove1 p (lst k Waiting_list), Ready_list := lst k Ready_list @ [p]) \<Longrightarrow>
      (\<And>x. x \<noteq> p \<Longrightarrow> loose (lists k) x \<Longrightarrow> loose m x) \<Longrightarrow>
      Q (set_status p Ready (k\<lparr>lists := m\<rparr>))"
  shows "ok_with (wake_ready p k) Q"
  unfolding wake_ready_def find_lst [OF inv]
  apply (simp add: p ok_with_and_then)
  apply (rule detach_rule [OF inv p])
  subgoal for m
    apply simp
    apply (rule append_rule)
    subgoal by simp
    subgoal by simp
    subgoal using struct_live [OF inv p] by simp
    subgoal for m2 using Q [of m2] by simp
    done
  done

lemma take_waiter_rule:
  assumes inv: "struct_inv (lists k) (pools k)" and w: "lst k h = w # ws" and h: "kind h = Pcb_ptr_buffer"
    and Q: "\<And>m P. struct_inv m P \<Longrightarrow> contents m = (lst k)(h := ws) \<Longrightarrow>
      (\<And>x. loose (lists k) x \<Longrightarrow> loose m x) \<Longrightarrow> pools_give (pools k) Pcb_ptr_buffer w P \<Longrightarrow>
      Q (pcb_ptrs k w, k\<lparr>lists := m, pools := P\<rparr>)"
  shows "ok_with (take_waiter h k) Q"
  unfolding take_waiter_def
  apply (simp add: ok_with_and_then)
  apply (rule detach_first_rule [OF inv w])
  apply (simp add: PCBPtr_free_def Let_def ok_with_and_then)
  apply (rule release_rule)
  subgoal by simp
  subgoal using struct_live [OF inv, of w h] w h by simp
  subgoal by (simp add: loose_def)
  subgoal using Q by simp
  done

lemma dispatch_next_rule:
  assumes inv: "struct_inv (lists k) (pools k)"
    and Q: "\<And>m. struct_inv m (pools k) \<Longrightarrow> contents m = (lst k)(Ready_list := tl (lst k Ready_list)) \<Longrightarrow>
      (\<And>p. hd_opt (lst k Ready_list) = Some p \<Longrightarrow> loose m p) \<Longrightarrow>
      Q (mark_running (hd_opt (lst k Ready_list)) (k\<lparr>lists := m\<rparr>))"
  shows "ok_with (dispatch_next k) Q"
proof (cases "lst k Ready_list")
  case Nil
  have "lst k = (lst k)(Ready_list := [])" using Nil by (auto simp: fun_eq_iff)
  with Nil Q [of "lists k"] inv show ?thesis
    by (simp add: dispatch_next_def list_first_lst [OF inv])
next
  case (Cons p ps)
  show ?thesis
    unfolding dispatch_next_def list_first_lst [OF inv] Cons
    apply (simp add: ok_with_and_then)
    apply (rule detach_rule [OF inv, of p])
    subgoal by (simp add: Cons)
    subgoal for m using Q [of m] by (simp add: Cons)
    done
qed

lemma block_on_rule:
  assumes inv: "struct_inv (lists k) (pools k)" and r: "loose (lists k) r" "r \<in> in_use k Pcb_buffer"
    and room: "0 < room k Pcb_ptr_buffer" and h: "kind h = Pcb_ptr_buffer"
    and Q: "\<And>m P w. struct_inv m P \<Longrightarrow> w \<notin> in_use k Pcb_ptr_buffer \<Longrightarrow> unlisted (lists k) w \<Longrightarrow> 
      contents m = (lst k)(h := lst k h @ [w], Waiting_list := lst k Waiting_list @ [r], Ready_list := tl (lst k Ready_list)) \<Longrightarrow>
      (\<And>p. hd_opt (lst k Ready_list) = Some p \<Longrightarrow> loose m p) \<Longrightarrow> pools_take (pools k) Pcb_ptr_buffer w P \<Longrightarrow>
      Q (mark_running (hd_opt (lst k Ready_list))
          (set_status r Waiting (k\<lparr>pools := P, pcb_ptrs := (pcb_ptrs k)(w := r), lists := m\<rparr>)))"
  shows "ok_with (block_on h r k) Q"
proof -
  have hs: "h \<noteq> Ready_list" "h \<noteq> Waiting_list" using h by auto
  show ?thesis
    unfolding block_on_def
    apply (simp add: ok_with_and_then)
    apply (rule PCBPtr_alloc_rule)
    subgoal using inv by simp
    subgoal using room by simp
    subgoal for w m P
      apply (simp add: ok_with_and_then)
      apply (rule append_rule)
      subgoal by simp
      subgoal by simp
      subgoal using h by (simp add: pools_take_def)
      subgoal for m2
        apply (simp add: ok_with_and_then)
        apply (rule append_rule)
        subgoal by simp
        subgoal using r struct_region [OF inv r(2)] by (cases "r = w") (auto simp: pools_take_def)
        subgoal using r by (simp add: pools_take_def)
        subgoal for m3
          apply (rule dispatch_next_rule)
          subgoal by simp
          subgoal for m4
            using Q [of m4 P w] struct_dead_unlisted [OF inv, of w] hs
            by (simp add: pools_take_def fun_upd_twist)
          done
        done
      done
    done
qed

section \<open>Blocking on a queue\<close>

definition blocked_state :: "list_id \<Rightarrow> ptr \<Rightarrow> kernel \<Rightarrow> kernel \<Rightarrow> bool" where [effects]:
  "blocked_state h r k k' \<longleftrightarrow> (\<exists>m P w.
     w \<notin> in_use k Pcb_ptr_buffer \<and> unlisted (lists k) w \<and> pools_take (pools k) Pcb_ptr_buffer w P \<and>
     contents m = (lst k)(h := lst k h @ [w], Waiting_list := lst k Waiting_list @ [r],
       Ready_list := tl (lst k Ready_list)) \<and>
     k' = mark_running (hd_opt (lst k Ready_list))
          (set_status r Waiting (k\<lparr>pools := P, pcb_ptrs := (pcb_ptrs k)(w := r), lists := m\<rparr>)))"

text \<open>The two kinds of waiting, with the call that a process on such a list has made.\<close>

definition wait_kind :: "(ptr \<Rightarrow> list_id) \<Rightarrow> int \<Rightarrow> bool" where
  "wait_kind H n \<longleftrightarrow> H = Wait_getters \<and> n = DSOS_CALL_BQ_GET \<or> H = Wait_putters \<and> n = DSOS_CALL_BQ_PUT"

lemma wait_kind_cases:
  "wait_kind H n \<Longrightarrow> wait_kind H' n' \<Longrightarrow> H = H' \<and> n = n' \<or> n \<noteq> n' \<and> (\<forall>q q'. H q \<noteq> H' q')"
  by (auto simp: wait_kind_def dsos_consts)

lemma wait_kind_inj: "wait_kind H n \<Longrightarrow> inj H"
  by (auto simp: wait_kind_def inj_def)

text \<open>A process that blocks joins one kind of list; the other kind stays as it is.\<close>

lemma waiters_block:
  assumes W: "waiters_ok H n k" and kinds: "wait_kind H n" "wait_kind H' n'"
    and w: "unlisted (lists k) w" and r: "r \<notin> blocked n k"
    and L: "\<And>q'. lst k' (H q') = (if H q' = H' q then lst k (H q') @ [w] else lst k (H q'))"
    and ptr: "pcb_ptrs k' = (pcb_ptrs k)(w := r)"
    and B: "blocked n k' = (if n = n' then insert r (blocked n k) else blocked n k)"
  shows "waiters_ok H n k'"
  using wait_kind_cases [OF kinds]
proof (elim disjE conjE)
  assume "H = H'" "n = n'"
  with L wait_kind_inj [OF kinds(1)] B ptr show ?thesis
    by (intro waiters_add [OF W w r, of _ q]) (auto simp: inj_def)
next
  assume "n \<noteq> n'" "\<forall>q q'. H q \<noteq> H' q'"
  with L B ptr w show ?thesis by (intro waiters_frame [OF W]) (auto simp: unlisted_def)
qed

lemma leak_block:
  assumes F: "leak_free k" and h: "h = Wait_getters q \<or> h = Wait_putters q"
    and L: "\<And>h'. h' \<notin> {Waiting_list, Ready_list} \<Longrightarrow> lst k' h' = (if h' = h then lst k h @ [w] else lst k h')"
    and U: "\<And>r. in_use k' r = (if r = Pcb_ptr_buffer then insert w (in_use k r) else in_use k r)"
  shows "leak_free k'"
proof (rule leak_update [OF F])
  fix x assume "x \<in> in_use k' Pcb_ptr_buffer"
  then show "(\<exists>q. x \<in> set (lst k' (Children q)) \<or> x \<in> set (lst k' (Wait_getters q)) \<or>
       x \<in> set (lst k' (Wait_putters q))) \<or>
    x \<in> in_use k Pcb_ptr_buffer \<and>
    (\<forall>q. (x \<in> set (lst k (Children q)) \<longrightarrow> x \<in> set (lst k' (Children q))) \<and>
         (x \<in> set (lst k (Wait_getters q)) \<longrightarrow> x \<in> set (lst k' (Wait_getters q))) \<and>
         (x \<in> set (lst k (Wait_putters q)) \<longrightarrow> x \<in> set (lst k' (Wait_putters q))))"
    using h U by (cases "x = w") (auto simp: L)
qed (use h U in \<open>auto simp: L\<close>)

lemma blocked_ok:
  assumes ok: "kernel_ok k" and run: "running k = Some r"
    and kind: "wait_kind H (syscall_num (pcbs k r))"
    and q: "q \<in> set (lst k Bq_registry)"
      "H = Wait_getters \<and> lst k (Items q) = [] \<and> lst k (Wait_putters q) = [] \<or>
       H = Wait_putters \<and> int (length (lst k (Items q))) = bq_capacity (bqueues k q) \<and> lst k (Wait_getters q) = []"
    and m: "struct_inv m P" "unlisted (lists k) w"
      "contents m = (lst k)(H q := lst k (H q) @ [w], Waiting_list := lst k Waiting_list @ [r], Ready_list := tl (lst k Ready_list))"
      "\<And>p. hd_opt (lst k Ready_list) = Some p \<Longrightarrow> loose m p" "pools_take (pools k) Pcb_ptr_buffer w P"
  shows "kernel_ok (mark_running (hd_opt (lst k Ready_list))
    (upd_pcb r (\<lambda>b. b\<lparr>status := Waiting\<rparr>) (k\<lparr>pools := P, pcb_ptrs := (pcb_ptrs k)(w := r), lists := m\<rparr>)))" (is "kernel_ok ?k")
proof (rule block_ok [OF ok run])
  note S = kernel_okD [OF ok]
  let ?n = "syscall_num (pcbs k r)"
  have hs: "H q \<noteq> Ready_list" "H q \<noteq> Waiting_list" "H q \<noteq> Zombie_list" "H q \<noteq> Timer_list" "H q \<noteq> Children p"
    "H q \<noteq> Resources_list" "H q \<noteq> Descriptors p" "H q \<noteq> Descriptors_ptrs p" "H q \<noteq> Bq_registry" "H q \<noteq> Items p" for p
    using kind by (auto simp: wait_kind_def)
  have B: "blocked n ?k = (if n = ?n then insert r (blocked n k) else blocked n k)" for n
    by (subst block_blocked [of _ k r]) (simp_all add: m(3))
  have P: "in_use ?k r' = (if r' = Pcb_ptr_buffer then insert w (in_use k r') else in_use k r')"
    "r' \<noteq> Pcb_ptr_buffer \<Longrightarrow> room ?k r' = room k r'" for r'
    using m(5) by (simp_all add: pools_take_def)
  have rb: "r \<notin> blocked n k" for n using running_notin [OF ok run] by (simp add: blocked_def)
  have next_r: "hd_opt (lst k Ready_list) \<noteq> Some r" using running_notin [OF ok run, of Ready_list] by (auto simp: hd_opt_Some)
  show "timers_ok ?k"
    by (rule timers_frame [OF S(5)]) (use kind S(5) P in \<open>auto simp: m(3) B hs timers_ok_def wait_kind_def dsos_consts\<close>)
  show "waiters_ok Wait_getters DSOS_CALL_BQ_GET ?k"
    by (rule waiters_block [OF S(6) _ kind m(2) rb, of _ q]) (simp_all add: m(3) B wait_kind_def)
  show "waiters_ok Wait_putters DSOS_CALL_BQ_PUT ?k"
    by (rule waiters_block [OF S(7) _ kind m(2) rb, of _ q]) (simp_all add: m(3) B wait_kind_def)
  show "queues_ok ?k" using S(9) q by (auto simp: queues_ok_def m(3) hs)
  show "leak_free ?k"
    by (rule leak_block [OF S(11), of "H q" q _ w]) (use kind P in \<open>auto simp: m(3) wait_kind_def\<close>)
  show "status (pcbs ?k r) = Waiting" using next_r by (simp add: mark_running_status)
  show "?n \<in> {DSOS_CALL_SLEEP, DSOS_CALL_WAIT, DSOS_CALL_BQ_GET, DSOS_CALL_BQ_PUT}" using kind by (auto simp: wait_kind_def)
  show "pcb_ptrs ?k v = pcb_ptrs k v" if "v \<in> set (lst k (Children p))" for p v
    using that m(2) by (auto simp: unlisted_def)
qed (use m(1,4,5) kind in \<open>auto simp: m(3) mark_running_status wait_kind_def pools_take_def\<close>)

lemma block_on_ok:
  assumes ok: "kernel_ok k" and run: "running k = Some r" and room: "0 < room k Pcb_ptr_buffer"
    and call: "h = Wait_getters q \<and> syscall_num (pcbs k r) = DSOS_CALL_BQ_GET \<and>
        lst k (Items q) = [] \<and> lst k (Wait_putters q) = [] \<or>
      h = Wait_putters q \<and> syscall_num (pcbs k r) = DSOS_CALL_BQ_PUT \<and>
        int (length (lst k (Items q))) = bq_capacity (bqueues k q) \<and> lst k (Wait_getters q) = []"
    and q: "q \<in> set (lst k Bq_registry)"
  shows "ok_with (block_on h r k) (\<lambda>k'. kernel_ok k' \<and> blocked_state h r k k')"
proof -
  from call obtain H where h: "h = H q" and kind: "wait_kind H (syscall_num (pcbs k r))"
    and full: "H = Wait_getters \<and> lst k (Items q) = [] \<and> lst k (Wait_putters q) = [] \<or>
       H = Wait_putters \<and> int (length (lst k (Items q))) = bq_capacity (bqueues k q) \<and> lst k (Wait_getters q) = []"
    by (auto simp: wait_kind_def)
  show ?thesis
    unfolding h
  proof (rule block_on_rule [OF kernel_okD(1) [OF ok]])
    show "kind (H q) = Pcb_ptr_buffer" using full by auto
  qed (use blocked_ok [OF ok run kind q full] running_loose [OF ok run] room in \<open>auto simp: blocked_state_def\<close>)
qed

section \<open>Handing over\<close>

text \<open>The first waiting process of a queue is served and becomes ready.\<close>

lemma waiters_serve:
  assumes W: "waiters_ok H n k" and inv: "struct_inv (lists k) (pools k)" and kinds: "wait_kind H n" "wait_kind H' n'"
    and w: "lst k (H' q) = w # ws" and L: "\<And>q'. lst k' (H q') = (if H q' = H' q then ws else lst k (H q'))"
    and ptr: "pcb_ptrs k' = pcb_ptrs k"
    and B: "blocked n k' = (if n = n' then blocked n k - {pcb_ptrs k w} else blocked n k)"
  shows "waiters_ok H n k'"
  using wait_kind_cases [OF kinds]
proof (elim disjE conjE)
  assume "H = H'" "n = n'"
  with L wait_kind_inj [OF kinds(1)] B ptr w show ?thesis
    by (intro waiters_remove [OF W inv, of q w ws]) (auto simp: inj_def)
next
  assume "n \<noteq> n'" "\<forall>q q'. H q \<noteq> H' q'"
  with L B ptr show ?thesis by (intro waiters_frame [OF W]) auto
qed

lemma leak_serve:
  assumes F: "leak_free k" and inv: "struct_inv (lists k) (pools k)" and kind: "wait_kind H n" and w: "lst k (H q) = w # ws"
    and L: "lst k' (H q) = ws" "\<And>h. h \<notin> {H q, Waiting_list, Ready_list, Items q} \<Longrightarrow> lst k' h = lst k h"
    and U: "in_use k' Pcb_ptr_buffer = in_use k Pcb_ptr_buffer - {w}"
      "\<And>r. r \<noteq> Pcb_ptr_buffer \<Longrightarrow> r \<noteq> Bqitem_buffer \<Longrightarrow> in_use k' r = in_use k r"
      "\<And>x. x \<in> in_use k' Bqitem_buffer \<Longrightarrow> x \<in> set (lst k' (Items q)) \<or>
        x \<in> in_use k Bqitem_buffer \<and> x \<notin> set (lst k (Items q))"
  shows "leak_free k'"
proof (rule leak_update [OF F])
  fix x assume "x \<in> in_use k' Pcb_ptr_buffer"
  then have x: "x \<in> in_use k Pcb_ptr_buffer" "x \<noteq> w" by (auto simp: U)
  have "x \<in> set (lst k' h)" if "x \<in> set (lst k h)" "kind h = Pcb_ptr_buffer" for h
  proof (cases "h = H q")
    case False
    have "h \<noteq> Waiting_list" "h \<noteq> Ready_list" "h \<noteq> Items q" using that(2) by auto
    with False that(1) show ?thesis by (simp add: L)
  qed (use that(1) x(2) w in \<open>simp add: L\<close>)
  with x show "(\<exists>q. x \<in> set (lst k' (Children q)) \<or> x \<in> set (lst k' (Wait_getters q)) \<or>
       x \<in> set (lst k' (Wait_putters q))) \<or>
    x \<in> in_use k Pcb_ptr_buffer \<and>
    (\<forall>q. (x \<in> set (lst k (Children q)) \<longrightarrow> x \<in> set (lst k' (Children q))) \<and>
         (x \<in> set (lst k (Wait_getters q)) \<longrightarrow> x \<in> set (lst k' (Wait_getters q))) \<and>
         (x \<in> set (lst k (Wait_putters q)) \<longrightarrow> x \<in> set (lst k' (Wait_putters q))))"
    by simp
next
  fix x assume "x \<in> in_use k' Bqitem_buffer"
  from U(3) [OF this] show "(\<exists>q. x \<in> set (lst k' (Items q))) \<or>
    x \<in> in_use k Bqitem_buffer \<and> (\<forall>q. x \<in> set (lst k (Items q)) \<longrightarrow> x \<in> set (lst k' (Items q)))"
  proof
    assume x: "x \<in> in_use k Bqitem_buffer \<and> x \<notin> set (lst k (Items q))"
    have "lst k' (Items p) = lst k (Items p)" if "p \<noteq> q" for p using that kind by (intro L(2)) (auto simp: wait_kind_def)
    with x show ?thesis by metis
  qed blast
qed (use kind U(2) in \<open>auto simp: L wait_kind_def\<close>)

lemma handoff_ok:
  assumes ok: "kernel_ok k" 
    and H: "H = Wait_getters \<and> n = DSOS_CALL_BQ_GET \<or> H = Wait_putters \<and> n = DSOS_CALL_BQ_PUT"
    and w: "lst k (H q) = w # ws" and g: "g = pcb_ptrs k w"
    and struct: "struct_inv (lists k') (pools k')"
    and L: "lst k' (H q) = ws" "lst k' Waiting_list = remove1 g (lst k Waiting_list)"
      "lst k' Ready_list = lst k Ready_list @ [g]"
      "\<And>h. h \<notin> {H q, Waiting_list, Ready_list, Items q} \<Longrightarrow> lst k' h = lst k h"
    and U: "in_use k' Pcb_ptr_buffer = in_use k Pcb_ptr_buffer - {w}"
      "\<And>r. r \<noteq> Pcb_ptr_buffer \<Longrightarrow> r \<noteq> Bqitem_buffer \<Longrightarrow> in_use k' r = in_use k r \<and> room k' r = room k r"
      "\<And>x. x \<in> in_use k' Bqitem_buffer \<Longrightarrow> x \<in> set (lst k' (Items q)) \<or>
        x \<in> in_use k Bqitem_buffer \<and> x \<notin> set (lst k (Items q))"
    and same: "pcb_ptrs k' = pcb_ptrs k" "timer_items k' = timer_items k" "resources k' = resources k"
      "descriptors k' = descriptors k" "descriptor_ptrs k' = descriptor_ptrs k"
      "init_pcb k' = init_pcb k" "last_pid k' = last_pid k" "running k' = running k"
    and pc: "\<And>p. parent (pcbs k' p) = parent (pcbs k p)" "\<And>p. pid (pcbs k' p) = pid (pcbs k p)"
      "\<And>p. timer (pcbs k' p) = timer (pcbs k p)" "\<And>p. last_fd (pcbs k' p) = last_fd (pcbs k p)"
      "\<And>p. syscall_num (pcbs k' p) = syscall_num (pcbs k p)"
    and st: "status (pcbs k' g) = Ready" "\<And>x. x \<noteq> g \<Longrightarrow> status (pcbs k' x) = status (pcbs k x)"
    and run: "\<And>r. running k = Some r \<Longrightarrow> loose (lists k') r"
    and queues: "queues_ok k'"
  shows "kernel_ok k'"
proof -
  note S = kernel_okD [OF ok]
  have kind: "wait_kind H n" using H by (simp add: wait_kind_def)
  have W: "waiters_ok H n k" using S(6,7) H by auto
  have gb: "g \<in> blocked n k" using waiters_blocked [OF W, of w q] w g by simp
  then have gw: "g \<in> set (lst k Waiting_list)" "syscall_num (pcbs k g) = n" by (simp_all add: blocked_def)
  have B: "blocked n' k' = (if n' = n then blocked n k - {g} else blocked n' k)" for n'
    using gw by (subst wake_blocked [OF L(2) pc(5) S(1)]) (auto simp: blocked_other)
  have serve: "waiters_ok H' n' k'" if "waiters_ok H' n' k" "wait_kind H' n'" for H' n'
    by (rule waiters_serve [OF that(1) S(1) that(2) kind w]) (use that(2) in \<open>auto simp: L B g same wait_kind_def\<close>)
  show ?thesis
  proof (rule wake_ok [OF ok gw(1) struct])
    show "timers_ok k'"
      by (rule timers_frame [OF S(5)]) (use H S(5) U in \<open>auto simp: L B same pc dsos_consts timers_ok_def\<close>)
    show "waiters_ok Wait_getters DSOS_CALL_BQ_GET k'" by (rule serve [OF S(6)]) (simp add: wait_kind_def)
    show "waiters_ok Wait_putters DSOS_CALL_BQ_PUT k'" by (rule serve [OF S(7)]) (simp add: wait_kind_def)
    show "leak_free k'" by (rule leak_serve [OF S(11,1) kind w L(1,4) U(1) _ U(3)]) (use U(2) in auto)
  qed (use H U(2) queues run st in \<open>auto simp: L same pc\<close>)
qed

end
