(* ===== verification/BQueue_Put.thy ===== *)
theory BQueue_Put
  imports BQueue_Waiting
begin

text \<open>
  \<open>disastrOS_bqPut\<close>, branch by branch: hand over to a waiting getter, store in the buffer, no item
  block left, block on a full queue, unknown queue.
\<close>

section \<open>Put\<close>

definition bqueue_named :: "int \<Rightarrow> kernel \<Rightarrow> ptr option" where
  "bqueue_named qid k = List.find (\<lambda>q. bq_id (bqueues k q) = qid) (lst k Bq_registry)"

lemma BQ_byId_lst:
  "struct_inv (lists k) (pools k) \<Longrightarrow> BQ_byId BQ_registry qid k = Inr (bqueue_named qid k)"
  by (simp add: BQ_byId_def BQ_registry_def bqueue_named_def scan_lst)

lemma bqueue_named_in: "bqueue_named qid k = Some q \<Longrightarrow> q \<in> set (lst k Bq_registry)"
  unfolding bqueue_named_def using find_Some_iff_first by fastforce

text \<open>The state after a put that finds a waiting getter.\<close>

definition delivered :: "ptr \<Rightarrow> ptr \<Rightarrow> int \<Rightarrow> kernel \<Rightarrow> kernel \<Rightarrow> bool" where [effects]:
  "delivered q r v k k' \<longleftrightarrow> (\<exists>w ws m P. lst k (Wait_getters q) = w # ws \<and>
     contents m = (lst k)(Wait_getters q := ws, Waiting_list := remove1 (pcb_ptrs k w) (lst k Waiting_list),
       Ready_list := lst k Ready_list @ [pcb_ptrs k w]) \<and> (\<forall>r'. room k r' - 1 \<le> pa_size (P r')) \<and> live (P Pcb_buffer) = in_use k Pcb_buffer \<and>
     k' = set_retvalue r 0 (upd_pcb (pcb_ptrs k w) (\<lambda>b. b\<lparr>syscall_retvalue := 0, status := Ready\<rparr>)
       (store_result (syscall_args (pcbs k (pcb_ptrs k w)) 1) v (k\<lparr>pools := P, lists := m\<rparr>))))"

lemma put_deliver_ok:
  assumes ok: "kernel_ok k" and run: "running k = Some r"
    and q: "bqueue_named (to_int (syscall_args (pcbs k r) 0)) k = Some q"
    and w: "lst k (Wait_getters q) \<noteq> []"
  shows "ok_with (internal_bq_put k) (\<lambda>k'. kernel_ok k' \<and> delivered q r (syscall_args (pcbs k r) 1) k k')"
proof -
  note S = kernel_okD [OF ok]
  obtain w ws where w: "lst k (Wait_getters q) = w # ws" using w by (cases "lst k (Wait_getters q)") auto
  have gw: "pcb_ptrs k w \<in> set (lst k Waiting_list)"
    using waiters_blocked [OF S(6), of w q] w by (simp add: blocked_def)
  have gr: "pcb_ptrs k w \<noteq> r" using gw running_notin [OF ok run] by auto
  show ?thesis
    unfolding internal_bq_put_def run
    apply (simp add: Let_def BQ_byId_lst [OF S(1)] q list_first_lst [OF S(1)] w ok_with_and_then)
    apply (rule take_waiter_rule [OF S(1) w])
    subgoal by simp
    subgoal for m P
      apply (simp add: ok_with_and_then)
      apply (rule wake_ready_rule)
      subgoal by simp
      subgoal using gw by simp
      subgoal for m2
      proof -
        assume m: "contents m = (lst k)(Wait_getters q := ws)" "\<And>x. loose (lists k) x \<Longrightarrow> loose m x"
          "pools_give (pools k) Pcb_ptr_buffer w P"
        let ?k1 = "upd_pcb (pcb_ptrs k w) (\<lambda>b. b\<lparr>syscall_retvalue := 0\<rparr>)
            (store_result (syscall_args (pcbs k (pcb_ptrs k w)) (Suc 0)) (syscall_args (pcbs k r) (Suc 0)) (k\<lparr>lists := m, pools := P\<rparr>))"
        let ?k = "upd_pcb r (\<lambda>b. b\<lparr>syscall_retvalue := 0\<rparr>) (set_status (pcb_ptrs k w) Ready (?k1\<lparr>lists := m2\<rparr>))"
        assume m2: "struct_inv m2 (pools ?k1)"
          "contents m2 = (lst ?k1)(Waiting_list := remove1 (pcb_ptrs k w) (lst ?k1 Waiting_list), Ready_list := lst ?k1 Ready_list @ [pcb_ptrs k w])"
          "\<And>x. x \<noteq> pcb_ptrs k w \<Longrightarrow> loose (lists ?k1) x \<Longrightarrow> loose m2 x"
        have P: "struct_inv m2 P" "live (P r') = (if r' = Pcb_ptr_buffer then in_use k r' - {w} else in_use k r')"
          "r' \<noteq> Pcb_ptr_buffer \<Longrightarrow> pa_size (P r') = room k r'" for r'
          using m(3) m2(1) by (simp_all add: pools_give_def)
        have "kernel_ok ?k"
        proof (rule handoff_ok [where H = Wait_getters and n = DSOS_CALL_BQ_GET and q = q, OF ok _ w refl])
          show "queues_ok ?k" using S(9) w by (auto simp: queues_ok_def m m2)
          show "loose (lists ?k) r'" if "running k = Some r'" for r'
            using that gr run running_loose [OF ok run] m(2) m2(3) by simp
        qed (use gr P in \<open>auto simp: m m2 upd_pcb_at\<close>)
        moreover have "delivered q r (syscall_args (pcbs k r) 1) k ?k"
          unfolding delivered_def
          by (rule exI [of _ w], rule exI [of _ ws], rule exI [of _ m2], rule exI [of _ P]) (use m(3) in \<open>simp add: w m(1) m2 pools_give_def\<close>)
        ultimately show ?thesis by simp
      qed
      done
    done
qed

text \<open>The state after a put that stores its value.\<close>

definition buffered :: "ptr \<Rightarrow> ptr \<Rightarrow> int \<Rightarrow> kernel \<Rightarrow> kernel \<Rightarrow> bool" where [effects]:
  "buffered q r v k k' \<longleftrightarrow> (\<exists>it m P. unlisted (lists k) it \<and>
     contents m = (lst k)(Items q := lst k (Items q) @ [it]) \<and> (\<forall>r'. room k r' - 1 \<le> pa_size (P r')) \<and> live (P Pcb_buffer) = in_use k Pcb_buffer \<and>
     k' = set_retvalue r 0 (upd_bqueue q (\<lambda>b. b\<lparr>bq_size := bq_size b + 1\<rparr>)
       (k\<lparr>pools := P, bq_items := (bq_items k)(it := v), lists := m\<rparr>)))"

lemma push_item_rule:
  assumes inv: "struct_inv (lists k) (pools k)" and it: "loose (lists k) it" "it \<in> in_use k Bqitem_buffer"
    and Q: "\<And>m. struct_inv m (pools k) \<Longrightarrow> contents m = (lst k)(Items q := lst k (Items q) @ [it]) \<Longrightarrow>
      (\<And>x. x \<noteq> it \<Longrightarrow> loose (lists k) x \<Longrightarrow> loose m x) \<Longrightarrow>
      Q (upd_bqueue q (\<lambda>b. b\<lparr>bq_size := bq_size b + 1\<rparr>) (k\<lparr>bq_items := (bq_items k)(it := v), lists := m\<rparr>))"
  shows "ok_with (push_item q it v k) Q"
  unfolding push_item_def Let_def
  apply (simp add: ok_with_and_then)
  apply (rule append_rule)
  subgoal using inv by simp
  subgoal using it by simp
  subgoal using it by simp
  subgoal for m using Q [of m] by simp
  done

lemma buffer_rule:
  assumes inv: "struct_inv (lists k) (pools k)" and room: "0 < room k Bqitem_buffer"
    and Q: "\<And>it m P. struct_inv m P \<Longrightarrow> unlisted (lists k) it \<Longrightarrow> contents m = (lst k)(Items q := lst k (Items q) @ [it]) \<Longrightarrow>
      (\<And>x. x \<noteq> it \<Longrightarrow> loose (lists k) x \<Longrightarrow> loose m x) \<Longrightarrow> pools_take (pools k) Bqitem_buffer it P \<Longrightarrow>
      Q (upd_bqueue q (\<lambda>b. b\<lparr>bq_size := bq_size b + 1\<rparr>) (k\<lparr>pools := P, bq_items := (bq_items k)(it := v), lists := m\<rparr>))"
  shows "ok_with (BQItem_alloc k) (\<lambda>(it', k1). \<exists>it. it' = Some it \<and> ok_with (push_item q it v k1) Q)"
  apply (rule BQItem_alloc_rule [OF inv])
  subgoal using room by simp
  subgoal for it m P
    apply simp
    apply (rule push_item_rule)
    subgoal by simp
    subgoal by simp
    subgoal by (simp add: pools_take_def)
    subgoal for m2
      using Q [of m2 P it] struct_dead_unlisted [OF inv, of it]
      by (simp add: pools_take_def)
    done
  done

lemma buffer_state_ok:
  assumes ok: "kernel_ok k" and q: "q \<in> set (lst k Bq_registry)"
    and cap: "int (length (lst k (Items q))) < bq_capacity (bqueues k q)" and none: "lst k (Wait_getters q) = []"
    and m: "struct_inv m P" "unlisted (lists k) it" "contents m = (lst k)(Items q := lst k (Items q) @ [it])"
      "\<And>x. x \<noteq> it \<Longrightarrow> loose (lists k) x \<Longrightarrow> loose m x" "pools_take (pools k) Bqitem_buffer it P"
  shows "kernel_ok (upd_bqueue q (\<lambda>b. b\<lparr>bq_size := bq_size b + 1\<rparr>)
    (k\<lparr>pools := P, bq_items := (bq_items k)(it := v), lists := m\<rparr>))" (is "kernel_ok ?k")
proof (rule objects_ok [OF ok])
  note S = kernel_okD [OF ok]
  have P: "in_use ?k r' = (if r' = Bqitem_buffer then insert it (in_use k r') else in_use k r')"
    "r' \<noteq> Bqitem_buffer \<Longrightarrow> room ?k r' = room k r'" for r'
    using m(5) by (simp_all add: pools_take_def)
  show "loose (lists ?k) x" if "x \<in> in_use k Pcb_buffer" "loose (lists k) x" for x
    using m(4) [of x] that pcb_not_block [OF S(1) m(5) _ that(1)] by simp
  show "queues_ok ?k" using S(9) q cap none by (auto simp: queues_ok_def m(3) bq_size_at)
  show "descriptors_ok ?k" by (rule descriptors_frame [OF S(10)]) (use P in \<open>simp_all add: m(3)\<close>)
  show "leak_free ?k"
  proof (rule leak_update [OF S(11)])
    fix x assume "x \<in> in_use ?k Bqitem_buffer"
    then show "(\<exists>q. x \<in> set (lst ?k (Items q))) \<or>
      x \<in> in_use k Bqitem_buffer \<and> (\<forall>q. x \<in> set (lst k (Items q)) \<longrightarrow> x \<in> set (lst ?k (Items q)))"
      using P by (cases "x = it") (auto simp: m(3))
  qed (use P in \<open>simp_all add: m(3)\<close>)
  show "lst ?k h = lst k h" if "kind h \<in> {Pcb_buffer, Timer_item_buffer, Pcb_ptr_buffer}" for h
    using that by (auto simp: m(3))
  show "in_use ?k Pcb_buffer = in_use k Pcb_buffer" using P by simp
qed (use m in simp_all)

lemma put_cases:
  assumes ok: "kernel_ok k" and run: "running k = Some r"
    and q: "bqueue_named (to_int (syscall_args (pcbs k r) 0)) k = Some q"
    and none: "lst k (Wait_getters q) = []"
  shows "internal_bq_put k =
    (if int (length (lst k (Items q))) < bq_capacity (bqueues k q) then
       and_then (BQItem_alloc k) (\<lambda>(it', k1). case it' of
             None \<Rightarrow> Inr (set_retvalue r DSOS_ESYSCALL_NOT_IMPLEMENTED k1)
           | Some it \<Rightarrow>
               and_then (push_item q it (syscall_args (pcbs k r) 1) k1) (\<lambda>k2. Inr (set_retvalue r 0 k2)))
     else block_on (Wait_putters q) r k)"
proof -
  note S = kernel_okD [OF ok]
  have "bq_size (bqueues k q) = int (length (lst k (Items q)))"
    using S(9) bqueue_named_in [OF q] by (simp add: queues_ok_def)
  then show ?thesis
    by (simp add: internal_bq_put_def run Let_def BQ_byId_lst [OF S(1)] q list_first_lst [OF S(1)] none del: One_nat_def)
qed

lemma put_buffer_ok:
  assumes ok: "kernel_ok k" and run: "running k = Some r"
    and q: "bqueue_named (to_int (syscall_args (pcbs k r) 0)) k = Some q"
    and none: "lst k (Wait_getters q) = []"
    and cap: "int (length (lst k (Items q))) < bq_capacity (bqueues k q)" and room: "0 < room k Bqitem_buffer"
  shows "ok_with (internal_bq_put k) (\<lambda>k'. kernel_ok k' \<and> buffered q r (syscall_args (pcbs k r) 1) k k')"
proof -
  note S = kernel_okD [OF ok]
  have "ok_with (BQItem_alloc k) (\<lambda>(it', k1). \<exists>it. it' = Some it \<and> ok_with (push_item q it (syscall_args (pcbs k r) 1) k1)
    (\<lambda>k'. kernel_ok (set_retvalue r 0 k') \<and> buffered q r (syscall_args (pcbs k r) 1) k (set_retvalue r 0 k')))"
    apply (rule buffer_rule [OF S(1) room])
    subgoal for it m P
      apply (rule conjI)
      subgoal
        using buffer_state_ok [OF ok bqueue_named_in [OF q] cap none, of m P it "syscall_args (pcbs k r) 1"]
        by (auto intro!: upd_ok)
      subgoal
        unfolding buffered_def
        by (rule exI [of _ it], rule exI [of _ m], rule exI [of _ P]) (simp add: pools_take_def)
      done
    done
  then show ?thesis
    by (simp add: put_cases [OF ok run q none] cap ok_with_and_then) (erule ok_with_mono, auto simp: ok_with_and_then)
qed

lemma put_pool_full:
  assumes ok: "kernel_ok k" and run: "running k = Some r"
    and q: "bqueue_named (to_int (syscall_args (pcbs k r) 0)) k = Some q"
    and none: "lst k (Wait_getters q) = []"
    and cap: "int (length (lst k (Items q))) < bq_capacity (bqueues k q)" and room: "room k Bqitem_buffer \<le> 0"
  shows "internal_bq_put k = Inr (set_retvalue r DSOS_ESYSCALL_NOT_IMPLEMENTED k)"
  by (simp add: put_cases [OF ok run q none] cap BQItem_alloc_def get_none [OF kernel_okD(1) [OF ok] room])

lemma put_blocks:
  assumes ok: "kernel_ok k" and run: "running k = Some r" and call: "syscall_num (pcbs k r) = DSOS_CALL_BQ_PUT"
    and q: "bqueue_named (to_int (syscall_args (pcbs k r) 0)) k = Some q"
    and full: "bq_capacity (bqueues k q) \<le> int (length (lst k (Items q)))" and room: "0 < room k Pcb_ptr_buffer"
  shows "ok_with (internal_bq_put k) (\<lambda>k'. kernel_ok k' \<and> blocked_state (Wait_putters q) r k k')"
proof -
  note S = kernel_okD [OF ok]
  have Q: "0 < bq_capacity (bqueues k q)" "int (length (lst k (Items q))) \<le> bq_capacity (bqueues k q)"
    "lst k (Wait_getters q) \<noteq> [] \<longrightarrow> lst k (Items q) = []"
    using S(9) bqueue_named_in [OF q] by (auto simp: queues_ok_def)
  with full have none: "lst k (Wait_getters q) = []" by auto
  show ?thesis
    using full Q none call block_on_ok [OF ok run room, of "Wait_putters q" q] bqueue_named_in [OF q]
    by (simp add: put_cases [OF ok run q none])
qed

lemma put_unknown:
  assumes ok: "kernel_ok k" and run: "running k = Some r"
    and q: "bqueue_named (to_int (syscall_args (pcbs k r) 0)) k = None"
  shows "internal_bq_put k = Inr (set_retvalue r DSOS_ERESOURCENOFD k)"
  by (simp add: internal_bq_put_def run Let_def BQ_byId_lst [OF kernel_okD(1) [OF ok]] q)
end
