(* ===== verification/BQueue_Get.thy ===== *)
theory BQueue_Get
  imports BQueue_Put
begin

text \<open>
  \<open>disastrOS_bqGet\<close>, branch by branch: take an item, take an item and complete the first waiting put,
  block on an empty queue, unknown queue.
\<close>

section \<open>Get\<close>

lemma pop_rule:
  assumes inv: "struct_inv (lists k) (pools k)" and it: "lst k (Items q) = it # its"
    and Q: "\<And>m P. struct_inv m P \<Longrightarrow> contents m = (lst k)(Items q := its) \<Longrightarrow>
      (\<And>x. loose (lists k) x \<Longrightarrow> loose m x) \<Longrightarrow> pools_give (pools k) Bqitem_buffer it P \<Longrightarrow>
      Q (store_result outp (bq_items k it) (upd_bqueue q (\<lambda>b. b\<lparr>bq_size := bq_size b - 1\<rparr>) (k\<lparr>lists := m, pools := P\<rparr>)))"
  shows "ok_with (k_detach (Items q) (Some it) k) (\<lambda>(it', k1).
    ok_with (BQItem_free it' (store_result outp (bq_items k1 it') (upd_bqueue q (\<lambda>b. b\<lparr>bq_size := bq_size b - 1\<rparr>) k1)))
      (\<lambda>(_, k4). Q k4))"
  apply (rule detach_rule [OF inv])
  subgoal using it by simp
  subgoal for m
    apply (simp add: BQItem_free_def ok_with_and_then)
    apply (rule release_rule)
    subgoal by simp
    subgoal using struct_live [OF inv, of it "Items q"] it by simp
    subgoal by (simp add: loose_def)
    subgoal for P using Q [of m P] it by simp
    done
  done

lemma complete_put_rule:
  assumes inv: "struct_inv (lists k) (pools k)" and w: "lst k (Wait_putters q) = w # ws"
    and p: "pcb_ptrs k w \<in> set (lst k Waiting_list)" and room: "0 < room k Bqitem_buffer"
    and Q: "\<And>it m P. struct_inv m P \<Longrightarrow> unlisted (lists k) it \<Longrightarrow>
      contents m = (lst k)(Wait_putters q := ws, Items q := lst k (Items q) @ [it],
        Waiting_list := remove1 (pcb_ptrs k w) (lst k Waiting_list), Ready_list := lst k Ready_list @ [pcb_ptrs k w]) \<Longrightarrow>
      (\<And>x. x \<in> in_use k Pcb_buffer \<Longrightarrow> x \<noteq> pcb_ptrs k w \<Longrightarrow> loose (lists k) x \<Longrightarrow> loose m x) \<Longrightarrow>
      (\<And>r'. live (P r') = (if r' = Bqitem_buffer then insert it (in_use k r')
        else if r' = Pcb_ptr_buffer then in_use k r' - {w} else in_use k r')) \<Longrightarrow>
      (\<And>r'. pa_size (P r') = (if r' = Bqitem_buffer then room k r' - 1 else if r' = Pcb_ptr_buffer then room k r' + 1 else room k r')) \<Longrightarrow>
      Q (upd_pcb (pcb_ptrs k w) (\<lambda>b. b\<lparr>syscall_retvalue := 0, status := Ready\<rparr>)
         (upd_bqueue q (\<lambda>b. b\<lparr>bq_size := bq_size b + 1\<rparr>)
           (k\<lparr>pools := P, bq_items := (bq_items k)(it := syscall_args (pcbs k (pcb_ptrs k w)) 1), lists := m\<rparr>)))"
  shows "ok_with (complete_put q k) Q"
  unfolding complete_put_def list_first_lst [OF inv]
  apply (simp add: ok_with_and_then)
  apply (rule take_waiter_rule [OF inv w])
  subgoal by simp
  subgoal for m P
    apply (simp add: Let_def ok_with_and_then)
    apply (rule ok_with_mono [OF buffer_rule [where q = q and v = "syscall_args (pcbs k (pcb_ptrs k w)) 1" and
            Q = "\<lambda>k3. ok_with (wake_ready (pcb_ptrs k w) (set_retvalue (pcb_ptrs k w) 0 k3)) Q"]])
    subgoal by simp
    subgoal using room by (simp add: pools_give_def)
    subgoal for it m2 P2
      apply (rule wake_ready_rule)
      subgoal by simp
      subgoal using p by simp
      subgoal for m3
        apply (rule back_subst [where P = Q, OF Q [of m3 P2 it]])
              apply (simp_all add: pools_give_def pools_take_def fun_upd_twist)
        subgoal using struct_dead_unlisted [OF inv, of it] by simp
        subgoal for x using struct_region [OF inv, of x Pcb_buffer] by (cases "x = it") auto
        done
      done
    subgoal by (auto simp: ok_with_and_then)
    done
  done

text \<open>The state after a get that takes an item: alone, or with the first waiting put completed.\<close>

definition taken :: "ptr \<Rightarrow> ptr \<Rightarrow> int \<Rightarrow> kernel \<Rightarrow> kernel \<Rightarrow> bool" where [effects]:
  "taken q r outp k k' \<longleftrightarrow> (\<exists>it its m P. lst k (Items q) = it # its \<and>
     contents m = (lst k)(Items q := its) \<and> (\<forall>r'. room k r' - 1 \<le> pa_size (P r')) \<and> live (P Pcb_buffer) = in_use k Pcb_buffer \<and>
     k' = set_retvalue r 0 (store_result outp (bq_items k it)
        (upd_bqueue q (\<lambda>b. b\<lparr>bq_size := bq_size b - 1\<rparr>) (k\<lparr>lists := m, pools := P\<rparr>))))"

definition refilled :: "ptr \<Rightarrow> ptr \<Rightarrow> int \<Rightarrow> kernel \<Rightarrow> kernel \<Rightarrow> bool" where [effects]:
  "refilled q r outp k k' \<longleftrightarrow> (\<exists>it its it2 w ws m P.
     lst k (Items q) = it # its \<and> lst k (Wait_putters q) = w # ws \<and> it2 \<notin> set its \<and>
     contents m = (lst k)(Items q := its @ [it2], Wait_putters q := ws,
       Waiting_list := remove1 (pcb_ptrs k w) (lst k Waiting_list), Ready_list := lst k Ready_list @ [pcb_ptrs k w]) \<and>
     (\<forall>r'. room k r' - 1 \<le> pa_size (P r')) \<and> live (P Pcb_buffer) = in_use k Pcb_buffer \<and>
     k' = set_retvalue r 0 (upd_pcb (pcb_ptrs k w) (\<lambda>b. b\<lparr>syscall_retvalue := 0, status := Ready\<rparr>)
        (store_result outp (bq_items k it) (k\<lparr>bq_items := (bq_items k)(it2 := syscall_args (pcbs k (pcb_ptrs k w)) 1),
           lists := m, pools := P\<rparr>))))"

lemma get_eq:
  assumes ok: "kernel_ok k" and run: "running k = Some r"
    and q: "bqueue_named (to_int (syscall_args (pcbs k r) 0)) k = Some q"
  shows "internal_bq_get k =
    (case lst k (Items q) of
       [] \<Rightarrow> block_on (Wait_getters q) r k
     | it # its \<Rightarrow> 
        and_then (k_detach (Items q) (Some it) k) (\<lambda>(it', k1).
        and_then (BQItem_free it' (store_result (syscall_args (pcbs k r) 1) (bq_items k1 it')
            (upd_bqueue q (\<lambda>b. b\<lparr>bq_size := bq_size b - 1\<rparr>) k1))) (\<lambda>(_, k4).
           and_then
             (if list_first (Wait_putters q) k4 \<noteq> None then complete_put q k4 else Inr k4)
             (\<lambda>k5. Inr (set_retvalue r 0 k5)))))"
proof -
  note S = kernel_okD [OF ok]
  have "lst k (Wait_putters q) = []" if "lst k (Items q) = []"
    using S(9) bqueue_named_in [OF q] that by (auto simp: queues_ok_def)
  then show ?thesis
    by (auto simp: internal_bq_get_def run Let_def BQ_byId_lst [OF S(1)] q list_first_lst [OF S(1)] split: list.split
      simp del: One_nat_def)
qed

lemma get_blocks:
  assumes ok: "kernel_ok k" and run: "running k = Some r" and call: "syscall_num (pcbs k r) = DSOS_CALL_BQ_GET"
    and q: "bqueue_named (to_int (syscall_args (pcbs k r) 0)) k = Some q"
    and none: "lst k (Items q) = []" and room: "0 < room k Pcb_ptr_buffer"
  shows "ok_with (internal_bq_get k) (\<lambda>k'. kernel_ok k' \<and> blocked_state (Wait_getters q) r k k')"
proof -
  note S = kernel_okD [OF ok]
  have "lst k (Wait_putters q) = []"
    using S(9) bqueue_named_in [OF q] none by (auto simp: queues_ok_def)
  then show ?thesis
    using none call block_on_ok [OF ok run room, of "Wait_getters q" q] bqueue_named_in [OF q]
    by (simp add: get_eq [OF ok run q])
qed

lemma take_state_ok:
  assumes ok: "kernel_ok k" and it: "lst k (Items q) = it # its"
    and none: "lst k (Wait_putters q) = []"
    and m: "struct_inv m P" "contents m = (lst k)(Items q := its)"
      "\<And>x. loose (lists k) x \<Longrightarrow> loose m x" "pools_give (pools k) Bqitem_buffer it P"
  shows "kernel_ok (store_result outp v (upd_bqueue q (\<lambda>b. b\<lparr>bq_size := bq_size b - 1\<rparr>) (k\<lparr>lists := m, pools := P\<rparr>)))"
    (is "kernel_ok ?k")
proof (rule objects_ok [OF ok])
  note S = kernel_okD [OF ok]
  have P: "in_use ?k r' = (if r' = Bqitem_buffer then in_use k r' - {it} else in_use k r')"
    "r' \<noteq> Bqitem_buffer \<Longrightarrow> room ?k r' = room k r'" for r'
    using m(4) by (simp_all add: pools_give_def)
  show "queues_ok ?k" using S(9) it none by (auto simp: queues_ok_def m(2) bq_size_at)
  show "descriptors_ok ?k" by (rule descriptors_frame [OF S(10)]) (use P in \<open>simp_all add: m(2)\<close>)
  show "leak_free ?k"
  proof (rule leak_update [OF S(11)])
    fix x assume "x \<in> in_use ?k Bqitem_buffer"
    then show "(\<exists>q. x \<in> set (lst ?k (Items q))) \<or>
      x \<in> in_use k Bqitem_buffer \<and> (\<forall>q. x \<in> set (lst k (Items q)) \<longrightarrow> x \<in> set (lst ?k (Items q)))"
      using P it by (auto simp: m(2))
  qed (use P in \<open>simp_all add: m(2)\<close>)
  show "lst ?k h = lst k h" if "kind h \<in> {Pcb_buffer, Timer_item_buffer, Pcb_ptr_buffer}" for h
    using that by (auto simp: m(2))
  show "in_use ?k Pcb_buffer = in_use k Pcb_buffer" using P by simp
qed (use m in simp_all)

lemma get_takes:
  assumes ok: "kernel_ok k" and run: "running k = Some r"
    and q: "bqueue_named (to_int (syscall_args (pcbs k r) 0)) k = Some q"
    and it: "lst k (Items q) = it # its" and none: "lst k (Wait_putters q) = []"
  shows "ok_with (internal_bq_get k) (\<lambda>k'. kernel_ok k' \<and> taken q r (syscall_args (pcbs k r) 1) k k')"
proof -
  note S = kernel_okD [OF ok]
  show ?thesis
    unfolding get_eq [OF ok run q] it list.case ok_with_and_then ok_with_case_prod
    apply (rule pop_rule [OF S(1) it])
    subgoal for m P
      apply (simp add: list_first_lst none del: One_nat_def)
      apply (rule conjI)
      subgoal
        using take_state_ok [OF ok it none, of m P "syscall_args (pcbs k r) 1" "bq_items k it"] by (auto intro!: upd_ok)
      subgoal
        unfolding taken_def
        by (rule exI [of _ it], rule exI [of _ its], rule exI [of _ m], rule exI [of _ P]) (simp add: it pools_give_def)
      done
    done
qed

lemma size_back_and_forth:
  "upd_bqueue q (\<lambda>b. b\<lparr>bq_size := bq_size b + 1\<rparr>)
     (store_result a v (upd_bqueue q (\<lambda>b. b\<lparr>bq_size := bq_size b - 1\<rparr>) k)) = store_result a v k"
  by (simp add: upd_bqueue_def store_result_def fun_upd_idem)

lemma refill_state_ok:
  assumes ok: "kernel_ok k" and run: "running k = Some r" and q: "q \<in> set (lst k Bq_registry)"
    and it: "lst k (Items q) = it # its" and w: "lst k (Wait_putters q) = w # ws"
    and m: "struct_inv m P"
      "contents m = (lst k)(Items q := its @ [it2], Wait_putters q := ws,
       Waiting_list := remove1 (pcb_ptrs k w) (lst k Waiting_list), Ready_list := lst k Ready_list @ [pcb_ptrs k w])"
      "loose m r"
      "\<And>r'. live (P r') = (if r' = Bqitem_buffer then insert it2 (in_use k r' - {it})
        else if r' = Pcb_ptr_buffer then in_use k r' - {w} else in_use k r')"
      "\<And>r'. r' \<noteq> Bqitem_buffer \<Longrightarrow> r' \<noteq> Pcb_ptr_buffer \<Longrightarrow> pa_size (P r') = room k r'"
  shows "kernel_ok (upd_pcb (pcb_ptrs k w) (\<lambda>b. b\<lparr>syscall_retvalue := 0, status := Ready\<rparr>)
        (store_result outp v (k\<lparr>pools := P, bq_items := i, lists := m\<rparr>)))" (is "kernel_ok ?k")
proof (rule handoff_ok [where H = Wait_putters and n = DSOS_CALL_BQ_PUT and q = q, OF ok _ w refl])
  note S = kernel_okD [OF ok]
  show "queues_ok ?k" using S(9) q it w by (auto simp: queues_ok_def m(2))
  show "loose (lists ?k) x" if "running k = Some x" for x using that run m(3) by simp
qed (use m it in \<open>auto simp: upd_pcb_at\<close>)

lemma get_refills:
  assumes ok: "kernel_ok k" and run: "running k = Some r"
    and q: "bqueue_named (to_int (syscall_args (pcbs k r) 0)) k = Some q"
    and it: "lst k (Items q) = it # its" and some: "lst k (Wait_putters q) \<noteq> []"
  shows "ok_with (internal_bq_get k) (\<lambda>k'. kernel_ok k' \<and> refilled q r (syscall_args (pcbs k r) 1) k k')"
proof -
  note S = kernel_okD [OF ok]
  obtain w ws where w: "lst k (Wait_putters q) = w # ws" using some by (cases "lst k (Wait_putters q)") auto
  have pw: "pcb_ptrs k w \<in> set (lst k Waiting_list)"
    using waiters_blocked [OF S(7), of w q] w by (simp add: blocked_def)
  have pr: "pcb_ptrs k w \<noteq> r" using pw running_notin [OF ok run] by auto
  have rl: "r \<in> in_use k Pcb_buffer" "loose (lists k) r" using S(2) run by (auto simp: sched_ok_def)
  have room0: "0 \<le> room k Bqitem_buffer"
    using struct_pool_ok [OF S(1), of Bqitem_buffer] by (auto simp: pool_ok_def pool_rep_def)
  show ?thesis
    unfolding get_eq [OF ok run q] it list.case ok_with_and_then ok_with_case_prod
    apply (rule pop_rule [OF S(1) it])
    subgoal for m P
      apply (simp add: list_first_lst w ok_with_and_then)
      apply (rule complete_put_rule [where w = w and ws = ws])
      subgoal by simp
      subgoal by (simp add: w)
      subgoal using pw by simp
      subgoal using room0 by (simp add: pools_give_def)
      subgoal for it2 m2 P2
        apply (simp add: size_back_and_forth)
        apply (rule conjI)
        subgoal
          apply (rule upd_ok)
          apply (rule refill_state_ok [where ?it2.0 = it2, OF ok run bqueue_named_in [OF q] it w])
          subgoal by simp
          subgoal by (simp add: fun_upd_twist)
          subgoal using pr rl by (simp add: pools_give_def)
          subgoal by (simp add: pools_give_def)
          subgoal by (simp add: pools_give_def)
          apply simp_all
          done
        subgoal
          unfolding refilled_def
          apply (rule exI [of _ it], rule exI [of _ its], rule exI [of _ it2], rule exI [of _ w], rule exI [of _ ws], rule exI [of _ m2], rule exI [of _ P2])
          apply (simp add: it w fun_upd_twist)
          apply (rule conjI)
          subgoal unfolding unlisted_def by (drule spec [of _ "Items q"]) simp
          apply (rule conjI)
          subgoal by (simp add: pools_give_def)
          apply (rule conjI)
          subgoal by (simp add: pools_give_def)
          subgoal by (rule kernel.equality; simp add: upd_pcb_def store_result_def)
          done
        done
      done
    done
qed

lemma get_unknown:
  assumes ok: "kernel_ok k" and run: "running k = Some r"
    and q: "bqueue_named (to_int (syscall_args (pcbs k r) 0)) k = None"
  shows "internal_bq_get k = Inr (set_retvalue r DSOS_ERESOURCENOFD k)"
  by (simp add: internal_bq_get_def run Let_def BQ_byId_lst [OF kernel_okD(1) [OF ok]] q)

end
