(* ===== verification/Printing.thy ===== *)
theory Printing
  imports Kernel_Ops
begin

text \<open>
  The debug output: under the structural invariant every print function of the kernel terminates
  without going wrong, so \<open>disastrOS_printStatus\<close> only appends to the output.
\<close>

text \<open>
  The print loop visits the items of the list in order; when each item can be printed, so can the
  list, and the state is only read.
\<close>

fun print_all :: "(ptr \<Rightarrow> bool \<Rightarrow> string) \<Rightarrow> ptr list \<Rightarrow> string" where
  "print_all f [] = []"
| "print_all f (p # ps) = f p (ps \<noteq> []) @ print_all f ps"

lemma print_dseg:
  assumes "\<And>p b. p \<in> set xs \<Longrightarrow> elem p b = Inr (f p b)"
  shows "dseg (node m) q p xs q' None \<Longrightarrow>
   c_while (\<lambda>(aux, out). aux \<noteq> None)
          (\<lambda>(aux, out). and_then (deref aux) (\<lambda>p.
             let nxt = li_next (node m p)
             in and_then (elem p (nxt \<noteq> None)) (\<lambda>s. Inr (nxt, out @ s)))) (p, out)
     = Inr (None, out @ print_all f xs)"
  using assms
proof (induction xs arbitrary: q p out)
  case Nil
  then show ?case by (simp add: c_while_stop)
next
  case (Cons x xs)
  have "(li_next (node m x) \<noteq> None) = (xs \<noteq> [])"
    using dseg_hd [of "node m" "Some x" "li_next (node m x)" xs q' None] Cons.prems(1) by auto
  with Cons.prems Cons.IH [of "Some x" "li_next (node m x)" "out @ f x (xs \<noteq> [])"] show ?case
    by (simp add: c_while_step Let_def)
qed

lemma print_items_lst:
  assumes inv: "struct_inv (lists k) (pools k)"
    and "\<And>p b. p \<in> set (lst k h) \<Longrightarrow> elem p b = Inr (f p b)"
  shows "print_items elem h k = Inr (print_all f (lst k h))"
proof -
  have "dseg (node (lists k)) None (list_first h k) (lst k h) (lh_last (head (lists k) h)) None"
    using lists_ok_dlist [OF struct_lists_ok [OF inv], of h] by (simp add: dlist_def list_first_def)
  from print_dseg [where elem = elem and f = f and out = "[]", OF assms(2) this] show ?thesis
    by (simp add: print_items_def)
qed

lemma print_items_total:
  assumes inv: "struct_inv (lists k) (pools k)" and "\<And>p b. \<exists>s. elem p b = Inr s"
  shows "\<exists>s. and_then (print_items elem h k) (\<lambda>s. Inr (g s)) = Inr s"
proof -
  from assms(2) obtain f where "\<And>p b. elem p b = Inr (f p b)" by metis
  with print_items_lst [OF inv, of h elem f] show ?thesis by simp
qed

lemma then_total: "\<exists>s. r = Inr s \<Longrightarrow> \<exists>s. and_then r (\<lambda>s. Inr (g s)) = Inr s"
  by auto

lemma prints_total:
  assumes inv: "struct_inv (lists k) (pools k)"
  shows "\<exists>s. PCBPtrList_print h k = Inr s" and "\<exists>s. PCB_print p k = Inr s"
    and "\<exists>s. PCBList_print h k = Inr s" and "\<exists>s. TimerList_print h k = Inr s"
    and "\<exists>s. Resource_print p k = Inr s" and "\<exists>s. ResourceList_print h k = Inr s"
proof -
  note total = print_items_total [OF inv]
  show ptr: "\<exists>s. PCBPtrList_print h k = Inr s" for h
    unfolding PCBPtrList_print_def by (rule total) (rule exI, rule refl)
  show pcb: "\<exists>s. PCB_print p k = Inr s" for p
    unfolding PCB_print_def by (rule then_total [OF ptr])
  show "\<exists>s. PCBList_print h k = Inr s"
    unfolding PCBList_print_def by (rule total) (rule then_total [OF pcb])
  show "\<exists>s. TimerList_print h k = Inr s"
    unfolding TimerList_print_def by (rule total) (rule exI, rule refl)
  show res: "\<exists>s. Resource_print p k = Inr s" for p
    unfolding Resource_print_def DescriptorPtrList_print_def Let_def
    by (rule then_total, rule total) (rule exI, rule refl)
  show "\<exists>s. ResourceList_print h k = Inr s"
    unfolding ResourceList_print_def by (rule total) (rule then_total [OF res])
qed

lemma printStatus_total:
  assumes "struct_inv (lists k) (pools k)"
  shows "\<exists>s. disastrOS_printStatus k = Inr (print_out s k)"
proof -
  have "\<exists>s. (case running k of None \<Rightarrow> Inr [] | Some r \<Rightarrow> PCB_print r k) = Inr s"
    using prints_total [OF assms] by (auto split: option.split)
  moreover note prints_total(4) [OF assms, of Timer_list] prints_total(6) [OF assms, of Resources_list]
    prints_total(3) [OF assms, of Ready_list] prints_total(3) [OF assms, of Waiting_list]
    prints_total(3) [OF assms, of Zombie_list]
  ultimately show ?thesis
    unfolding disastrOS_printStatus_def by (elim exE) (simp only: and_then.simps, rule exI, rule refl)
qed

end
