(* ===== verification/BQueue_Admin.thy ===== *)
theory BQueue_Admin
  imports BQueue_Get Printing
begin

text \<open>
  \<open>disastrOS_bqCreate\<close>, \<open>disastrOS_bqDelete\<close> and \<open>disastrOS_bqDump\<close>, branch by branch.  A queue is
  deleted only when nobody waits on it, so the assertions of \<open>BQ_free\<close> never fail.
\<close>

section \<open>Creation\<close>

text \<open>The arguments of the running process, as the handlers read them.\<close>

abbreviation arg_int :: "kernel \<Rightarrow> ptr \<Rightarrow> nat \<Rightarrow> int" where
  "arg_int k r i \<equiv> to_int (syscall_args (pcbs k r) i)"

definition bq_create_msg :: "ptr \<Rightarrow> kernel \<Rightarrow> string" where
  "bq_create_msg r k = ''bq_create(pid='' @ show_int (pid (pcbs k r)) @ '', id='' @ show_int (arg_int k r 0)
                @ '', cap='' @ show_int (arg_int k r 1) @ '')'' @ newline"

lemma bq_create_eq:
  assumes ok: "kernel_ok k" and run: "running k = Some r"
  shows "internal_bq_create k =
    (let k1 = print_out (bq_create_msg r k) k in
     if arg_int k r 1 \<le> 0 then Inr (set_retvalue r DSOS_ESYSCALL_ARGUMENT_OUT_OF_BOUNDS k1)
     else if bqueue_named (arg_int k r 0) k \<noteq> None then Inr (set_retvalue r DSOS_EEXIST k1)
     else and_then (BQ_alloc (arg_int k r 0) (arg_int k r 1) k1) (\<lambda>(q', k2).
       case q' of
         None \<Rightarrow> Inr (set_retvalue r DSOS_ESYSCALL_NOT_IMPLEMENTED k2)
       | Some q \<Rightarrow> and_then (k_append BQ_registry q k2) (\<lambda>k3. Inr (set_retvalue r 0 k3))))"
proof -
  note S = kernel_okD [OF ok]
  have "BQ_byId BQ_registry i (print_out s k) = Inr (bqueue_named i k)" for i s
    using BQ_byId_lst [of "print_out s k"] S(1) by (simp add: bqueue_named_def)
  then show ?thesis
    by (simp only: internal_bq_create_def bq_create_msg_def run deref.simps and_then.simps Let_def)
qed

lemma bq_create_refused:
  assumes ok: "kernel_ok k" and run: "running k = Some r"
  shows "arg_int k r 1 \<le> 0 \<Longrightarrow> internal_bq_create k =
      Inr (set_retvalue r DSOS_ESYSCALL_ARGUMENT_OUT_OF_BOUNDS (print_out (bq_create_msg r k) k))"
    and "0 < arg_int k r 1 \<Longrightarrow> bqueue_named (arg_int k r 0) k \<noteq> None \<Longrightarrow> internal_bq_create k =
      Inr (set_retvalue r DSOS_EEXIST (print_out (bq_create_msg r k) k))"
    and "0 < arg_int k r 1 \<Longrightarrow> bqueue_named (arg_int k r 0) k = None \<Longrightarrow> room k Bq_buffer \<le> 0 \<Longrightarrow>
      internal_bq_create k = Inr (set_retvalue r DSOS_ESYSCALL_NOT_IMPLEMENTED (print_out (bq_create_msg r k) k))"
  using get_none [of "print_out s k" Bq_buffer for s] kernel_okD(1) [OF ok]
  by (simp_all only: bq_create_eq [OF ok run] Let_def BQ_alloc_def print_out_frame) simp_all

lemma new_queue_ok:
  assumes ok: "kernel_ok k" and new: "bqueue_named qid k = None" and cap: "0 < cap"
    and P: "pools_take (pools k) Bq_buffer q P"
    and m: "struct_inv m P" "contents m = (lst k)(Bq_registry := lst k Bq_registry @ [q])"
      "\<And>x. x \<noteq> q \<Longrightarrow> loose (lists k) x \<Longrightarrow> loose m x"
  shows "kernel_ok (k\<lparr>pools := P, bqueues := (bqueues k)(q := \<lparr>bq_id = qid, bq_capacity = cap, bq_size = 0\<rparr>), lists := m\<rparr>)"
    (is "kernel_ok ?k")
proof (rule objects_ok [OF ok])
  note S = kernel_okD [OF ok]
  have fresh: "q \<notin> set (lst k Bq_registry)"
    using P struct_live [OF S(1), of q Bq_registry] by (auto simp: pools_take_def)
  have ids: "bq_id (bqueues k q') \<noteq> qid" if "q' \<in> set (lst k Bq_registry)" for q'
    using new that by (simp add: bqueue_named_def find_None_all)
  have empty: "lst k (Items q) = []" "lst k (Wait_getters q) = []" "lst k (Wait_putters q) = []"
    using S(9) fresh by (simp_all add: queues_ok_def)
  show "loose (lists ?k) x" if "x \<in> in_use k Pcb_buffer" "loose (lists k) x" for x
    using m(3) [of x] that pcb_not_block [OF S(1) P _ that(1)] by simp
  have "inj_on (\<lambda>q. bq_id (bqueues ?k q)) (set (lst ?k Bq_registry))"
    using S(9) fresh ids by (auto simp: queues_ok_def m(2) inj_on_def)
  then show "queues_ok ?k" using S(9) fresh cap empty by (simp add: queues_ok_def m(2))
  show "descriptors_ok ?k" by (rule descriptors_frame [OF S(10)]) (use P in \<open>simp_all add: m(2) pools_take_def\<close>)
  show "leak_free ?k" using S(11) P by (auto simp: leak_free_def m(2) pools_take_def)
  show "lst ?k h = lst k h" if "kind h \<in> {Pcb_buffer, Timer_item_buffer, Pcb_ptr_buffer}" for h
    using that by (auto simp: m(2))
qed (use m P in \<open>simp_all add: pools_take_def\<close>)

text \<open>The state after a successful creation.\<close>

definition created :: "ptr \<Rightarrow> int \<Rightarrow> int \<Rightarrow> kernel \<Rightarrow> kernel \<Rightarrow> bool" where [effects]:
  "created r qid cap k k' \<longleftrightarrow> (\<exists>q m P. q \<notin> set (lst k Bq_registry) \<and>
     contents m = (lst k)(Bq_registry := lst k Bq_registry @ [q]) \<and>
     (\<forall>r'. r' \<noteq> Bq_buffer \<longrightarrow> pa_size (P r') = room k r') \<and> live (P Pcb_buffer) = in_use k Pcb_buffer \<and>
     k' = set_retvalue r 0 ((print_out (bq_create_msg r k) k)\<lparr>pools := P,
       bqueues := (bqueues k)(q := \<lparr>bq_id = qid, bq_capacity = cap, bq_size = 0\<rparr>), lists := m\<rparr>))"

lemma new_queue_rule:
  assumes ok: "kernel_ok k" and new: "bqueue_named qid k = None" and cap: "0 < cap" and room: "0 < room k Bq_buffer"
    and Q: "\<And>q m P. q \<notin> set (lst k Bq_registry) \<Longrightarrow>
      contents m = (lst k)(Bq_registry := lst k Bq_registry @ [q]) \<Longrightarrow>
      (\<And>r'. r' \<noteq> Bq_buffer \<Longrightarrow> pa_size (P r') = room k r') \<Longrightarrow> live (P Pcb_buffer) = in_use k Pcb_buffer \<Longrightarrow>
      kernel_ok (k\<lparr>pools := P, bqueues := (bqueues k)(q := \<lparr>bq_id = qid, bq_capacity = cap, bq_size = 0\<rparr>), lists := m\<rparr>) \<Longrightarrow>
      Q (k\<lparr>pools := P, bqueues := (bqueues k)(q := \<lparr>bq_id = qid, bq_capacity = cap, bq_size = 0\<rparr>), lists := m\<rparr>)"
  shows "ok_with (BQ_alloc qid cap k) (\<lambda>(q', k2). \<exists>q. q' = Some q \<and> ok_with (k_append BQ_registry q k2) Q)"
proof -
  note S = kernel_okD [OF ok]
  show ?thesis
    apply (rule BQ_alloc_rule [OF S(1)])
    subgoal using room by simp
    subgoal for q m P
      apply (simp add: BQ_registry_def)
      apply (rule append_rule)
      subgoal by simp
      subgoal by simp
      subgoal by (simp add: pools_take_def)
      subgoal for m2
        using new_queue_ok [OF ok new cap, of q P m2] Q [of q m2 P] S(9) struct_live [OF S(1), of q Bq_registry]
        by (simp add: pools_take_def queues_ok_def fun_upd_idem) blast
      done
    done
qed

lemma bq_create_ok:
  assumes ok: "kernel_ok k" and run: "running k = Some r" and cap: "0 < arg_int k r 1"
    and new: "bqueue_named (arg_int k r 0) k = None" and room: "0 < room k Bq_buffer"
  shows "ok_with (internal_bq_create k) (\<lambda>k'. kernel_ok k' \<and> created r (arg_int k r 0) (arg_int k r 1) k k')"
proof -
  let ?k = "print_out (bq_create_msg r k) k"
  have "ok_with (BQ_alloc (arg_int k r 0) (arg_int k r 1) ?k) (\<lambda>(q', k2). \<exists>q. q' = Some q \<and>
    ok_with (k_append BQ_registry q k2) (\<lambda>k'. kernel_ok (set_retvalue r 0 k') \<and>
      created r (arg_int k r 0) (arg_int k r 1) k (set_retvalue r 0 k')))"
    apply (rule new_queue_rule [of ?k])
    subgoal using ok by simp
    subgoal using new by (simp add: bqueue_named_def)
    subgoal by (rule cap)
    subgoal using room by simp
    subgoal for q m P
      unfolding created_def by (auto intro!: upd_ok)
    done
  then show ?thesis
    using cap new
    apply (simp add: bq_create_eq [OF ok run] ok_with_and_then Let_def)
    apply (erule ok_with_mono)
    apply (auto simp: ok_with_and_then)
    done
qed

section \<open>Deletion\<close>

lemma bq_delete_refused:
  assumes ok: "kernel_ok k" and run: "running k = Some r"
  shows "bqueue_named (arg_int k r 0) k = None \<Longrightarrow>
      internal_bq_delete k = Inr (set_retvalue r DSOS_ERESOURCENOFD k)"
    and "bqueue_named (arg_int k r 0) k = Some q \<Longrightarrow> lst k (Wait_getters q) \<noteq> [] \<or> lst k (Wait_putters q) \<noteq> [] \<Longrightarrow>
      internal_bq_delete k = Inr (set_retvalue r DSOS_ERESOURCEINUSE k)"
  by (auto simp: internal_bq_delete_def run Let_def BQ_byId_lst [OF kernel_okD(1) [OF ok]]
      list_size_lst [OF kernel_okD(1) [OF ok]])

text \<open>The loop of \<open>BQ_free\<close>: every item of the queue goes back to the pool.\<close>

definition drained :: "ptr \<Rightarrow> kernel \<Rightarrow> kernel \<Rightarrow> bool" where
  "drained q k k' \<longleftrightarrow> (\<exists>m P its. k' = k\<lparr>lists := m, pools := P\<rparr> \<and> struct_inv m P \<and>
     (\<forall>x. loose (lists k) x \<longrightarrow> loose m x) \<and>
     contents m = (lst k)(Items q := its) \<and> set its \<subseteq> set (lst k (Items q)) \<and>
     (\<forall>r. live (P r) = (if r = Bqitem_buffer then in_use k r - (set (lst k (Items q)) - set its) else in_use k r)) \<and>
     (\<forall>r. r \<noteq> Bqitem_buffer \<longrightarrow> pa_size (P r) = room k r))"

lemma drain_step:
  assumes d: "drained q k k1" and it: "lst k1 (Items q) = it # its"
  shows "ok_with (and_then (k_detach (Items q) (list_first (Items q) k1) k1) (\<lambda>(it, k1).
            and_then (k_release Bqitem_buffer it k1) (\<lambda>(_, k2). Inr k2)))
    (\<lambda>k2. drained q k k2 \<and> lst k2 (Items q) = its)"
proof -
  from d it obtain m P where k1: "k1 = k\<lparr>lists := m, pools := P\<rparr>" and inv: "struct_inv m P"
    and l: "\<And>x. loose (lists k) x \<Longrightarrow> loose m x"
    and c: "contents m = (lst k)(Items q := it # its)" "set (it # its) \<subseteq> set (lst k (Items q))"
    and P: "\<And>r. live (P r) = (if r = Bqitem_buffer then in_use k r - (set (lst k (Items q)) - set (it # its)) else in_use k r)"
      "\<And>r. r \<noteq> Bqitem_buffer \<Longrightarrow> pa_size (P r) = room k r"
    unfolding drained_def by auto
  have i1: "struct_inv (lists k1) (pools k1)" using inv by (simp add: k1)
  have new: "it \<notin> set its" using struct_distinct [OF inv, of "Items q"] by (simp add: c)
  have live: "it \<in> in_use k1 Bqitem_buffer" using struct_live [OF inv, of it "Items q"] by (simp add: c k1)
  show ?thesis
    apply (simp add: ok_with_and_then)
    apply (rule detach_first_rule [OF i1 it])
    apply (simp add: ok_with_and_then)
    apply (rule release_rule)
    subgoal by simp
    subgoal using live by simp
    subgoal by (simp add: loose_def)
    subgoal for m2 P2
      using c l P new unfolding drained_def
      apply (simp only: prod.case)
      apply (rule conjI, rule exI [of _ m2], rule exI [of _ P2], rule exI [of _ its])
       apply (auto simp: k1 pools_give_def)
      done
    done
qed

lemma BQ_free_items_rule:
  assumes inv: "struct_inv (lists k) (pools k)"
  shows "ok_with (BQ_free_items q k) (\<lambda>k'. drained q k k' \<and> lst k' (Items q) = [])"
proof -
  have S: "struct_inv (lists k1) (pools k1)" if "drained q k k1" for k1
    using that by (auto simp: drained_def)
  have "ok_with (BQ_free_items q k) (\<lambda>k'. drained q k k' \<and> \<not> list_first (Items q) k' \<noteq> None)"
    unfolding BQ_free_items_def
  proof (rule c_while_rule [where m = "\<lambda>k1. length (lst k1 (Items q))"])
    fix k1 assume d: "drained q k k1" and "list_first (Items q) k1 \<noteq> None"
    then obtain it its where it: "lst k1 (Items q) = it # its"
      by (auto simp: list_first_lst [OF S] neq_Nil_conv)
    show "ok_with (and_then (k_detach (Items q) (list_first (Items q) k1) k1) (\<lambda>(it, k1).
            and_then (k_release Bqitem_buffer it k1) (\<lambda>(_, k2). Inr k2)))
        (\<lambda>k2. drained q k k2 \<and> length (lst k2 (Items q)) < length (lst k1 (Items q)))"
      by (rule ok_with_mono [OF drain_step [OF d it]]) (simp add: it)
  next
    show "drained q k k"
      unfolding drained_def using inv
      by (intro exI [of _ "lists k"] exI [of _ "pools k"] exI [of _ "lst k (Items q)"]) simp
  qed
  then show ?thesis by (rule ok_with_mono) (auto simp: list_first_lst [OF S])
qed


lemma delete_state_ok:
  assumes ok: "kernel_ok k" and q: "q \<in> set (lst k Bq_registry)"
    and none: "lst k (Wait_getters q) = []" "lst k (Wait_putters q) = []"
    and m: "struct_inv m P" "contents m = (lst k)(Bq_registry := remove1 q (lst k Bq_registry), Items q := [])"
      "\<And>x. loose (lists k) x \<Longrightarrow> loose m x"
    and P: "\<And>r'. live (P r') = (if r' = Bqitem_buffer then in_use k r' - set (lst k (Items q))
        else if r' = Bq_buffer then in_use k r' - {q} else in_use k r')"
      "\<And>r'. r' \<noteq> Bqitem_buffer \<Longrightarrow> r' \<noteq> Bq_buffer \<Longrightarrow> pa_size (P r') = room k r'"
  shows "kernel_ok (upd_bqueue q (\<lambda>b. b\<lparr>bq_size := 0\<rparr>) (k\<lparr>lists := m, pools := P\<rparr>))" (is "kernel_ok ?k")
proof (rule objects_ok [OF ok])
  note S = kernel_okD [OF ok]
  have d: "distinct (lst k Bq_registry)" by (rule struct_distinct [OF S(1)])
  have b: "bq_id (bqueues ?k x) = bq_id (bqueues k x)" "bq_capacity (bqueues ?k x) = bq_capacity (bqueues k x)"
    "x \<noteq> q \<Longrightarrow> bqueues ?k x = bqueues k x" for x
    by (simp_all add: upd_bqueue_def)
  have "inj_on (\<lambda>x. bq_id (bqueues k x)) (set (lst k Bq_registry) - {q})"
    using S(9) by (auto simp: queues_ok_def intro: inj_on_subset)
  then show "queues_ok ?k" using S(9) d none by (auto simp: queues_ok_def m(2) b)
  show "descriptors_ok ?k" by (rule descriptors_frame [OF S(10)]) (simp_all add: m(2) P)
  show "leak_free ?k" using S(11) d by (auto simp: leak_free_def m(2) P)
  show "lst ?k h = lst k h" if "kind h \<in> {Pcb_buffer, Timer_item_buffer, Pcb_ptr_buffer}" for h
    using that by (auto simp: m(2))
qed (use m P in \<open>simp_all\<close>)

text \<open>The state after a deletion: the queue and its items are gone from the registry and the pools.\<close>

definition deleted :: "ptr \<Rightarrow> ptr \<Rightarrow> kernel \<Rightarrow> kernel \<Rightarrow> bool" where [effects]:
  "deleted q r k k' \<longleftrightarrow> 
     lst k' = (lst k)(Bq_registry := remove1 q (lst k Bq_registry), Items q := []) \<and>
     in_use k' Bqitem_buffer = in_use k Bqitem_buffer - set (lst k (Items q)) \<and>
     in_use k' Bq_buffer = in_use k Bq_buffer - {q} \<and> running k' = Some r \<and>
     syscall_retvalue (pcbs k' r) = 0 \<and> log_file k' = log_file k \<and>
     (\<forall>q'. q' \<noteq> q \<longrightarrow> bqueues k' q' = bqueues k q') \<and> bq_items k' = bq_items k \<and> pcb_ptrs k' = pcb_ptrs k \<and>
     (\<forall>x. syscall_args (pcbs k' x) = syscall_args (pcbs k x)) \<and> in_use k' Pcb_buffer = in_use k Pcb_buffer \<and>
     (\<forall>x. cpu_state (pcbs k' x) = cpu_state (pcbs k x)) \<and> user_mem k' = user_mem k"

lemma upd_bqueue_other: "q' \<noteq> q \<Longrightarrow> bqueues (upd_bqueue q f k) q' = bqueues k q'"
  by (simp add: upd_bqueue_def)

lemma bq_delete_ok:
  assumes ok: "kernel_ok k" and run: "running k = Some r"
    and q: "bqueue_named (arg_int k r 0) k = Some q"
    and none: "lst k (Wait_getters q) = []" "lst k (Wait_putters q) = []"
  shows "ok_with (internal_bq_delete k) (\<lambda>k'. kernel_ok k' \<and> deleted q r k k')"
proof -
  note S = kernel_okD [OF ok]
  have reg: "q \<in> set (lst k Bq_registry)" by (rule bqueue_named_in [OF q])
  have live: "q \<in> in_use k Bq_buffer" using struct_live [OF S(1) reg] by simp
  show ?thesis
    unfolding internal_bq_delete_def run
    apply (simp add: Let_def BQ_byId_lst [OF S(1)] q list_size_lst [OF S(1)] none ok_with_and_then)
    apply (simp only: BQ_registry_def)
    apply (rule detach_rule [OF S(1) reg])
    subgoal for m
      apply (simp add: BQ_free_def Let_def ok_with_and_then)
      apply (rule ok_with_mono [OF BQ_free_items_rule])
      subgoal by simp
      subgoal for k1
      proof -
        assume m: "struct_inv m (pools k)" "contents m = (lst k)(Bq_registry := remove1 q (lst k Bq_registry))"
          "loose m q" "\<And>x. loose (lists k) x \<Longrightarrow> loose m x"
        assume "drained q (k\<lparr>lists := m\<rparr>) k1 \<and> lst k1 (Items q) = []"
        then obtain m1 P1 where k1: "k1 = k\<lparr>lists := m1, pools := P1\<rparr>" and inv: "struct_inv m1 P1"
          and l: "\<And>x. loose m x \<Longrightarrow> loose m1 x"
          and c: "contents m1 = (lst k)(Bq_registry := remove1 q (lst k Bq_registry), Items q := [])"
          and P: "\<And>r. live (P1 r) = (if r = Bqitem_buffer then in_use k r - set (lst k (Items q)) else in_use k r)"
            "\<And>r. r \<noteq> Bqitem_buffer \<Longrightarrow> pa_size (P1 r) = room k r"
          unfolding drained_def by (auto simp: m(2))
        have "list_size (Wait_getters q) k1 = 0" "list_size (Wait_putters q) k1 = 0"
          using inv none by (simp_all add: k1 list_size_lst c)
        then have z: "list_size (Wait_getters q) (upd_bqueue q f k1) = 0" "list_size (Wait_putters q) (upd_bqueue q f k1) = 0" for f
          by (simp_all add: list_reads)
        have dead: "unlisted m1 q" using l [OF m(3)] by (simp add: loose_def)
        show ?thesis
          apply (simp add: z ok_with_and_then)
          apply (rule release_rule)
          subgoal using inv by (simp add: k1)
          subgoal using live by (simp add: k1 P)
          subgoal using dead by (simp add: k1)
          subgoal for P2
            using delete_state_ok [OF ok reg none, of m1 P2] m(4) l c P run
            unfolding deleted_def k1 pools_give_def
            by (auto intro!: upd_ok simp: upd_bqueue_other)
          done
      qed
      done
    done
qed


section \<open>The dump\<close>

lemma len_dseg:
  "dseg (node m) q p xs q' None \<Longrightarrow>
   c_while (\<lambda>(it, n). it \<noteq> None) (\<lambda>(it, n). and_then (deref it) (\<lambda>p. Inr (li_next (node m p), n + 1))) (p, n)
     = Inr (None, n + int (length xs))"
proof (induction xs arbitrary: q p n)
  case Nil
  then show ?case by (simp add: c_while_stop)
next
  case (Cons x xs)
  with Cons.IH [of "Some x" "li_next (node m x)" "n + 1"] show ?case
    by (simp add: c_while_step)
qed

lemma list_len_lst:
  assumes inv: "struct_inv (lists k) (pools k)"
  shows "list_len h k = Inr (int (length (lst k h)))"
proof -
  have "dseg (node (lists k)) None (list_first h k) (lst k h) (lh_last (head (lists k) h)) None"
    using lists_ok_dlist [OF struct_lists_ok [OF inv], of h] by (simp add: dlist_def list_first_def)
  from len_dseg [OF this, of 0] show ?thesis by (simp add: list_len_def)
qed

text \<open>The dump only writes output: the items in order and the two waiting counts.\<close>

lemma bq_dump_eq:
  assumes ok: "kernel_ok k" and run: "running k = Some r"
  shows "internal_bq_dump k =
    (case bqueue_named (arg_int k r 0) k of
       None \<Rightarrow> Inr (set_retvalue r DSOS_ERESOURCENOFD k)
     | Some q \<Rightarrow> Inr (set_retvalue r 0 (print_out
         (''BQ['' @ show_int (bq_id (bqueues k q)) @ ''] size='' @ show_int (bq_size (bqueues k q))
            @ ''/'' @ show_int (bq_capacity (bqueues k q)) @ '' items=[''
            @ print_all (\<lambda>it nxt. show_int (bq_items k it) @ comma nxt) (lst k (Items q))
            @ ''] wait_putters='' @ show_int (int (length (lst k (Wait_putters q))))
            @ '' wait_getters='' @ show_int (int (length (lst k (Wait_getters q)))) @ newline) k)))"
proof -
  note inv = kernel_okD(1) [OF ok]
  have "print_items (\<lambda>it nxt. Inr (show_int (bq_items k it) @ comma nxt)) h k =
    Inr (print_all (\<lambda>it nxt. show_int (bq_items k it) @ comma nxt) (lst k h))" for h
    by (rule print_items_lst [OF inv]) (rule refl)
  then show ?thesis
    by (simp only: internal_bq_dump_def run deref.simps and_then.simps Let_def BQ_byId_lst [OF inv] list_len_lst [OF inv])
qed

lemma bq_dump_ok:
  assumes ok: "kernel_ok k" and run: "running k = Some r"
  shows "ok_with (internal_bq_dump k) (\<lambda>k'. kernel_ok k' \<and> running k' = Some r \<and> lists k' = lists k \<and> pools k' = pools k)"
  using ok run by (auto simp only: bq_dump_eq [OF ok run] split: option.split) (auto simp: upd_ok)

end
