(* ===== verification/BQueue_Spec.thy ===== *)
theory BQueue_Spec
  imports BQueue_Admin
begin

text \<open>
  The contract of a blocking queue, free of pointers and lists: a bounded buffer with the waiting
  getters (and the address each wants its value at) and the waiting putters (and the value each
  offers).  The kernel's put and get refine it.
\<close>

section \<open>The abstract queue\<close>

record bq_view =
  v_cap :: int
  v_items :: "int list"
  v_getters :: "(ptr \<times> int) list"
  v_putters :: "(ptr \<times> int) list"

text \<open>What a call does besides: it returns, having perhaps woken a process and written a value, or blocks.\<close>

datatype bq_outcome = Returns (woken: "ptr option") (writes: "(int \<times> int) option") | Blocks

definition bq_put :: "ptr \<Rightarrow> int \<Rightarrow> bq_view \<Rightarrow> bq_view \<times> bq_outcome" where
  "bq_put p v Q =
     (case v_getters Q of
        (g, a) # gs \<Rightarrow> (Q\<lparr>v_getters := gs\<rparr>, Returns (Some g) (Some (a, v)))
      | [] \<Rightarrow>
          if int (length (v_items Q)) < v_cap Q then (Q\<lparr>v_items := v_items Q @ [v]\<rparr>, Returns None None)
          else (Q\<lparr>v_putters := v_putters Q @ [(p, v)]\<rparr>, Blocks))"

definition bq_get :: "ptr \<Rightarrow> int \<Rightarrow> bq_view \<Rightarrow> bq_view \<times> bq_outcome" where
  "bq_get p a Q =
     (case v_items Q of
        [] \<Rightarrow> (Q\<lparr>v_getters := v_getters Q @ [(p, a)]\<rparr>, Blocks)
      | v # vs \<Rightarrow>
          (case v_putters Q of
             [] \<Rightarrow> (Q\<lparr>v_items := vs\<rparr>, Returns None (Some (a, v)))
           | (w, u) # ps \<Rightarrow> (Q\<lparr>v_items := vs @ [u], v_putters := ps\<rparr>, Returns (Some w) (Some (a, v)))))"

section \<open>The queue a kernel state holds\<close>

definition queue_view :: "kernel \<Rightarrow> ptr \<Rightarrow> bq_view" where
  "queue_view k q =
     \<lparr>v_cap = bq_capacity (bqueues k q),
      v_items = map (bq_items k) (lst k (Items q)),
      v_getters = map (\<lambda>w. (pcb_ptrs k w, syscall_args (pcbs k (pcb_ptrs k w)) 1)) (lst k (Wait_getters q)),
      v_putters = map (\<lambda>w. (pcb_ptrs k w, syscall_args (pcbs k (pcb_ptrs k w)) 1)) (lst k (Wait_putters q))\<rparr>"

definition write_user :: "(int \<times> int) option \<Rightarrow> (int \<Rightarrow> int) \<Rightarrow> int \<Rightarrow> int" where
  "write_user w mem = (case w of None \<Rightarrow> mem | Some (a, v) \<Rightarrow> if a = 0 then mem else mem(a := v))"

text \<open>What the outcome means for the calling process \<open>r\<close> and the kernel.\<close>

definition bq_effect :: "ptr \<Rightarrow> bq_outcome \<Rightarrow> kernel \<Rightarrow> kernel \<Rightarrow> bool" where
  "bq_effect r out k k' \<longleftrightarrow>
     (case out of
        Returns w wr \<Rightarrow> running k' = Some r \<and> syscall_retvalue (pcbs k' r) = 0 \<and>
          lst k' Ready_list = lst k Ready_list @ (case w of None \<Rightarrow> [] | Some p \<Rightarrow> [p]) \<and>
          (case w of None \<Rightarrow> True | Some p \<Rightarrow> syscall_retvalue (pcbs k' p) = 0 \<and> status (pcbs k' p) = Ready) \<and>
          user_mem k' = write_user wr (user_mem k)
      | Blocks \<Rightarrow> status (pcbs k' r) = Waiting \<and> lst k' Waiting_list = lst k Waiting_list @ [r] \<and>
          running k' = hd_opt (lst k Ready_list) \<and> lst k' Ready_list = tl (lst k Ready_list) \<and>
          user_mem k' = user_mem k)"

text \<open>
  The implementation agrees with an abstract step on the named queue, leaves every other one, the
  identifiers, the timers, the set of processes and the contexts of all but the caller alone and uses up at most one block of
  each pool.
\<close>

definition bq_refines :: "ptr \<Rightarrow> ptr \<Rightarrow> bq_view \<times> bq_outcome \<Rightarrow> kernel \<Rightarrow> kernel \<Rightarrow> bool" where
  "bq_refines q r step k k' \<longleftrightarrow>
     queue_view k' q = fst step \<and> bq_effect r (snd step) k k' \<and> log_file k' = log_file k \<and>
     lst k' Bq_registry = lst k Bq_registry \<and> (\<forall>q'. bq_id (bqueues k' q') = bq_id (bqueues k q')) \<and>
     (\<forall>r. room k r - 1 \<le> room k' r) \<and>
     (\<forall>q'. q' \<noteq> q \<longrightarrow> queue_view k' q' = queue_view k q') \<and>
     in_use k' Pcb_buffer = in_use k Pcb_buffer \<and> lst k' Zombie_list = lst k Zombie_list \<and>
     lst k' Timer_list = lst k Timer_list \<and> set (lst k' Waiting_list) \<subseteq> insert r (set (lst k Waiting_list)) \<and>
     (\<forall>x. cpu_state (pcbs k' x) = cpu_state (pcbs k x) \<or> x = r \<and> cpu_state (pcbs k' x) = Ctx_saved)"

lemma bq_view_simps [simp]:
  "v_cap (queue_view k q) = bq_capacity (bqueues k q)"
  "v_items (queue_view k q) = map (bq_items k) (lst k (Items q))"
  "v_getters (queue_view k q) = map (\<lambda>w. (pcb_ptrs k w, syscall_args (pcbs k (pcb_ptrs k w)) 1)) (lst k (Wait_getters q))"
  "v_putters (queue_view k q) = map (\<lambda>w. (pcb_ptrs k w, syscall_args (pcbs k (pcb_ptrs k w)) 1)) (lst k (Wait_putters q))"
  by (simp_all add: queue_view_def)

text \<open>A block that is on no list, or on another one, does not show in a view.\<close>

lemma map_fun_upd_other: "x \<notin> set xs \<Longrightarrow> map (f(x := v)) xs = map f xs"
  by (induction xs) auto

lemma within_insert [simp]: "set (remove1 x xs) \<subseteq> insert r (set xs)" "set xs \<subseteq> insert r (set xs)"
  using set_remove1_subset by fast+

lemma delivered_refines:
  assumes d: "delivered q r v k k'" and run: "running k = Some r"
  shows "bq_refines q r (bq_put r v (queue_view k q)) k k'"
proof -
  from d obtain w ws m P where w: "lst k (Wait_getters q) = w # ws"
    and m: "contents m = (lst k)(Wait_getters q := ws, Waiting_list := remove1 (pcb_ptrs k w) (lst k Waiting_list),
       Ready_list := lst k Ready_list @ [pcb_ptrs k w])"
    and rooms: "(\<forall>r'. room k r' - 1 \<le> pa_size (P r')) \<and> live (P Pcb_buffer) = in_use k Pcb_buffer"
    and k': "k' = set_retvalue r 0 (upd_pcb (pcb_ptrs k w) (\<lambda>b. b\<lparr>syscall_retvalue := 0, status := Ready\<rparr>)
       (store_result (syscall_args (pcbs k (pcb_ptrs k w)) 1) v (k\<lparr>pools := P, lists := m\<rparr>)))"
    unfolding delivered_def by blast
  show ?thesis
    using run rooms
    by (auto simp: bq_refines_def bq_put_def bq_effect_def w k' m queue_view_def store_result_mem write_user_def upd_pcb_at
        intro!: bq_view.equality)
qed


lemma buffered_refines:
  assumes b: "buffered q r v k k'" and run: "running k = Some r" and none: "lst k (Wait_getters q) = []"
    and cap: "int (length (lst k (Items q))) < bq_capacity (bqueues k q)"
  shows "bq_refines q r (bq_put r v (queue_view k q)) k k'"
proof -
  from b obtain it m P where it: "unlisted (lists k) it"
    and m: "contents m = (lst k)(Items q := lst k (Items q) @ [it])"
    and rooms: "(\<forall>r'. room k r' - 1 \<le> pa_size (P r')) \<and> live (P Pcb_buffer) = in_use k Pcb_buffer"
    and k': "k' = set_retvalue r 0 (upd_bqueue q (\<lambda>b. b\<lparr>bq_size := bq_size b + 1\<rparr>)
       (k\<lparr>pools := P, bq_items := (bq_items k)(it := v), lists := m\<rparr>))"
    unfolding buffered_def by blast
  have "it \<notin> set (lst k (Items q'))" for q' using it by (simp add: unlisted_def)
  then show ?thesis
    using run rooms cap none
    by (simp add: bq_refines_def bq_put_def bq_effect_def k' m queue_view_def write_user_def map_fun_upd_other)
qed

lemma blocked_view:
  assumes b: "blocked_state h r k k'" and h: "h = Wait_getters q \<or> h = Wait_putters q"
  obtains w where "lst k' h = lst k h @ [w]" "\<And>h'. kind h' \<noteq> Pcb_buffer \<Longrightarrow> h' \<noteq> h \<Longrightarrow> lst k' h' = lst k h'"
    "pcb_ptrs k' = (pcb_ptrs k)(w := r)" "\<And>h'. w \<notin> set (lst k h')" "bq_items k' = bq_items k"
    "bqueues k' = bqueues k" "\<And>x. syscall_args (pcbs k' x) = syscall_args (pcbs k x)" "user_mem k' = user_mem k \<and> log_file k' = log_file k \<and> (\<forall>r. room k r - 1 \<le> room k' r) \<and>
      in_use k' Pcb_buffer = in_use k Pcb_buffer \<and> lst k' Zombie_list = lst k Zombie_list \<and>
      lst k' Timer_list = lst k Timer_list \<and> (\<forall>x. cpu_state (pcbs k' x) = cpu_state (pcbs k x))"
    "lst k' Waiting_list = lst k Waiting_list @ [r]" "lst k' Ready_list = tl (lst k Ready_list)"
    "running k' = hd_opt (lst k Ready_list)"
proof -
  from b obtain m P w where w: "unlisted (lists k) w" and P: "pools_take (pools k) Pcb_ptr_buffer w P"
    and m: "contents m = (lst k)(h := lst k h @ [w], Waiting_list := lst k Waiting_list @ [r],
       Ready_list := tl (lst k Ready_list))"
    and k': "k' = mark_running (hd_opt (lst k Ready_list))
          (set_status r Waiting (k\<lparr>pools := P, pcb_ptrs := (pcb_ptrs k)(w := r), lists := m\<rparr>))"
    unfolding blocked_state_def by blast
  show thesis
    by (rule that [of w]) (use w h P in \<open>auto simp: m k' unlisted_def pools_take_def\<close>)
qed

lemma map_link_upd:
  "x \<notin> set xs \<Longrightarrow> map (\<lambda>w. (((f(x := u)) w), g ((f(x := u)) w))) xs = map (\<lambda>w. (f w, g (f w))) xs"
  by (induction xs) auto

lemma blocked_refines:
  assumes ok: "kernel_ok k" and b: "blocked_state h r k k'" and run: "running k = Some r"
    and waits: "status (pcbs k' r) = Waiting"
    and h: "h = Wait_getters q \<and> step = ((queue_view k q)\<lparr>v_getters := v_getters (queue_view k q) @ [(r, syscall_args (pcbs k r) 1)]\<rparr>, Blocks) \<or>
      h = Wait_putters q \<and> step = ((queue_view k q)\<lparr>v_putters := v_putters (queue_view k q) @ [(r, syscall_args (pcbs k r) 1)]\<rparr>, Blocks)"
  shows "bq_refines q r step k k'"
proof (rule blocked_view [OF b, of q])
  show "h = Wait_getters q \<or> h = Wait_putters q" using h by blast
next
  fix w
  assume w: "lst k' h = lst k h @ [w]" "\<And>h'. kind h' \<noteq> Pcb_buffer \<Longrightarrow> h' \<noteq> h \<Longrightarrow> lst k' h' = lst k h'"
    "pcb_ptrs k' = (pcb_ptrs k)(w := r)" "\<And>h'. w \<notin> set (lst k h')" "bq_items k' = bq_items k"
    "bqueues k' = bqueues k" "\<And>x. syscall_args (pcbs k' x) = syscall_args (pcbs k x)" "user_mem k' = user_mem k \<and> log_file k' = log_file k \<and> (\<forall>r. room k r - 1 \<le> room k' r) \<and>
      in_use k' Pcb_buffer = in_use k Pcb_buffer \<and> lst k' Zombie_list = lst k Zombie_list \<and>
      lst k' Timer_list = lst k Timer_list \<and> (\<forall>x. cpu_state (pcbs k' x) = cpu_state (pcbs k x))"
    "lst k' Waiting_list = lst k Waiting_list @ [r]" "lst k' Ready_list = tl (lst k Ready_list)"
    "running k' = hd_opt (lst k Ready_list)"
  note links = map_link_upd [OF w(4), where f = "pcb_ptrs k" and u = r and g = "\<lambda>p. syscall_args (pcbs k p) (Suc 0)", simplified]
  from h show ?thesis
    using waits w(1,2,4)
    by (elim disjE conjE)
      (simp_all add: bq_refines_def bq_effect_def queue_view_def w(3,5-) links)
qed


lemma taken_refines:
  assumes t: "taken q r a k k'" and run: "running k = Some r" and none: "lst k (Wait_putters q) = []"
  shows "bq_refines q r (bq_get r a (queue_view k q)) k k'"
proof -
  from t obtain it its m P where it: "lst k (Items q) = it # its"
    and m: "contents m = (lst k)(Items q := its)"
    and rooms: "(\<forall>r'. room k r' - 1 \<le> pa_size (P r')) \<and> live (P Pcb_buffer) = in_use k Pcb_buffer"
    and k': "k' = set_retvalue r 0 (store_result a (bq_items k it)
        (upd_bqueue q (\<lambda>b. b\<lparr>bq_size := bq_size b - 1\<rparr>) (k\<lparr>lists := m, pools := P\<rparr>)))"
    unfolding taken_def by blast
  show ?thesis
    using run rooms none
    by (simp add: bq_refines_def bq_get_def bq_effect_def k' m it queue_view_def write_user_def store_result_mem)
qed

lemma refilled_refines:
  assumes ok: "kernel_ok k'" and t: "refilled q r a k k'" and run: "running k = Some r"
  shows "bq_refines q r (bq_get r a (queue_view k q)) k k'"
proof -
  from t obtain it its it2 w ws m P where it: "lst k (Items q) = it # its" and w: "lst k (Wait_putters q) = w # ws"
    and it2: "it2 \<notin> set its"
    and m: "contents m = (lst k)(Items q := its @ [it2], Wait_putters q := ws,
       Waiting_list := remove1 (pcb_ptrs k w) (lst k Waiting_list), Ready_list := lst k Ready_list @ [pcb_ptrs k w])"
    and rooms: "(\<forall>r'. room k r' - 1 \<le> pa_size (P r')) \<and> live (P Pcb_buffer) = in_use k Pcb_buffer"
    and k': "k' = set_retvalue r 0 (upd_pcb (pcb_ptrs k w) (\<lambda>b. b\<lparr>syscall_retvalue := 0, status := Ready\<rparr>)
        (store_result a (bq_items k it) (k\<lparr>bq_items := (bq_items k)(it2 := syscall_args (pcbs k (pcb_ptrs k w)) 1),
           lists := m, pools := P\<rparr>)))"
    unfolding refilled_def by blast
  have it2': "it2 \<notin> set (lst k (Items q'))" if "q' \<noteq> q" for q'
    using struct_disjoint [OF kernel_okD(1) [OF ok], of it2 "Items q" "Items q'"] that by (auto simp: k' m)
  show ?thesis
    using run rooms
    by (simp add: bq_refines_def bq_get_def bq_effect_def k' m it w it2 it2' queue_view_def write_user_def store_result_mem
        map_fun_upd_other upd_pcb_at)
qed

section \<open>Put and get refine the abstract queue\<close>

lemma blocked_waits:
  assumes "kernel_ok k'" and "blocked_state h r k k'" and "h = Wait_getters q \<or> h = Wait_putters q"
  shows "status (pcbs k' r) = Waiting"
proof (rule blocked_view [OF assms(2,3)])
  fix w assume "lst k' Waiting_list = lst k Waiting_list @ [r]"
  then show ?thesis using kernel_okD(2) [OF assms(1)] by (simp add: sched_ok_def)
qed

text \<open>A put that has the blocks it needs: an item block for a free place, a link for a full queue.\<close>

lemma put_refines:
  assumes ok: "kernel_ok k" and run: "running k = Some r" and call: "syscall_num (pcbs k r) = DSOS_CALL_BQ_PUT"
    and q: "bqueue_named (arg_int k r 0) k = Some q"
    and room: "v_getters (queue_view k q) = [] \<Longrightarrow> int (length (v_items (queue_view k q))) < v_cap (queue_view k q) \<Longrightarrow>
        0 < room k Bqitem_buffer"
      "v_getters (queue_view k q) = [] \<Longrightarrow> v_cap (queue_view k q) \<le> int (length (v_items (queue_view k q))) \<Longrightarrow>
        0 < room k Pcb_ptr_buffer"
  shows "ok_with (internal_bq_put k)
    (\<lambda>k'. kernel_ok k' \<and> bq_refines q r (bq_put r (syscall_args (pcbs k r) 1) (queue_view k q)) k k')"
proof -
  note S = kernel_okD [OF ok]
  have g: "lst k (Wait_getters q) \<noteq> [] \<longrightarrow> lst k (Items q) = []" "0 < bq_capacity (bqueues k q)"
    using S(9) bqueue_named_in [OF q] by (auto simp: queues_ok_def)
  consider "lst k (Wait_getters q) \<noteq> []"
    | "lst k (Wait_getters q) = []" "int (length (lst k (Items q))) < bq_capacity (bqueues k q)"
    | "lst k (Wait_getters q) = []" "bq_capacity (bqueues k q) \<le> int (length (lst k (Items q)))"
    by linarith
  then show ?thesis
  proof cases
    case 1
    show ?thesis
      by (rule ok_with_mono [OF put_deliver_ok [OF ok run q 1]]) (blast intro: delivered_refines run)
  next
    case 2
    show ?thesis
      by (rule ok_with_mono [OF put_buffer_ok [OF ok run q 2]]) (use room(1) 2 in \<open>auto\<close>, blast intro: buffered_refines run 2)
  next
    case 3
    show ?thesis
      apply (rule ok_with_mono [OF put_blocks [OF ok run call q 3(2)]])
      subgoal using room(2) 3 by simp
      using 3 by (auto intro!: blocked_refines [OF ok _ run] blocked_waits simp: bq_put_def)
  qed
qed

lemma get_refines:
  assumes ok: "kernel_ok k" and run: "running k = Some r" and call: "syscall_num (pcbs k r) = DSOS_CALL_BQ_GET"
    and q: "bqueue_named (arg_int k r 0) k = Some q"
    and room: "v_items (queue_view k q) = [] \<Longrightarrow> 0 < room k Pcb_ptr_buffer"
  shows "ok_with (internal_bq_get k)
    (\<lambda>k'. kernel_ok k' \<and> bq_refines q r (bq_get r (syscall_args (pcbs k r) 1) (queue_view k q)) k k')"
proof (cases "lst k (Items q)")
  case Nil
  show ?thesis
    apply (rule ok_with_mono [OF get_blocks [OF ok run call q Nil]])
    subgoal using room Nil by simp
    using Nil by (auto intro!: blocked_refines [OF ok _ run] blocked_waits simp: bq_get_def)
next
  case (Cons it its)
  show ?thesis
  proof (cases "lst k (Wait_putters q) = []")
    case True
    show ?thesis
      by (rule ok_with_mono [OF get_takes [OF ok run q Cons True]]) (blast intro: taken_refines run True)
  next
    case False
    show ?thesis
      by (rule ok_with_mono [OF get_refills [OF ok run q Cons False]]) (blast intro: refilled_refines run)
  qed
qed


section \<open>The bound\<close>

definition bq_new :: "int \<Rightarrow> bq_view" where
  "bq_new cap = \<lparr>v_cap = cap, v_items = [], v_getters = [], v_putters = []\<rparr>"

definition bq_bounded :: "bq_view \<Rightarrow> bool" where
  "bq_bounded Q \<longleftrightarrow>
     int (length (v_items Q)) \<le> v_cap Q \<and>
     (v_getters Q \<noteq> [] \<longrightarrow> v_items Q = [] \<and> v_putters Q = []) \<and>
     (v_putters Q \<noteq> [] \<longrightarrow> int (length (v_items Q)) = v_cap Q)"

text \<open>The kernel's invariant gives the bound of every registered queue.\<close>

lemma queue_view_bounded:
  "kernel_ok k \<Longrightarrow> q \<in> set (lst k Bq_registry) \<Longrightarrow> bq_bounded (queue_view k q) \<and> 0 < v_cap (queue_view k q)"
  using kernel_okD(9) [of k] by (auto simp: queues_ok_def bq_bounded_def)

end
