(* ===== verification/Process_Correct.thy ===== *)
theory Process_Correct
  imports Scheduling
begin

text \<open>
  Correctness of the process calls \<open>wait\<close>, \<open>fork\<close> and \<open>spawn\<close>.  For each call one lemma
  gives the exact conditions under which it goes wrong and one the state it results in, with the
  invariant kept.
\<close>

section \<open>Waiting for a child\<close>

text \<open>The zombie that \<open>wait\<close> finds: the first one in the list that is a child and matches.\<close>

definition awaited :: "ptr \<Rightarrow> kernel \<Rightarrow> ptr option" where
  "awaited r k =
     (let n = to_int (syscall_args (pcbs k r) 0) in
      List.find (\<lambda>z. parent (pcbs k z) = Some r \<and> (n = 0 \<or> pid (pcbs k z) = n)) (lst k Zombie_list))"

lemma wait_no_child:
  assumes "kernel_ok k" and "running k = Some r" and "lst k (Children r) = []"
  shows "internal_wait k = Inr (set_retvalue r DSOS_EWAIT k)"
  using assms kernel_okD(1) [OF assms(1)] by (simp add: internal_wait_def Let_def list_lst)

lemma wait_block_eq:
  assumes ok: "kernel_ok k" and run: "running k = Some r" and kids: "lst k (Children r) \<noteq> []"
    and none: "awaited r k = None"
  shows "internal_wait k =
    and_then (k_append Waiting_list r (set_status r Waiting k)) (\<lambda>k1.
    and_then (k_detach Ready_list (list_first Ready_list k1) k1) (\<lambda>(nxt, k2).
    Inr (k2\<lparr>running := Some nxt\<rparr>)))"
  using none kids by (simp add: internal_wait_def Let_def run list_first_lst scan_lst [OF kernel_okD(1) [OF ok]]
      kernel_okD(1) [OF ok] awaited_def)

lemma wait_fault:
  assumes ok: "kernel_ok k" and run: "running k = Some r" and kids: "lst k (Children r) \<noteq> []"
    and none: "awaited r k = None" and empty: "lst k Ready_list = []"
  shows "internal_wait k = Inl Null_deref"
proof -
  have "ok_with (k_append Waiting_list r (set_status r Waiting k)) (\<lambda>k1. list_first Ready_list k1 = None)"
    by (rule append_rule) (use running_loose [OF ok run] kernel_okD(1) [OF ok] empty in
        \<open>simp_all add: list_lst\<close>)
  then show ?thesis
    by (auto simp: wait_block_eq [OF ok run kids none] ok_with_iff)
qed

lemma wait_blocks:
  assumes ok: "kernel_ok k" and run: "running k = Some r" and kids: "lst k (Children r) \<noteq> []"
    and none: "awaited r k = None" and rdy: "lst k Ready_list = p # ps"
    and call: "syscall_num (pcbs k r) = DSOS_CALL_WAIT"
  shows "ok_with (internal_wait k) (\<lambda>k'. kernel_ok k' \<and> running k' = Some p \<and>
    contents (lists k') = (lst k)(Ready_list := ps, Waiting_list := lst k Waiting_list @ [r]))"
proof -
  note S = kernel_okD [OF ok]
  have "ok_with (k_append Waiting_list r (set_status r Waiting k)) (\<lambda>k1. 
    ok_with (k_detach Ready_list (list_first Ready_list k1) k1) (\<lambda>(nxt, k2).
      kernel_ok (k2\<lparr>running := Some nxt\<rparr>) \<and> nxt = p \<and> 
      contents (lists k2) = (lst k)(Ready_list := ps, Waiting_list := lst k Waiting_list @ [r])))"
  proof (rule append_rule)
    fix m
    assume m: "struct_inv m (pools (set_status r Waiting k))"
      "contents m = (lst (set_status r Waiting k))
        (Waiting_list := lst (set_status r Waiting k) Waiting_list @ [r])"
    let ?k1 = "(set_status r Waiting k)\<lparr>lists := m\<rparr>"
    show "ok_with (k_detach Ready_list (list_first Ready_list ?k1) ?k1) (\<lambda>(nxt, k2).
      kernel_ok (k2\<lparr>running := Some nxt\<rparr>) \<and> nxt = p \<and> 
      contents (lists k2) = (lst k)(Ready_list := ps, Waiting_list := lst k Waiting_list @ [r]))"
    proof (rule detach_first_rule)
      fix m2
      assume m2: "struct_inv m2 (pools ?k1)" "contents m2 = (lst ?k1)(Ready_list := ps)" "loose m2 p"
      let ?k2 = "?k1\<lparr>lists := m2, running := Some p\<rparr>"
      have B: "blocked n ?k2 = (if n = DSOS_CALL_WAIT then insert r (blocked n k) else blocked n k)"
        for n
        using call m m2 by (subst block_blocked [of _ k r]) simp_all
      have "kernel_ok ?k2"
      proof (rule block_ok [OF ok run])
        show "timers_ok ?k2"
          by (rule timers_frame [OF S(5)]) (use m m2 B S(5) in \<open>simp_all add: dsos_consts timers_ok_def\<close>)
        show "waiters_ok Wait_getters DSOS_CALL_BQ_GET ?k2"
          by (rule waiters_frame [OF S(6)]) (use m m2 B in \<open>simp_all add: dsos_consts\<close>)
        show "waiters_ok Wait_putters DSOS_CALL_BQ_PUT ?k2"
          by (rule waiters_frame [OF S(7)]) (use m m2 B in \<open>simp_all add: dsos_consts\<close>)
        show "queues_ok ?k2" by (rule queues_frame [OF S(9)]) (use m m2 in simp_all)
        show "leak_free ?k2" by (rule leak_frame [OF S(11)]) (use m m2 in simp_all)
      qed (use m m2 rdy call in simp_all)
      with m m2 show "case (p, ?k1\<lparr>lists := m2\<rparr>) of (nxt, k2) \<Rightarrow> 
        kernel_ok (k2\<lparr>running := Some nxt\<rparr>) \<and> nxt = p \<and>
        contents (lists k2) = (lst k)(Ready_list := ps, Waiting_list := lst k Waiting_list @ [r])"
        by (simp add: fun_upd_twist)
    qed (use m rdy in simp_all)
  qed (use running_loose [OF ok run] S in simp_all)
  then show ?thesis
    by (simp add: wait_block_eq [OF ok run kids none] ok_with_and_then)
qed

section \<open>Reaping\<close>

text \<open>The link that \<open>PCBPtr_byPID\<close> finds is the child's own.\<close>

lemma child_link:
  assumes fam: "family_ok k" and pids: "pids_ok k" and z: "z \<in> in_use k Pcb_buffer" "parent (pcbs k z) = Some r"
  obtains w where "List.find (\<lambda>w. pid (pcbs k (pcb_ptrs k w)) = pid (pcbs k z)) (lst k (Children r)) = Some w"
    "w \<in> set (lst k (Children r))" "pcb_ptrs k w = z"
proof -
  let ?P = "\<lambda>w. pid (pcbs k (pcb_ptrs k w)) = pid (pcbs k z)"
  from fam z obtain w0 where "w0 \<in> set (lst k (Children r))" "pcb_ptrs k w0 = z"
    using family_link [OF fam z] by blast
  then have "List.find ?P (lst k (Children r)) \<noteq> None" by (auto simp: find_None_all)
  then obtain w where w: "List.find ?P (lst k (Children r)) = Some w" by blast
  from find_Some_iff_first [OF w] have "w \<in> set (lst k (Children r))" "?P w" by auto
  moreover from this have "pcb_ptrs k w = z"
    using pids_inj [OF pids _ z(1)] family_child [OF fam] by blast
  ultimately show thesis using that w by blast
qed

lemma reap_eq:
  assumes ok: "kernel_ok k" and z: "z \<in> set (lst k Zombie_list)" "parent (pcbs k z) = Some r"
  obtains w m P where "w \<in> set (lst k (Children r))" "pcb_ptrs k w = z"
    "reap_child r z out k = Inr (pid (pcbs k z),
       (store_result out (return_value (pcbs k z)) k)\<lparr>lists := m, pools := P\<rparr>)"
    "struct_inv m P"
    "contents m = (lst k)(Zombie_list := remove1 z (lst k Zombie_list),
       Children r := remove1 w (lst k (Children r)))"
    "\<And>x. loose (lists k) x \<Longrightarrow> loose m x"
    "\<And>r'. live (P r') = (if r' = Pcb_ptr_buffer then in_use k r' - {w}
        else if r' = Pcb_buffer then in_use k r' - {z} else in_use k r')"
    "\<And>r'. r' \<noteq> Pcb_ptr_buffer \<Longrightarrow> r' \<noteq> Pcb_buffer \<Longrightarrow> pa_size (P r') = room k r'"
proof -
  note S = kernel_okD [OF ok]
  have zl: "z \<in> in_use k Pcb_buffer" using struct_live [OF S(1) z(1)] by simp
  obtain w where f: "List.find (\<lambda>w. pid (pcbs k (pcb_ptrs k w)) = pid (pcbs k z)) (lst k (Children r)) = Some w"
    and w: "w \<in> set (lst k (Children r))" "pcb_ptrs k w = z"
    by (rule child_link [OF S(3,4) zl z(2)])
  have "ok_with (reap_child r z out k) (\<lambda>(n, k'). n = pid (pcbs k z) \<and>
     (\<exists>m P. k' = (store_result out (return_value (pcbs k z)) k)\<lparr>lists := m, pools := P\<rparr> \<and> struct_inv m P \<and>
    contents m = (lst k)(Zombie_list := remove1 z (lst k Zombie_list),
       Children r := remove1 w (lst k (Children r))) \<and>
    (\<forall>x. loose (lists k) x \<longrightarrow> loose m x) \<and>
    (\<forall>r'. live (P r') = (if r' = Pcb_ptr_buffer then in_use k r' - {w}
        else if r' = Pcb_buffer then in_use k r' - {z} else in_use k r')) \<and>
    (\<forall>r'. r' \<noteq> Pcb_ptr_buffer \<longrightarrow> r' \<noteq> Pcb_buffer \<longrightarrow> pa_size (P r') = room k r')))"
    unfolding reap_child_def find_lst [OF S(1)]
    apply (simp add: z ok_with_and_then)
    apply (rule detach_rule [OF S(1) z(1)])
    subgoal for m1
      apply (simp add: PCBPtr_byPID_def scan_lst [of m1] f ok_with_and_then)
      apply (rule detach_rule)
      subgoal by simp
      subgoal by (simp add: w)
      subgoal for m2
        apply (simp add: PCBPtr_free_def)
        apply (rule release_rule)
        subgoal by simp
        subgoal using struct_live [OF S(1) w(1)] by simp
        subgoal by (simp add: loose_def)
        subgoal for P1
          apply (simp add: PCB_free_def Let_def ok_with_and_then)
          apply (rule release_rule)
          subgoal by simp
          subgoal using zl by (simp add: pools_give_def)
          subgoal by (simp add: loose_def)
          subgoal for P2
            apply (simp add: pools_give_def)
            apply (rule exI [of _ m2], rule exI [of _ P2])
            apply (simp add: store_result_def)
            done
          done
        done
      done
    done
  with that w show thesis by (auto simp: ok_with_iff)
qed


text \<open>Without the zombie and its link the processes are a family again.\<close>

lemma reap_family:
  assumes fam: "family_ok k" and inv: "struct_inv (lists k) (pools k)"
    and z: "z \<in> set (lst k Zombie_list)" "parent (pcbs k z) = Some r"
    and w: "w \<in> set (lst k (Children r))" "pcb_ptrs k w = z"
    and L: "\<And>q. lst k' (Children q) = (if q = r then remove1 w (lst k (Children r)) else lst k (Children q))"
      "lst k' Zombie_list = remove1 z (lst k Zombie_list)"
    and U: "in_use k' Pcb_buffer = in_use k Pcb_buffer - {z}"
    and same: "init_pcb k' = init_pcb k" "pcb_ptrs k' = pcb_ptrs k" "\<And>x. parent (pcbs k' x) = parent (pcbs k x)"
  shows "family_ok k'"
proof (rule family_okI)
  have d: "distinct (lst k h)" for h by (rule struct_distinct [OF inv])
  have old: "v \<in> set (lst k (Children q)) \<and> v \<noteq> w" if "v \<in> set (lst k' (Children q))" for v q
    using that w(1) struct_disjoint [OF inv w(1), of "Children q"] by (auto simp: L d split: if_splits)
  show "i \<in> in_use k' Pcb_buffer \<and> parent (pcbs k' i) = None" if "init_pcb k' = Some i" for i
    using family_init [OF fam, of i] that z(2) by (auto simp: U same)
  show "\<exists>w \<in> set (lst k' (Children q)). pcb_ptrs k' w = p"
    if p: "p \<in> in_use k' Pcb_buffer" "parent (pcbs k' p) = Some q" for p q
  proof -
    from p have "p \<in> in_use k Pcb_buffer" "parent (pcbs k p) = Some q" "p \<noteq> z" by (simp_all add: U same)
    with family_link [OF fam] obtain v where "v \<in> set (lst k (Children q))" "pcb_ptrs k v = p" "v \<noteq> w"
      using w(2) by blast
    then show ?thesis by (intro bexI [of _ v]) (auto simp: L same d)
  qed
  show "q \<in> in_use k' Pcb_buffer \<and> pcb_ptrs k' v \<in> in_use k' Pcb_buffer \<and> parent (pcbs k' (pcb_ptrs k' v)) = Some q"
    if "v \<in> set (lst k' (Children q))" for v q
    using old [OF that] family_inj [OF fam, of v q w r] family_child [OF fam, of v q] family_zombie [OF fam z] w
    by (auto simp: U same)
  show "v = v'" if "v \<in> set (lst k' (Children q))" "v' \<in> set (lst k' (Children q))" "pcb_ptrs k' v = pcb_ptrs k' v'" for q v v'
    using that old by (intro family_inj [OF fam, of v q v' q]) (auto simp: same)
  show "lst k' (Children x) = []" if "x \<in> set (lst k' Zombie_list)" "parent (pcbs k' x) = Some q" for x q
    using family_zombie [OF fam, of x q] that by (auto simp: L same d)
  show "in_use k' Pcb_buffer = {}" if "init_pcb k' = None"
    using fam that by (simp add: U same family_ok_def)
  show "parent (pcbs k' x) \<noteq> Some x" if "x \<in> in_use k' Pcb_buffer" for x
    using family_self [OF fam, of x] that by (simp add: U same)
qed

lemma reap_ok:
  assumes ok: "kernel_ok k" and run: "running k = Some r"
    and z: "z \<in> set (lst k Zombie_list)" "parent (pcbs k z) = Some r"
  shows "ok_with (reap_child r z out k) (\<lambda>(n, k'). n = pid (pcbs k z) \<and> kernel_ok k' \<and>
    in_use k' Pcb_buffer = in_use k Pcb_buffer - {z} \<and> pcbs k' = pcbs k \<and> running k' = Some r \<and>
    user_mem k' = user_mem (store_result out (return_value (pcbs k z)) k) \<and>
    lst k' Zombie_list = remove1 z (lst k Zombie_list) \<and> lst k' Waiting_list = lst k Waiting_list)"
proof (rule reap_eq [OF ok z])
  note S = kernel_okD [OF ok]
  fix w m P
  assume w: "w \<in> set (lst k (Children r))" "pcb_ptrs k w = z"
    and eq: "reap_child r z out k = Inr (pid (pcbs k z),
       (store_result out (return_value (pcbs k z)) k)\<lparr>lists := m, pools := P\<rparr>)"
    and m: "struct_inv m P"
    "contents m = (lst k)(Zombie_list := remove1 z (lst k Zombie_list),
       Children r := remove1 w (lst k (Children r)))"
    "\<And>x. loose (lists k) x \<Longrightarrow> loose m x"
    "\<And>r'. live (P r') = (if r' = Pcb_ptr_buffer then in_use k r' - {w}
        else if r' = Pcb_buffer then in_use k r' - {z} else in_use k r')"
    "\<And>r'. r' \<noteq> Pcb_ptr_buffer \<Longrightarrow> r' \<noteq> Pcb_buffer \<Longrightarrow> pa_size (P r') = room k r'"
  let ?k = "store_result out (return_value (pcbs k z)) (k\<lparr>lists := m, pools := P\<rparr>)"
  have zz: "z \<noteq> r" "z \<notin> set (lst k Ready_list)" "z \<notin> set (lst k Waiting_list)"
    using z running_notin [OF ok run] struct_disjoint [OF S(1) z(1)] by auto
  have d: "distinct (lst k h)" for h by (rule struct_distinct [OF S(1)])
  have "kernel_ok ?k"
  proof (rule kernel_okI)
    have B: "blocked n ?k = blocked n k" for n by (rule blocked_frame) (simp_all add: m)
    show "sched_ok ?k" using S(2) zz run d by (auto simp: sched_ok_def m)
    show "family_ok ?k" by (rule reap_family [OF S(3,1) z w]) (simp_all add: m)
    show "pids_ok ?k" using S(4) by (auto simp: pids_ok_def m inj_on_def)
    show "timers_ok ?k"
      by (rule timers_frame [OF S(5)]) (use S(5) in \<open>simp_all add: m B timers_ok_def\<close>)
    show "waiters_ok Wait_getters DSOS_CALL_BQ_GET ?k"
      by (rule waiters_frame [OF S(6)]) (simp_all add: m B)
    show "waiters_ok Wait_putters DSOS_CALL_BQ_PUT ?k"
      by (rule waiters_frame [OF S(7)]) (simp_all add: m B)
    show "calls_ok ?k" by (rule calls_frame [OF S(8)]) (simp_all add: m)
    show "queues_ok ?k" by (rule queues_frame [OF S(9)]) (simp_all add: m)
    show "descriptors_ok ?k" by (rule descriptors_frame [OF S(10)]) (simp_all add: m)
    show "leak_free ?k" using S(11) d by (fastforce simp: leak_free_def m)
  qed (simp add: m)
  with eq show ?thesis by (simp add: m run store_result_mem)
qed

lemma wait_reaps:
  assumes ok: "kernel_ok k" and run: "running k = Some r" and found: "awaited r k = Some z"
  shows "ok_with (internal_wait k) (\<lambda>k'. kernel_ok k' \<and> running k' = Some r \<and>
    in_use k' Pcb_buffer = in_use k Pcb_buffer - {z} \<and>
    syscall_retvalue (pcbs k' r) = pid (pcbs k z) \<and>
    user_mem k' = user_mem (store_result (syscall_args (pcbs k r) 1) (return_value (pcbs k z)) k) \<and>
    lst k' Zombie_list = remove1 z (lst k Zombie_list) \<and> lst k' Waiting_list = lst k Waiting_list)"
proof -
  note S = kernel_okD [OF ok]
  from found find_Some_iff_first have z: "z \<in> set (lst k Zombie_list)" "parent (pcbs k z) = Some r"
    by (fastforce simp: awaited_def Let_def)+
  have "z \<in> in_use k Pcb_buffer" using struct_live [OF S(1) z(1)] by simp
  from family_link [OF S(3) this z(2)] have kids: "lst k (Children r) \<noteq> []" by force
  show ?thesis
    using found kids
    by (simp add: internal_wait_def Let_def run list_first_lst [OF S(1)] scan_lst [OF S(1)]
        awaited_def ok_with_and_then)
      (rule ok_with_mono [OF reap_ok [OF ok run z]], auto intro!: retvalue_ok [simplified])
qed

section \<open>Creating a child\<close>

lemma new_child_rule:
  assumes ok: "kernel_ok k" and run: "running k = Some r"
    and room: "0 < room k Pcb_buffer" "0 < room k Pcb_ptr_buffer" and lp: "last_pid k < 2 ^ 31 - 1"
    and Q: "\<And>p w m P. p \<notin> in_use k Pcb_buffer \<Longrightarrow> w \<notin> in_use k Pcb_ptr_buffer \<Longrightarrow> struct_inv m P \<Longrightarrow> 
      contents m = (lst k)(Descriptors p := [], Children p := [], Children r := lst k (Children r) @ [w],
        Ready_list := lst k Ready_list @ [p]) \<Longrightarrow>
      unlisted (lists k) p \<Longrightarrow> unlisted (lists k) w \<Longrightarrow> loose m r \<Longrightarrow>
      (\<And>r'. live (P r') = (if r' = Pcb_ptr_buffer then insert w (in_use k r')
        else if r' = Pcb_buffer then insert p (in_use k r') else in_use k r')) \<Longrightarrow>
      (\<And>r'. r' \<noteq> Pcb_ptr_buffer \<Longrightarrow> r' \<noteq> Pcb_buffer \<Longrightarrow> pa_size (P r') = room k r') \<Longrightarrow>
      Q (p, upd_pcb r (\<lambda>b. b\<lparr>syscall_retvalue := last_pid k\<rparr>) (upd_pcb p (\<lambda>b. b\<lparr>pid := last_pid k,
        return_value := 0, signals := 0, signals_mask := -1, timer := None, status := Ready, parent := Some r\<rparr>)
        (k\<lparr>last_pid := last_pid k + 1, pools := P, pcb_ptrs := (pcb_ptrs k)(w := p), lists := m\<rparr>)))"
  shows "ok_with (new_child r k) Q"
proof -
  note S = kernel_okD [OF ok]
  note R = running_loose [OF ok run]
  have lp0: "0 \<le> last_pid k" using S(4) by (simp add: pids_ok_def)
  show ?thesis
    unfolding new_child_def ok_with_and_then ok_with_case_prod Let_def
    apply (rule PCB_alloc_rule [OF S(1) room(1) lp0 lp])
    subgoal for p m P
      apply (simp add: ok_with_and_then)
      apply (rule PCBPtr_alloc_rule)
      subgoal by simp
      subgoal using room by (simp add: pools_take_def)
      subgoal for w m2 P2
        apply (simp add: ok_with_and_then)
        apply (rule append_rule)
        subgoal by simp
        subgoal by simp
        subgoal by (simp add: pools_take_def)
        subgoal for m3
          apply (simp add: ok_with_and_then)
          apply (rule append_rule)
          subgoal by simp
          subgoal by (cases "p = w") (auto simp: pools_take_def)
          subgoal by (simp add: pools_take_def)
          subgoal for m4
            using Q [of p w m4 P2] R struct_dead_unlisted [OF S(1), of p] struct_dead_unlisted [OF S(1), of w]
              struct_region [OF S(1), of r Pcb_buffer]
            apply (cases "p = w \<or> r = w")
            subgoal by (auto simp: pools_take_def)
            subgoal by (cases "p = r") (simp_all add: pools_take_def upd_pcb_def cong: if_cong)
            done
          done
        done
      done
    done
qed

lemma child_family:
  assumes fam: "family_ok k" and r: "r \<in> in_use k Pcb_buffer" and p: "p \<notin> in_use k Pcb_buffer"
    and w: "unlisted (lists k) w" and z: "unlisted (lists k) p" "r \<notin> set (lst k Zombie_list)"
    and L: "\<And>q. lst k' (Children q) = (if q = r then lst k (Children r) @ [w] else
          if q = p then [] else lst k (Children q))"
      "lst k' Zombie_list = lst k Zombie_list"
    and U: "in_use k' Pcb_buffer = insert p (in_use k Pcb_buffer)" and i: "init_pcb k' = init_pcb k"
    and ptr: "pcb_ptrs k' = (pcb_ptrs k)(w := p)"
    and par: "\<And>x. parent (pcbs k' x) = (if x = p then Some r else parent (pcbs k x))"
  shows "family_ok k'"
proof -
  have w_new: "v \<noteq> w" if "v \<in> set (lst k (Children q))" for v q using w that by (auto simp: unlisted_def)
  have p_new: "pcb_ptrs k v \<noteq> p" if "v \<in> set (lst k (Children q))" for v q
    using family_child [OF fam that] p by auto
  have none: "lst k (Children p) = []" by (rule dead_no_children [OF fam p])
  have old: "v = w \<and> q = r \<or> v \<in> set (lst k (Children q)) \<and> v \<noteq> w" if "v \<in> set (lst k' (Children q))" for v q
    using that w_new none by (auto simp: L split: if_splits)
  show ?thesis
  proof (rule family_okI)
    show "q \<in> in_use k' Pcb_buffer \<and> pcb_ptrs k' v \<in> in_use k' Pcb_buffer \<and>
      parent (pcbs k' (pcb_ptrs k' v)) = Some q" if "v \<in> set (lst k' (Children q))" for q v
      using old [OF that] family_child [OF fam, of v q] p_new [of v q] r by (auto simp: U ptr par)
    show "\<exists>v \<in> set (lst k' (Children q)). pcb_ptrs k' v = x"
      if "x \<in> in_use k' Pcb_buffer" "parent (pcbs k' x) = Some q" for x q
    proof (cases "x = p")
      case True
      with that show ?thesis by (simp add: L par ptr)
    next
      case False
      with that family_link [OF fam, of x q] obtain v where "v \<in> set (lst k (Children q))" "pcb_ptrs k v = x"
        by (auto simp: U par)
      with none w_new show ?thesis by (intro bexI [of _ v]) (auto simp: L ptr)
    qed
    show "v = v'" if "v \<in> set (lst k' (Children q))" "v' \<in> set (lst k' (Children q))"
      "pcb_ptrs k' v = pcb_ptrs k' v'" for q v v'
      using old [OF that(1)] old [OF that(2)] that(3) p_new [of v q] p_new [of v' q] family_inj [OF fam, of v q v' q] by (auto simp: ptr)
    show "lst k' (Children x) = []" if "x \<in> set (lst k' Zombie_list)" "parent (pcbs k' x) = Some q" for x q
      using that z none family_zombie [OF fam, of x q] by (auto simp: L par unlisted_def split: if_splits)
    show "i \<in> in_use k' Pcb_buffer \<and> parent (pcbs k' i) = None" if "init_pcb k' = Some i" for i
      using that family_init [OF fam, of i] p by (auto simp: U i par)
    show "in_use k' Pcb_buffer = {}" if "init_pcb k' = None"
      using that r fam by (auto simp: i family_ok_def)
    show "parent (pcbs k' x) \<noteq> Some x" if "x \<in> in_use k' Pcb_buffer" for x
      using that family_self [OF fam, of x] r p by (auto simp: U par)
  qed
qed

lemma child_leak:
  assumes F: "leak_free k"
    and C: "w \<in> set (lst k' (Children r))" "\<And>q. set (lst k (Children q)) \<subseteq> set (lst k' (Children q))"
    and L: "\<And>h. kind h \<notin> {Pcb_buffer, Descriptor_buffer} \<Longrightarrow> (\<forall>q. h \<noteq> Children q) \<Longrightarrow> lst k' h = lst k h"
    and U: "in_use k' Pcb_ptr_buffer = insert w (in_use k Pcb_ptr_buffer)"
      "\<And>r. r \<notin> {Pcb_buffer, Pcb_ptr_buffer} \<Longrightarrow> in_use k' r = in_use k r"
  shows "leak_free k'"
proof (rule leak_update [OF F])
  fix x assume "x \<in> in_use k' Pcb_ptr_buffer"
  then show "(\<exists>q. x \<in> set (lst k' (Children q)) \<or> x \<in> set (lst k' (Wait_getters q)) \<or>
       x \<in> set (lst k' (Wait_putters q))) \<or>
    x \<in> in_use k Pcb_ptr_buffer \<and>
    (\<forall>q. (x \<in> set (lst k (Children q)) \<longrightarrow> x \<in> set (lst k' (Children q))) \<and>
         (x \<in> set (lst k (Wait_getters q)) \<longrightarrow> x \<in> set (lst k' (Wait_getters q))) \<and>
         (x \<in> set (lst k (Wait_putters q)) \<longrightarrow> x \<in> set (lst k' (Wait_putters q))))"
    using C by (cases "x = w") (auto simp: U L)
qed (auto simp: U L)

lemma new_child_ok:
  assumes ok: "kernel_ok k" and run: "running k = Some r"
    and room: "0 < room k Pcb_buffer" "0 < room k Pcb_ptr_buffer" and lp: "last_pid k < 2 ^ 31 - 1"
  shows "ok_with (new_child r k) (\<lambda>(p, k'). kernel_ok k' \<and> running k' = Some r \<and>
    p \<notin> in_use k Pcb_buffer \<and> in_use k' Pcb_buffer = insert p (in_use k Pcb_buffer) \<and>
    lst k' Ready_list = lst k Ready_list @ [p] \<and> lst k' Waiting_list = lst k Waiting_list \<and>
    (\<forall>x. x \<noteq> p \<longrightarrow> parent (pcbs k' x) = parent (pcbs k x)) \<and>
    parent (pcbs k' p) = Some r \<and> pid (pcbs k' p) = last_pid k \<and> last_pid k' = last_pid k + 1 \<and>
    syscall_retvalue (pcbs k' r) = pid (pcbs k' p) \<and> 
    (\<exists>w. lst k' (Children r) = lst k (Children r) @ [w] \<and> pcb_ptrs k' w = p))"
proof (rule new_child_rule [OF ok run room lp])
  note S = kernel_okD [OF ok]
  note R = running_loose [OF ok run]
  fix p w m P
  assume p: "p \<notin> in_use k Pcb_buffer" "unlisted (lists k) p" and w: "w \<notin> in_use k Pcb_ptr_buffer" "unlisted (lists k) w"
   and m: "struct_inv m P"
      "contents m = (lst k)(Descriptors p := [], Children p := [], Children r := lst k (Children r) @ [w],
        Ready_list := lst k Ready_list @ [p])" "loose m r"
      "\<And>r'. live (P r') = (if r' = Pcb_ptr_buffer then insert w (in_use k r')
        else if r' = Pcb_buffer then insert p (in_use k r') else in_use k r')"
      "\<And>r'. r' \<noteq> Pcb_ptr_buffer \<Longrightarrow> r' \<noteq> Pcb_buffer \<Longrightarrow> pa_size (P r') = room k r'"
  let ?k = "upd_pcb r (\<lambda>b. b\<lparr>syscall_retvalue := last_pid k\<rparr>) (upd_pcb p (\<lambda>b. b\<lparr>pid := last_pid k,
        return_value := 0, signals := 0, signals_mask := -1, timer := None, status := Ready, parent := Some r\<rparr>)
        (k\<lparr>last_pid := last_pid k + 1, pools := P, pcb_ptrs := (pcb_ptrs k)(w := p), lists := m\<rparr>))"
  have pr: "p \<noteq> r" using p R by auto
  have notin: "p \<notin> set (lst k h)" "w \<notin> set (lst k h)" for h using p w by (auto simp: unlisted_def)
  have B: "blocked n ?k = blocked n k" for n by (rule blocked_frame) (simp_all add: m)
  have "kernel_ok ?k"
  proof (rule kernel_okI)
    show "sched_ok ?k"
      using S(2) run pr notin m(3) by (auto simp: sched_ok_def m upd_pcb_at)
    show "family_ok ?k"
      by (rule child_family [OF S(3), of r p w]) (use p w R pr running_notin [OF ok run] in \<open>simp_all add: m upd_pcb_at\<close>)
    show "pids_ok ?k"
      using S(4) p pr by (auto simp: pids_ok_def m upd_pcb_at inj_on_def)
    show "timers_ok ?k"
      by (rule timers_frame [OF S(5)]) (use S(5) in \<open>auto simp: m B timers_ok_def upd_pcb_at\<close>)
    show "waiters_ok Wait_getters DSOS_CALL_BQ_GET ?k"
      by (rule waiters_frame [OF S(6)]) (use notin in \<open>auto simp: m B\<close>)
    show "waiters_ok Wait_putters DSOS_CALL_BQ_PUT ?k"
      by (rule waiters_frame [OF S(7)]) (use notin in \<open>auto simp: m B\<close>)
    show "calls_ok ?k" by (rule calls_frame [OF S(8)]) (simp_all add: m)
    show "queues_ok ?k" by (rule queues_frame [OF S(9)]) (simp_all add: m)
    show "descriptors_ok ?k" using S(10) by (auto simp: descriptors_ok_def m)
    show "leak_free ?k"
      by (rule child_leak [OF S(11), of w _ r]) (use dead_no_children [OF S(3) p(1)] in \<open>auto simp: m\<close>)
  qed (simp add: m)
  with pr p m run show "case (p, ?k) of (p, k') \<Rightarrow> kernel_ok k' \<and> running k' = Some r \<and>
    p \<notin> in_use k Pcb_buffer \<and> in_use k' Pcb_buffer = insert p (in_use k Pcb_buffer) \<and>
    lst k' Ready_list = lst k Ready_list @ [p] \<and> lst k' Waiting_list = lst k Waiting_list \<and>
    (\<forall>x. x \<noteq> p \<longrightarrow> parent (pcbs k' x) = parent (pcbs k x)) \<and>
    parent (pcbs k' p) = Some r \<and> pid (pcbs k' p) = last_pid k \<and> last_pid k' = last_pid k + 1 \<and>
    syscall_retvalue (pcbs k' r) = pid (pcbs k' p) \<and> 
    (\<exists>w. lst k' (Children r) = lst k (Children r) @ [w] \<and> pcb_ptrs k' w = p)"
    by simp
qed
section \<open>Fork and spawn\<close>

lemma fork_ok:
  assumes "kernel_ok k" and "running k = Some r" and "0 < room k Pcb_buffer"
    and "0 < room k Pcb_ptr_buffer" and "last_pid k < 2 ^ 31 - 1"
  shows "ok_with (internal_fork k) (\<lambda>k'. kernel_ok k' \<and> running k' = Some r \<and>
    (\<exists>p. p \<notin> in_use k Pcb_buffer \<and> in_use k' Pcb_buffer = insert p (in_use k Pcb_buffer) \<and>
      lst k' Ready_list = lst k Ready_list @ [p] \<and> parent (pcbs k' p) = Some r \<and>
      pid (pcbs k' p) = last_pid k \<and> syscall_retvalue (pcbs k' r) = last_pid k))"
  using new_child_ok [OF assms]
  by (auto simp: internal_fork_def assms(2) ok_with_and_then elim: ok_with_mono)

lemma spawn_ok:
  assumes "kernel_ok k" and "running k = Some r" and "0 < room k Pcb_buffer"
    and "0 < room k Pcb_ptr_buffer" and "last_pid k < 2 ^ 31 - 1"
  shows "ok_with (internal_spawn k) (\<lambda>k'. kernel_ok k' \<and> running k' = Some r \<and>
    (\<exists>p. p \<notin> in_use k Pcb_buffer \<and> in_use k' Pcb_buffer = insert p (in_use k Pcb_buffer) \<and>
      lst k' Ready_list = lst k Ready_list @ [p] \<and> parent (pcbs k' p) = Some r \<and>
      pid (pcbs k' p) = last_pid k \<and> syscall_retvalue (pcbs k' r) = last_pid k \<and> last_pid k' = last_pid k + 1 \<and>
      lst k' Waiting_list = lst k Waiting_list \<and> (\<forall>x. x \<noteq> p \<longrightarrow> parent (pcbs k' x) = parent (pcbs k x)) \<and>
      cpu_state (pcbs k' p) =
        Ctx_entry (syscall_args (pcbs k' r) 0) (syscall_args (pcbs k' r) 1)))"
proof -
  have "p \<noteq> r" if "p \<notin> in_use k Pcb_buffer" for p using running_loose [OF assms(1,2)] that by auto
  then show ?thesis
    unfolding internal_spawn_def assms(2)
    by (simp add: ok_with_and_then)
      (rule ok_with_mono [OF new_child_ok [OF assms]], auto intro!: upd_ok)
qed

text \<open>The exact conditions: each exhausted pool, and the last pid, makes the call go wrong.\<close>

lemma new_child_needs:
  assumes ok: "kernel_ok k" and "new_child r k = Inr x"
  shows "0 < room k Pcb_buffer \<and> 0 < room k Pcb_ptr_buffer \<and> last_pid k < 2 ^ 31 - 1"
proof -
  note S = kernel_okD [OF ok]
  obtain p k1 y where a: "PCB_alloc k = Inr (p, k1)"
    and b: "PCBPtr_alloc p (upd_pcb p (\<lambda>b. b\<lparr>parent := Some r\<rparr>) (set_status p Ready k1)) = Inr y"
    using assms(2) by (auto simp: new_child_def and_then_Inr_iff Let_def)
  have room: "0 < room k Pcb_buffer"
    using a PCB_alloc_full [OF S(1)] by (cases "0 < room k Pcb_buffer") auto
  have lp: "last_pid k < 2 ^ 31 - 1"
  proof (rule get_clear [OF S(1) room])
    fix p m P assume "k_get Pcb_buffer k = Inr (Some p, k\<lparr>pools := P\<rparr>)"
    with a show ?thesis
      by (auto simp: PCB_alloc_def and_then_Inr_iff add_int_def split: if_splits)
  qed
  have lp0: "0 \<le> last_pid k" using S(4) by (simp add: pids_ok_def)
  have "ok_with (PCB_alloc k) (\<lambda>(p, k1). struct_inv (lists k1) (pools k1) \<and> room k1 Pcb_ptr_buffer = room k Pcb_ptr_buffer)"
    by (rule PCB_alloc_rule [OF S(1) room lp0 lp]) (simp add: pools_take_def)
  with a have k1: "struct_inv (lists k1) (pools k1)" "room k1 Pcb_ptr_buffer = room k Pcb_ptr_buffer"
    by auto
  have "0 < room k Pcb_ptr_buffer"
  proof (rule ccontr)
    assume "\<not> 0 < room k Pcb_ptr_buffer"
    with k1 b PCBPtr_alloc_full [of "upd_pcb p (\<lambda>b. b\<lparr>parent := Some r\<rparr>) (set_status p Ready k1)" p]
    show False by simp
  qed
  with room lp show ?thesis by simp
qed

end
