(* ===== verification/Exit_Correct.thy ===== *)
theory Exit_Correct
  imports Process_Correct
begin

text \<open>
  Correctness of \<open>exit\<close>: the loop that hands the children over to \<open>init_pcb\<close>, the zombie, the parent
  that is woken and the dispatch of the next process; and the divergence when the first process
  exits with children.
\<close>

section \<open>Handing the children over\<close>

text \<open>One iteration of the loop of \<open>exit\<close>: a child's link moves to the list of \<open>init_pcb\<close>.\<close>

definition reparent_step :: "ptr \<Rightarrow> kernel \<Rightarrow> fault + kernel" where
  "reparent_step r k =
     and_then (k_detach (Children r) (list_first (Children r) k) k) (\<lambda>(child_item, k1).
     and_then (deref (init_pcb k1)) (\<lambda>ini.
     and_then (k_append (Children ini) child_item k1) (\<lambda>k2.
     Inr (upd_pcb (pcb_ptrs k2 child_item) (\<lambda>b. b\<lparr>parent := Some ini\<rparr>) k2))))"

lemma reparent_loop:
  "reparent_children r = c_while (\<lambda>k. list_first (Children r) k \<noteq> None) (reparent_step r)"
  by (simp add: reparent_children_def reparent_step_def [abs_def])

lemma reparent_step_rule:
  assumes inv: "struct_inv (lists k) (pools k)" and kids: "lst k (Children r) = w # ws"
    and i: "init_pcb k = Some i"
    and Q: "\<And>m. struct_inv m (pools k) \<Longrightarrow>
      contents m = (lst k)(Children r := ws, Children i := (if i = r then ws else lst k (Children i)) @ [w]) \<Longrightarrow>
      (\<And>x. x \<noteq> w \<Longrightarrow> loose (lists k) x \<Longrightarrow> loose m x) \<Longrightarrow>
      Q (upd_pcb (pcb_ptrs k w) (\<lambda>b. b\<lparr>parent := Some i\<rparr>) (k\<lparr>lists := m\<rparr>))"
  shows "ok_with (reparent_step r k) Q"
  unfolding reparent_step_def
  apply (simp add: ok_with_and_then)
  apply (rule detach_first_rule [OF inv kids])
  apply (simp add: i ok_with_and_then)
  apply (rule append_rule)
  subgoal by simp
  subgoal by simp
  subgoal using struct_live [OF inv, of w "Children r"] kids by simp
  subgoal for m1 m2 using Q [of m2] by (simp add: fun_upd_def)
  done

lemma reparent_family:
  assumes ok: "kernel_ok k" and run: "running k = Some r" and i: "init_pcb k = Some i" "i \<noteq> r"
    and kids: "lst k (Children r) = w # ws"
    and L: "\<And>q. lst k' (Children q) = (if q = i then lst k (Children i) @ [w] else if q = r then ws else lst k (Children q))"
      "lst k' Zombie_list = lst k Zombie_list"
    and same: "pools k' = pools k" "init_pcb k' = Some i" "pcb_ptrs k' = pcb_ptrs k"
    and par: "\<And>x. parent (pcbs k' x) = (if x = pcb_ptrs k w then Some i else parent (pcbs k x))"
  shows "family_ok k'"
proof (rule family_okI)
  note S = kernel_okD [OF ok]
  note fam = S(3)
  have w: "w \<in> set (lst k (Children r))" using kids by simp
  have ws: "set ws = set (lst k (Children r)) - {w}" using struct_distinct [OF S(1), of "Children r"] kids by auto
  note c = family_child [OF fam w]
  note in_i = family_init [OF fam i(1)]
  have old: "v = w \<and> q = i \<or> v \<in> set (lst k (Children q)) \<and> v \<noteq> w" if "v \<in> set (lst k' (Children q))" for v q
    using that ws struct_disjoint [OF S(1) w, of "Children q"] i(2) by (auto simp: L split: if_splits)
  have inj: "pcb_ptrs k v = pcb_ptrs k w \<Longrightarrow> v = w" if "v \<in> set (lst k (Children q))" for v q
    by (rule family_inj [OF fam that w])
  show "q \<in> in_use k' Pcb_buffer \<and> pcb_ptrs k' v \<in> in_use k' Pcb_buffer \<and>
      parent (pcbs k' (pcb_ptrs k' v)) = Some q" if "v \<in> set (lst k' (Children q))" for q v
    using old [OF that] family_child [OF fam, of v q] inj [of v q] c in_i by (auto simp: same par)
  show "\<exists>v \<in> set (lst k' (Children q)). pcb_ptrs k' v = x"
    if "x \<in> in_use k' Pcb_buffer" "parent (pcbs k' x) = Some q" for x q
  proof (cases "x = pcb_ptrs k w")
    case True
    with that show ?thesis by (auto simp: L par same)
  next
    case False
    with that family_link [OF fam, of x q] obtain v where "v \<in> set (lst k (Children q))" "pcb_ptrs k v = x"
      by (auto simp: same par)
    with False ws show ?thesis by (intro bexI [of _ v]) (auto simp: L same)
  qed
  show "v = v'" if "v \<in> set (lst k' (Children q))" "v' \<in> set (lst k' (Children q))"
    "pcb_ptrs k' v = pcb_ptrs k' v'" for q v v'
    using old [OF that(1)] old [OF that(2)] that(3) inj [of v q] inj [of v' q] family_inj [OF fam, of v q v' q]
    by (auto simp: same)
  show "lst k' (Children x) = []" if z: "x \<in> set (lst k' Zombie_list)" "parent (pcbs k' x) = Some q" for x q
  proof -
    from z have x: "x \<in> set (lst k Zombie_list)" by (simp add: L)
    with running_notin [OF ok run] have "x \<noteq> r" by auto
    have "parent (pcbs k x) \<noteq> None" using z(2) c by (auto simp: par split: if_splits)
    then obtain q' where "parent (pcbs k x) = Some q'" by blast
    moreover from this in_i have "x \<noteq> i" by auto
    moreover note family_zombie [OF fam x] \<open>x \<noteq> r\<close>
    ultimately show ?thesis by (simp add: L)
  qed
  show "j \<in> in_use k' Pcb_buffer \<and> parent (pcbs k' j) = None" if "init_pcb k' = Some j" for j
    using that in_i c by (auto simp: same par)
  show "in_use k' Pcb_buffer = {}" if "init_pcb k' = None" using that by (simp add: same)
  show "parent (pcbs k' x) \<noteq> Some x" if "x \<in> in_use k' Pcb_buffer" for x
    using that family_self [OF fam, of x] c in_i by (auto simp: same par)
qed

lemma reparent_step_ok:
  assumes ok: "kernel_ok k" and run: "running k = Some r" and i: "init_pcb k = Some i" "i \<noteq> r"
    and kids: "lst k (Children r) = w # ws"
  shows "ok_with (reparent_step r k) (\<lambda>k'. kernel_ok k' \<and> (\<exists>m.
    contents m = (lst k)(Children r := ws, Children i := lst k (Children i) @ [w]) \<and>
    k' = upd_pcb (pcb_ptrs k w) (\<lambda>b. b\<lparr>parent := Some i\<rparr>) (k\<lparr>lists := m\<rparr>)))"
proof (rule reparent_step_rule [OF kernel_okD(1) [OF ok] kids i(1)])
  note S = kernel_okD [OF ok]
  fix m
  assume m: "struct_inv m (pools k)"
      "contents m = (lst k)(Children r := ws, Children i := (if i = r then ws else lst k (Children i)) @ [w])"
      "\<And>x. x \<noteq> w \<Longrightarrow> loose (lists k) x \<Longrightarrow> loose m x"
  let ?k = "upd_pcb (pcb_ptrs k w) (\<lambda>b. b\<lparr>parent := Some i\<rparr>) (k\<lparr>lists := m\<rparr>)"
  have rw: "r \<noteq> w" using running_notin [OF ok run, of "Children r"] kids by auto
  have "kernel_ok ?k"
  proof (rule kernel_okI)
    have B: "blocked n ?k = blocked n k" for n by (rule blocked_frame) (simp_all add: m)
    show "sched_ok ?k" using S(2) m(3) rw run by (simp add: sched_ok_def m)
    show "family_ok ?k"
      by (rule reparent_family [OF ok run i kids]) (use i in \<open>simp_all add: m upd_pcb_at\<close>)
    show "pids_ok ?k" by (rule pids_frame [OF S(4)]) (simp_all add: m)
    show "timers_ok ?k"
      by (rule timers_frame [OF S(5)]) (use S(5) in \<open>simp_all add: m B timers_ok_def\<close>)
    show "waiters_ok Wait_getters DSOS_CALL_BQ_GET ?k"
      by (rule waiters_frame [OF S(6)]) (simp_all add: m B)
    show "waiters_ok Wait_putters DSOS_CALL_BQ_PUT ?k"
      by (rule waiters_frame [OF S(7)]) (simp_all add: m B)
    show "calls_ok ?k" by (rule calls_frame [OF S(8)]) (simp_all add: m)
    show "queues_ok ?k" by (rule queues_frame [OF S(9)]) (simp_all add: m)
    show "descriptors_ok ?k" by (rule descriptors_frame [OF S(10)]) (simp_all add: m)
    have "\<exists>q. x \<in> set (lst ?k (Children q)) \<or> x \<in> set (lst ?k (Wait_getters q)) \<or>
        x \<in> set (lst ?k (Wait_putters q))" if x: "x \<in> in_use ?k Pcb_ptr_buffer" for x
    proof -
      from x leak_links [OF S(11), of x] obtain q where q: "x \<in> set (lst k (Children q)) \<or>
        x \<in> set (lst k (Wait_getters q)) \<or> x \<in> set (lst k (Wait_putters q))"
        by auto
      show ?thesis
      proof (cases "x = w")
        case True then show ?thesis by (intro exI [of _ i]) (simp add: m)
      next
        case False with q kids i show ?thesis by (intro exI [of _ q]) (auto simp: m)
      qed
    qed
    then show "leak_free ?k" using S(11) by (simp add: leak_free_def m)
  qed (simp add: m)
  with m i show "kernel_ok ?k \<and> (\<exists>m. contents m = (lst k)(Children r := ws, Children i := lst k (Children i) @ [w]) \<and>
    ?k = upd_pcb (pcb_ptrs k w) (\<lambda>b. b\<lparr>parent := Some i\<rparr>) (k\<lparr>lists := m\<rparr>))"
    by auto
qed

definition handed_over :: "ptr \<Rightarrow> ptr \<Rightarrow> kernel \<Rightarrow> ptr list \<Rightarrow> ptr list \<Rightarrow> kernel \<Rightarrow> bool" where [effects]:
  "handed_over r i k moved left k' \<longleftrightarrow> (\<exists>m.
     contents m = (lst k)(Children r := left, Children i := lst k (Children i) @ moved) \<and>
     k' = k\<lparr>lists := m, pcbs := (\<lambda>x. (pcbs k x)\<lparr>parent :=
       if x \<in> pcb_ptrs k ` set moved then Some i else parent (pcbs k x)\<rparr>)\<rparr>)"

lemma handed_over_refl: "handed_over r i k [] (lst k (Children r)) k"
  by (auto simp: handed_over_def intro!: exI [of _ "lists k"])

lemma handed_over_step:
  assumes s: "handed_over r i k moved (w # ws) s" and "i \<noteq> r"
    and m: "contents m = (lst s)(Children r := ws, Children i := lst s (Children i) @ [w])"
  shows "handed_over r i k (moved @ [w]) ws
    (upd_pcb (pcb_ptrs s w) (\<lambda>b. b\<lparr>parent := Some i\<rparr>) (s\<lparr>lists := m\<rparr>))"
  unfolding handed_over_def
  using s assms(2) by (intro exI [of _ m]) (auto simp: handed_over_def m upd_pcb_def fun_eq_iff)

text \<open>The loop hands over one child after the other.\<close>

definition handing_over :: "ptr \<Rightarrow> ptr \<Rightarrow> kernel \<Rightarrow> kernel \<Rightarrow> bool" where
  "handing_over r i k s \<longleftrightarrow>
     kernel_ok s \<and> (\<exists>moved left. lst k (Children r) = moved @ left \<and> handed_over r i k moved left s)"

lemma handing_over_left: "i \<noteq> r \<Longrightarrow> handed_over r i k moved left s \<Longrightarrow> lst s (Children r) = left"
  by (auto simp: handed_over_def)

lemma handing_over_step:
  assumes run: "running k = Some r" and i: "init_pcb k = Some i" "i \<noteq> r"
    and I: "handing_over r i k s" and b: "list_first (Children r) s \<noteq> None"
  shows "ok_with (reparent_step r s)
    (\<lambda>s'. handing_over r i k s' \<and> length (lst s' (Children r)) < length (lst s (Children r)))"
proof -
  from I obtain moved left where s: "kernel_ok s" "lst k (Children r) = moved @ left" "handed_over r i k moved left s"
    unfolding handing_over_def by blast
  note left = handing_over_left [OF i(2) s(3)]
  with b list_first_lst [OF kernel_okD(1) [OF s(1)]] obtain w ws where w: "left = w # ws"
    by (cases left) auto
  from s(3) have f: "running s = running k" "init_pcb s = init_pcb k" by (auto simp: handed_over_def)
  from w have w': "lst s (Children r) = w # ws" using left by simp
  show ?thesis
  proof (rule ok_with_mono [OF reparent_step_ok [OF s(1) _ _ i(2) w']])
    fix s'
    assume "kernel_ok s' \<and> (\<exists>m.
        contents m = (lst s)(Children r := ws, Children i := lst s (Children i) @ [w]) \<and>
        s' = upd_pcb (pcb_ptrs s w) (\<lambda>b. b\<lparr>parent := Some i\<rparr>) (s\<lparr>lists := m\<rparr>))"
    then obtain m where m: "contents m = (lst s)(Children r := ws, Children i := lst s (Children i) @ [w])"
      "s' = upd_pcb (pcb_ptrs s w) (\<lambda>b. b\<lparr>parent := Some i\<rparr>) (s\<lparr>lists := m\<rparr>)" "kernel_ok s'"
      by blast
    have "handed_over r i k (moved @ [w]) ws s'"
      unfolding m(2) by (rule handed_over_step [OF s(3) [unfolded w] i(2) m(1)])
    moreover have "lst k (Children r) = (moved @ [w]) @ ws" using s(2) w by simp
    ultimately have "handing_over r i k s'" unfolding handing_over_def using m(3) by blast
    then show "handing_over r i k s' \<and> length (lst s' (Children r)) < length (lst s (Children r))"
      using m w' i(2) by simp
  qed (use f run i in simp_all)
qed

lemma reparent_children_ok:
  assumes ok: "kernel_ok k" and run: "running k = Some r" and i: "init_pcb k = Some i" "i \<noteq> r"
  shows "ok_with (reparent_children r k)
    (\<lambda>k'. kernel_ok k' \<and> handed_over r i k (lst k (Children r)) [] k')"
proof -
  have start: "handing_over r i k k" using ok handed_over_refl by (fastforce simp: handing_over_def)
  have "ok_with (c_while (\<lambda>k. list_first (Children r) k \<noteq> None) (reparent_step r) k)
      (\<lambda>s. handing_over r i k s \<and> \<not> list_first (Children r) s \<noteq> None)"
    by (rule c_while_rule [where m = "\<lambda>s. length (lst s (Children r))"]) (erule (1) handing_over_step [OF run i], rule start)
  then show ?thesis
    unfolding reparent_loop
  proof (rule ok_with_mono)
    fix s
    assume "handing_over r i k s \<and> \<not> list_first (Children r) s \<noteq> None"
    then obtain moved left where s: "kernel_ok s" "lst k (Children r) = moved @ left" "handed_over r i k moved left s"
       "list_first (Children r) s = None"
      unfolding handing_over_def by blast
    with handing_over_left [OF i(2) s(3)] list_first_lst [OF kernel_okD(1) [OF s(1)]] have "left = []" by simp
    with s show "kernel_ok s \<and> handed_over r i k (lst k (Children r)) [] s" by simp
  qed
qed

text \<open>The first process hands its children over to itself, for ever.\<close>

lemma reparent_diverges:
  assumes ok: "kernel_ok k" and i: "init_pcb k = Some r" and kids: "lst k (Children r) \<noteq> []"
  shows "reparent_children r k = Inl Diverges"
  unfolding reparent_loop
proof (rule c_while_diverges [where I = "\<lambda>s. struct_inv (lists s) (pools s) \<and> init_pcb s = Some r \<and> lst s (Children r) \<noteq> []"])
  fix s
  assume s: "struct_inv (lists s) (pools s) \<and> init_pcb s = Some r \<and> lst s (Children r) \<noteq> []"
  then obtain w ws where w: "lst s (Children r) = w # ws" by (cases "lst s (Children r)") auto
  have "ok_with (reparent_step r s) (\<lambda>s. struct_inv (lists s) (pools s) \<and> init_pcb s = Some r \<and> lst s (Children r) \<noteq> [])"
    by (rule reparent_step_rule [of s r w ws r]) (use s w in simp_all)
  with s w show "list_first (Children r) s \<noteq> None \<and> ok_with (reparent_step r s)
     (\<lambda>s. struct_inv (lists s) (pools s) \<and> init_pcb s = Some r \<and> lst s (Children r) \<noteq> [])"
    by (simp add: list_lst)
qed (use kernel_okD(1) [OF ok] i kids in simp)

section \<open>Exit\<close>

lemma zombie_ok:
  assumes ok: "kernel_ok k" and run: "running k = Some r" and kids: "lst k (Children r) = []"
  shows "ok_with (k_append Zombie_list r (set_status r Zombie k))
    (\<lambda>k'. kernel_ok (k'\<lparr>running := None\<rparr>) \<and> (\<exists>m.
       contents m = (lst k)(Zombie_list := lst k Zombie_list @ [r]) \<and>
       k' = set_status r Zombie (k\<lparr>lists := m\<rparr>)))"
proof (rule append_rule)
  note S = kernel_okD [OF ok]
  note R = running_loose [OF ok run]
  note notin = running_notin [OF ok run]
  fix m
  assume m: "struct_inv m (pools (set_status r Zombie k))"
    "contents m = (lst (set_status r Zombie k))
        (Zombie_list := lst (set_status r Zombie k) Zombie_list @ [r])"
  let ?k = "((set_status r Zombie k)\<lparr>lists := m\<rparr>)\<lparr>running := None\<rparr>"
  have "kernel_ok ?k"
  proof (rule kernel_okI)
    have B: "blocked n ?k = blocked n k" for n by (rule blocked_frame) (use m in simp_all)
    show "sched_ok ?k" using S(2) run notin m by (auto simp: sched_ok_def upd_pcb_at)
    show "family_ok ?k"
      using S(3) kids m by (simp add: family_ok_def)
    show "pids_ok ?k" by (rule pids_frame [OF S(4)]) simp_all
    show "timers_ok ?k"
      by (rule timers_frame [OF S(5)]) (use S(5) m in \<open>simp_all add: B [simplified] timers_ok_def\<close>)
    show "waiters_ok Wait_getters DSOS_CALL_BQ_GET ?k"
      by (rule waiters_frame [OF S(6)]) (use m in \<open>simp_all add: B [simplified]\<close>)
    show "waiters_ok Wait_putters DSOS_CALL_BQ_PUT ?k"
      by (rule waiters_frame [OF S(7)]) (use m in \<open>simp_all add: B [simplified]\<close>)
    show "calls_ok ?k" by (rule calls_frame [OF S(8)]) (use m in simp_all)
    show "queues_ok ?k" by (rule queues_frame [OF S(9)]) (use m in simp_all)
    show "descriptors_ok ?k" by (rule descriptors_frame [OF S(10)]) (use m in simp_all)
    show "leak_free ?k" by (rule leak_frame [OF S(11)]) (use m in simp_all)
  qed (use m in simp)
  with m show "kernel_ok ?k \<and> (\<exists>m'.
       contents m' = (lst k)(Zombie_list := lst k Zombie_list @ [r]) \<and>
       (set_status r Zombie k)\<lparr>lists := m\<rparr> = set_status r Zombie (k\<lparr>lists := m'\<rparr>))"
    by (auto simp: upd_pcb_def)
qed (use kernel_okD(1) [OF ok] running_loose [OF ok run] in simp_all)

lemma wake_waiter_ok:
  assumes ok: "kernel_ok k" and p: "p \<in> set (lst k Waiting_list)"
    and call: "syscall_num (pcbs k p) = DSOS_CALL_WAIT" and m: "struct_inv m (pools k)"
      "contents m = (lst k)(Waiting_list := remove1 p (lst k Waiting_list),
         Ready_list := lst k Ready_list @ [p])"
    and run: "\<And>r. running k = Some r \<Longrightarrow> loose m r"
  shows "kernel_ok (set_status p Ready (k\<lparr>lists := m\<rparr>))" (is "kernel_ok ?k")
proof (rule wake_ok [OF ok p])
  note S = kernel_okD [OF ok]
  have B: "blocked n ?k = blocked n k" if "n \<noteq> DSOS_CALL_WAIT" for n
    using call that by (subst wake_blocked [OF _ _ S(1), of _ p]) (simp_all add: m blocked_other)
  show "timers_ok ?k"
    by (rule timers_frame [OF S(5)]) (use S(5) m B in \<open>simp_all add: timers_ok_def dsos_consts\<close>)
  show "waiters_ok Wait_getters DSOS_CALL_BQ_GET ?k"
    by (rule waiters_frame [OF S(6)]) (use m B in \<open>simp_all add: dsos_consts\<close>)
  show "waiters_ok Wait_putters DSOS_CALL_BQ_PUT ?k"
    by (rule waiters_frame [OF S(7)]) (use m B in \<open>simp_all add: dsos_consts\<close>)
  show "queues_ok ?k" by (rule queues_frame [OF S(9)]) (simp_all add: m)
  show "leak_free ?k" by (rule leak_frame [OF S(11)]) (simp_all add: m)
qed (use m run in simp_all)

text \<open>The parent that an exit wakes, if any: one that waits for this child or for any child.\<close>

definition woken_parent :: "ptr \<Rightarrow> kernel \<Rightarrow> ptr list" where
  "woken_parent r k =
     (case parent (pcbs k r) of
        None \<Rightarrow> []
      | Some par \<Rightarrow>
          let n = to_int (syscall_args (pcbs k par) 0) in
          if status (pcbs k par) = Waiting \<and> syscall_num (pcbs k par) = DSOS_CALL_WAIT \<and>
             (n = 0 \<or> n = pid (pcbs k r)) then [par] else [])"

lemma wake_parent_eq:
  "wake_waiting_parent r k =
     (case woken_parent r k of
        [] \<Rightarrow> Inr k
      | par # _ \<Rightarrow> and_then (k_detach Waiting_list (Some par) k) (\<lambda>(_, k1).
          k_append Ready_list par (set_status par Ready k1)))"
  by (simp add: wake_waiting_parent_def woken_parent_def Let_def split: option.split)

lemma woken_parent_cases:
  obtains "woken_parent r k = []"
    | par where "woken_parent r k = [par]" "parent (pcbs k r) = Some par"
      "status (pcbs k par) = Waiting" "syscall_num (pcbs k par) = DSOS_CALL_WAIT"
proof (cases "woken_parent r k")
  case (Cons par ps)
  then have "woken_parent r k = [par] \<and> parent (pcbs k r) = Some par \<and>
    status (pcbs k par) = Waiting \<and> syscall_num (pcbs k par) = DSOS_CALL_WAIT"
    by (auto simp: woken_parent_def Let_def split: option.splits if_splits)
  with that(2) show ?thesis by blast
qed (use that(1) in blast)

lemma wake_parent_ok:
  assumes ok: "kernel_ok (k\<lparr>running := None\<rparr>)" and r: "r \<in> in_use k Pcb_buffer"
  shows "ok_with (wake_waiting_parent r k) (\<lambda>k'. kernel_ok (k'\<lparr>running := None\<rparr>) \<and> (\<exists>m.
    contents m = (lst k)(Waiting_list := [p \<leftarrow> lst k Waiting_list. p \<notin> set (woken_parent r k)],
      Ready_list := lst k Ready_list @ woken_parent r k) \<and>
    k' = (k\<lparr>lists := m, pcbs := (\<lambda>p. if p \<in> set (woken_parent r k)
            then (pcbs k p)\<lparr>status := Ready\<rparr> else pcbs k p)\<rparr>)))"
proof -
  note S = kernel_okD [OF ok]
  show ?thesis
  proof (cases rule: woken_parent_cases [of r k])
    case 1
    with ok show ?thesis
      by (simp add: wake_parent_eq) (rule exI [of _ "lists k"], simp)
  next
    case (2 par)
    from family_link [OF S(3), of r par] family_child [OF S(3), of _ par] r 2(2)
    have "par \<in> in_use k Pcb_buffer" by auto
    with S(2) 2(3) have w: "par \<in> set (lst k Waiting_list)" by (auto simp: sched_ok_def)
    have d: "distinct (lst k Waiting_list)" using struct_distinct [OF S(1)] by simp
    show ?thesis
      unfolding wake_parent_eq 2(1)
      apply (simp add: ok_with_and_then)
      apply (rule detach_rule)
      subgoal using S(1) by simp
      subgoal by (rule w)
      apply (simp add: ok_with_and_then)
      apply (rule append_rule)
      subgoal by simp
      subgoal by simp
      subgoal using \<open>par \<in> in_use k Pcb_buffer\<close> by simp
      subgoal for m1 m2
        apply (rule conjI)
        subgoal
          apply (rule back_subst [where P = kernel_ok, OF wake_waiter_ok [OF ok, of par m2]])
               apply (use w 2(4) in simp_all)
          apply (rule kernel.equality; simp add: upd_pcb_def)
          done
        subgoal using d by (intro exI [of _ m2]) (simp add: 2 upd_pcb_def fun_upd_def fun_eq_iff remove1_filter)
        done
      done
  qed
qed

lemma exit_handover:
  assumes ok: "kernel_ok k" and run: "running k = Some r"
    and pre: "init_pcb k \<noteq> Some r \<or> lst k (Children r) = []"
  shows "ok_with (reparent_children r k) (\<lambda>k'. kernel_ok k' \<and> lst k' (Children r) = [] \<and>
    (\<exists>i. init_pcb k = Some i \<and> handed_over r i k (lst k (Children r)) [] k'))"
proof -
  note S = kernel_okD [OF ok]
  obtain i where i: "init_pcb k = Some i"
    using S(3) running_loose [OF ok run] by (cases "init_pcb k") (auto simp: family_ok_def)
  show ?thesis
  proof (cases "i = r")
    case True
    with pre i have none: "lst k (Children r) = []" by simp
    then show ?thesis
      using ok i True handed_over_refl [of r r k]
      by (simp add: reparent_loop c_while_stop list_first_lst [OF S(1)])
  next
    case False
    then show ?thesis
      using i by (intro ok_with_mono [OF reparent_children_ok [OF ok run i False]]) (auto simp: handed_over_def)
  qed
qed

lemma woken_parent_frame:
  assumes "parent (pcbs k' r) = parent (pcbs k r)" and "pid (pcbs k' r) = pid (pcbs k r)"
    and "\<And>p. parent (pcbs k r) = Some p \<Longrightarrow> status (pcbs k' p) = status (pcbs k p) \<and>
      syscall_num (pcbs k' p) = syscall_num (pcbs k p) \<and> syscall_args (pcbs k' p) = syscall_args (pcbs k p)"
  shows "woken_parent r k' = woken_parent r k"
  using assms by (simp add: woken_parent_def Let_def split: option.split)

lemma zombie_woken:
  assumes ok: "kernel_ok k" and run: "running k = Some r"
  shows "woken_parent r (set_status r Zombie (k\<lparr>lists := m\<rparr>)) = woken_parent r k"
proof -
  have "parent (pcbs k r) \<noteq> Some r"
    using running_loose [OF ok run] by (intro family_self [OF kernel_okD(3) [OF ok]]) simp
  then show ?thesis by (intro woken_parent_frame) auto
qed

lemma handed_over_woken:
  assumes ok: "kernel_ok k" and run: "running k = Some r"
    and h: "handed_over r i k (lst k (Children r)) [] k'"
  shows "woken_parent r k' = woken_parent r k"
proof -
  note S = kernel_okD [OF ok]
  have r: "r \<in> in_use k Pcb_buffer" using running_loose [OF ok run] by simp
  have self: "r \<notin> pcb_ptrs k ` set (lst k (Children r))"
    using family_child [OF S(3), of _ r] family_self [OF S(3) r] by auto
  with h show ?thesis by (intro woken_parent_frame) (auto simp: handed_over_def)
qed

text \<open>
  What an exit does: the process is a zombie with its exit value, its children have the new parent, a parent that
  waits for it is ready again.  No return value of a system call and no memory of a process changes, so the woken
  parent does not learn who exited.
\<close>

definition same_results :: "kernel \<Rightarrow> kernel \<Rightarrow> bool" where
  "same_results k k' \<longleftrightarrow> user_mem k' = user_mem k \<and>
     (\<forall>x. syscall_retvalue (pcbs k' x) = syscall_retvalue (pcbs k x) \<and> syscall_num (pcbs k' x) = syscall_num (pcbs k x) \<and>
        syscall_args (pcbs k' x) = syscall_args (pcbs k x) \<and> pid (pcbs k' x) = pid (pcbs k x))"

definition exited :: "ptr \<Rightarrow> kernel \<Rightarrow> kernel \<Rightarrow> bool" where [effects]:
  "exited r k k' \<longleftrightarrow>
     lst k' Zombie_list = lst k Zombie_list @ [r] \<and> return_value (pcbs k' r) = to_int (syscall_args (pcbs k r) 0) \<and>
     lst k' (Children r) = [] \<and>
     (\<forall>x. parent (pcbs k' x) = (if x \<in> pcb_ptrs k ` set (lst k (Children r)) then init_pcb k else parent (pcbs k x))) \<and>
     running k' = hd_opt (lst k Ready_list @ woken_parent r k) \<and>
     lst k' Ready_list = tl (lst k Ready_list @ woken_parent r k) \<and> lst k' Waiting_list = [p \<leftarrow> lst k Waiting_list. p \<notin> set (woken_parent r k)] \<and> same_results k k'"

lemma exit_dispatch:
  assumes ok: "kernel_ok (k\<lparr>running := None\<rparr>)"
  shows "ok_with (internal_schedule (k\<lparr>running := None\<rparr>)) (\<lambda>k'. kernel_ok k' \<and>
    lst k' = (lst k)(Ready_list := tl (lst k Ready_list)) \<and> running k' = hd_opt (lst k Ready_list) \<and> same_results k k' \<and>
    (\<forall>x. return_value (pcbs k' x) = return_value (pcbs k x) \<and> parent (pcbs k' x) = parent (pcbs k x)))"
proof -
  have "ok_with (internal_schedule (k\<lparr>running := None\<rparr>)) (\<lambda>k'. 
    lst k' = (lst k)(Ready_list := tl (lst k Ready_list)) \<and> running k' = hd_opt (lst k Ready_list) \<and> same_results k k' \<and>
    (\<forall>x. return_value (pcbs k' x) = return_value (pcbs k x) \<and> parent (pcbs k' x) = parent (pcbs k x)))"
    by (rule schedule_rule) (use kernel_okD(1) [OF ok] in \<open>auto simp: fun_eq_iff same_results_def\<close>)
  with schedule_ok [OF ok] show ?thesis by (auto simp: ok_with_iff)
qed

text \<open>The second half of an exit, for a process whose children are gone.\<close>

lemma bury_ok:
  assumes ok: "kernel_ok k" and run: "running k = Some r" and kids: "lst k (Children r) = []"
  shows "ok_with (k_append Zombie_list r (set_status r Zombie k)) (\<lambda>k3.
    ok_with (wake_waiting_parent r k3) (\<lambda>k4. ok_with (internal_schedule (k4\<lparr>running := None\<rparr>)) (\<lambda>k'. kernel_ok k' \<and>
      lst k' Zombie_list = lst k Zombie_list @ [r] \<and> (\<forall>q. lst k' (Children q) = lst k (Children q)) \<and>
      running k' = hd_opt (lst k Ready_list @ woken_parent r k) \<and>
      lst k' Ready_list = tl (lst k Ready_list @ woken_parent r k) \<and> lst k' Waiting_list = [p \<leftarrow> lst k Waiting_list. p \<notin> set (woken_parent r k)] \<and> same_results k k' \<and>
      (\<forall>x. return_value (pcbs k' x) = return_value (pcbs k x) \<and> parent (pcbs k' x) = parent (pcbs k x)))))"
proof (rule ok_with_mono [OF zombie_ok [OF ok run kids]])
  fix k3
  assume "kernel_ok (k3\<lparr>running := None\<rparr>) \<and> (\<exists>m. contents m = (lst k)(Zombie_list := lst k Zombie_list @ [r]) \<and>
    k3 = set_status r Zombie (k\<lparr>lists := m\<rparr>))"
  then obtain m3 where ok3: "kernel_ok (k3\<lparr>running := None\<rparr>)"
    and m3: "contents m3 = (lst k)(Zombie_list := lst k Zombie_list @ [r])" "k3 = set_status r Zombie (k\<lparr>lists := m3\<rparr>)"
    by blast
  have w3: "woken_parent r k3 = woken_parent r k" unfolding m3(2) by (rule zombie_woken [OF ok run])
  have r: "r \<in> in_use k3 Pcb_buffer" using running_loose [OF ok run] by (simp add: m3(2))
  show "ok_with (wake_waiting_parent r k3) (\<lambda>k4. ok_with (internal_schedule (k4\<lparr>running := None\<rparr>)) (\<lambda>k'. kernel_ok k' \<and>
      lst k' Zombie_list = lst k Zombie_list @ [r] \<and> (\<forall>q. lst k' (Children q) = lst k (Children q)) \<and>
      running k' = hd_opt (lst k Ready_list @ woken_parent r k) \<and>
      lst k' Ready_list = tl (lst k Ready_list @ woken_parent r k) \<and> lst k' Waiting_list = [p \<leftarrow> lst k Waiting_list. p \<notin> set (woken_parent r k)] \<and> same_results k k' \<and>
      (\<forall>x. return_value (pcbs k' x) = return_value (pcbs k x) \<and> parent (pcbs k' x) = parent (pcbs k x))))"
    by (rule ok_with_mono [OF wake_parent_ok [OF ok3 r, unfolded w3]], elim conjE exE, rule ok_with_mono [OF exit_dispatch])
      (auto simp: m3 same_results_def)
qed

lemma exit_ok:
  assumes ok: "kernel_ok k" and run: "running k = Some r"
    and pre: "init_pcb k \<noteq> Some r \<or> lst k (Children r) = []"
  shows "ok_with (internal_exit k) (\<lambda>k'. kernel_ok k' \<and> exited r k k')"
proof -
  let ?k1 = "upd_pcb r (\<lambda>b. b\<lparr>return_value := to_int (syscall_args b 0)\<rparr>) k"
  have ok1: "kernel_ok ?k1" by (rule upd_ok [OF ok]) simp_all
  have run1: "running ?k1 = Some r" using run by simp
  have w1: "woken_parent r ?k1 = woken_parent r k"
    by (auto simp: woken_parent_def Let_def upd_pcb_def split: option.split)
  show ?thesis
    unfolding internal_exit_def run deref.simps and_then.simps Let_def ok_with_and_then
  proof (rule ok_with_mono [OF exit_handover [OF ok1 run1]])
    show "init_pcb ?k1 \<noteq> Some r \<or> lst ?k1 (Children r) = []" using pre by simp
  next
    fix k2
    assume "kernel_ok k2 \<and> lst k2 (Children r) = [] \<and>
      (\<exists>i. init_pcb ?k1 = Some i \<and> handed_over r i ?k1 (lst ?k1 (Children r)) [] k2)"
    then obtain i where k2: "kernel_ok k2" "lst k2 (Children r) = []" and i: "init_pcb k = Some i"
      and h: "handed_over r i ?k1 (lst ?k1 (Children r)) [] k2" by auto
    from h have same: "running k2 = Some r" "lst k2 Ready_list = lst k Ready_list" "lst k2 Zombie_list = lst k Zombie_list"
      "lst k2 Waiting_list = lst k Waiting_list"
      "\<forall>x. return_value (pcbs k2 x) = return_value (pcbs ?k1 x)" "same_results k k2"
      "\<forall>x. parent (pcbs k2 x) = (if x \<in> pcb_ptrs k ` set (lst k (Children r)) then Some i else parent (pcbs k x))"
      using run by (auto simp: handed_over_def same_results_def)
    have w2: "woken_parent r k2 = woken_parent r k" unfolding handed_over_woken [OF ok1 run1 h] by (rule w1)
    show "ok_with (k_append Zombie_list r (set_status r Zombie k2)) (\<lambda>k3.
       ok_with (wake_waiting_parent r k3) (\<lambda>k4. ok_with (internal_schedule (k4\<lparr>running := None\<rparr>))
         (\<lambda>k'. kernel_ok k' \<and> exited r k k')))"
      by (rule ok_with_mono [OF bury_ok [OF k2(1) same(1) k2(2)]], rule ok_with_mono, assumption, rule ok_with_mono, assumption)
        (use same k2 i w2 in \<open>simp add: exited_def same_results_def\<close>)
  qed
qed

lemma exit_diverges:
  assumes ok: "kernel_ok k" and run: "running k = Some r" and i: "init_pcb k = Some r"
    and kids: "lst k (Children r) \<noteq> []"
  shows "internal_exit k = Inl Diverges"
proof -
  let ?k1 = "upd_pcb r (\<lambda>b. b\<lparr>return_value := to_int (syscall_args b 0)\<rparr>) k"
  have ok1: "kernel_ok ?k1" by (rule upd_ok [OF ok]) simp_all
  have "reparent_children r ?k1 = Inl Diverges"
    by (rule reparent_diverges [OF ok1]) (use i kids in simp_all)
  then show ?thesis by (simp add: internal_exit_def run Let_def)
qed

end
