(* ===== verification/Timer_Correct.thy ===== *)
theory Timer_Correct
  imports Scheduling Printing
begin

text \<open>
  Correctness of the timers: \<open>TimerList_add\<close> keeps the list in the order of awakening, equal times in
  the order of arrival; \<open>sleep\<close> blocks the running process with a timer; the timer interrupt wakes
  exactly the processes whose timer has expired, in order, and dispatches.
\<close>

section \<open>Insertion in the order of awakening\<close>

lemma timer_scan_dseg:
  "dseg (node m) q p xs q' None \<Longrightarrow> 
   c_while
       (\<lambda>(aux, previous_item). case aux of
           None \<Rightarrow> False
         | Some item \<Rightarrow> \<not> time < awakening_time (T item))
       (\<lambda>(aux, previous_item). and_then (deref aux) (\<lambda>item.
           Inr (li_next (node m item), Some item)))
       (p, prv) = 
   (let after = dropWhile (\<lambda>t. awakening_time (T t) \<le> time) xs;
        before = takeWhile (\<lambda>t. awakening_time (T t) \<le> time) xs
    in Inr (hd_opt after, if before = [] then prv else last_opt before))"
proof (induction xs arbitrary: q p prv)
  case Nil
  then show ?case by (simp add: c_while_stop Let_def)
next
  case (Cons x xs)
  show ?case
  proof (cases "time < awakening_time (T x)")
    case True
    with Cons.prems show ?thesis by (simp add: c_while_stop Let_def)
  next
    case False
    with Cons.prems Cons.IH [of "Some x" "li_next (node m x)" "Some x"] show ?thesis
      by (simp add: c_while_step Let_def last_opt_def)
  qed
qed

lemma timer_scan_lst:
  assumes inv: "struct_inv (lists k) (pools k)"
  shows "timer_scan h time k =
    Inr (hd_opt (dropWhile (\<lambda>t. awakening_time (timer_items k t) \<le> time) (lst k h)),
         last_opt (takeWhile (\<lambda>t. awakening_time (timer_items k t) \<le> time) (lst k h)))"
proof -
  have "dseg (node (lists k)) None (list_first h k) (lst k h) (lh_last (head (lists k) h)) None"
    using lists_ok_dlist [OF struct_lists_ok [OF inv], of h] by (simp add: dlist_def list_first_def)
  from timer_scan_dseg [where T = "timer_items k" and prv = None, OF this] show ?thesis
    by (auto simp: timer_scan_def Let_def)
qed

text \<open>The place of a new timer: after all the timers that do not expire later.\<close>

definition timer_insert :: "(ptr \<Rightarrow> TimerItem) \<Rightarrow> int \<Rightarrow> ptr \<Rightarrow> ptr list \<Rightarrow> ptr list" where
  "timer_insert T time t ts =
     takeWhile (\<lambda>t. awakening_time (T t) \<le> time) ts @ t # dropWhile (\<lambda>t. awakening_time (T t) \<le> time) ts"

lemma insert_after_takeWhile:
  "distinct xs \<Longrightarrow> insert_after (last_opt (takeWhile P xs)) x xs = takeWhile P xs @ x # dropWhile P xs"
proof (cases "takeWhile P xs" rule: rev_cases)
  case Nil
  then have "dropWhile P xs = xs" by (cases xs) (auto split: if_splits)
  with Nil show ?thesis by simp
next
  case (snoc ys y)
  assume "distinct xs"
  with snoc have "y \<notin> set ys" by (metis distinct_append not_distinct_conv_prefix takeWhile_dropWhile_id)
  then have "insert_after (Some y) x (ys @ y # dropWhile P xs) = ys @ y # x # dropWhile P xs"
    by (rule insert_after_split)
  moreover have "xs = ys @ y # dropWhile P xs"
    using takeWhile_dropWhile_id [of P xs] snoc by simp
  ultimately show ?thesis using snoc by simp
qed

lemma set_timer_insert [simp]: "set (timer_insert T time t ts) = insert t (set ts)"
proof -
  have "set ts = set (takeWhile (\<lambda>t. awakening_time (T t) \<le> time) ts) \<union> set (dropWhile (\<lambda>t. awakening_time (T t) \<le> time) ts)"
    by (metis set_append takeWhile_dropWhile_id)
  then show ?thesis by (auto simp: timer_insert_def)
qed

lemma sorted_timer_insert:
  assumes "sorted (map (\<lambda>t. awakening_time (T t)) ts)" and "awakening_time (T t) = time"
  shows "sorted (map (\<lambda>t. awakening_time (T t)) (timer_insert T time t ts))"
  using assms
proof (induction ts)
  case (Cons x ts)
  have "set (timer_insert T time t ts) = insert t (set ts)" by simp
  with Cons show ?case by (auto simp: timer_insert_def)
qed (simp add: timer_insert_def)

lemma TimerList_add_rule:
  assumes inv: "struct_inv (lists k) (pools k)"
    and full: "room k Timer_item_buffer \<le> 0 \<Longrightarrow> Q (None, k)"
    and Q: "\<And>t m P. struct_inv m P \<Longrightarrow> t \<notin> in_use k Timer_item_buffer \<Longrightarrow> 
      unlisted (lists k) t \<Longrightarrow>
      contents m = (lst k)(Timer_list := timer_insert (timer_items k) time t (lst k Timer_list)) \<Longrightarrow>
      (\<And>x. x \<noteq> t \<Longrightarrow> loose (lists k) x \<Longrightarrow> loose m x) \<Longrightarrow>
      pools_take (pools k) Timer_item_buffer t P \<Longrightarrow>
      Q (Some t, k\<lparr>pools := P, timer_items := (timer_items k)(t := \<lparr>awakening_time = time, timer_pcb = pcb\<rparr>), lists := m\<rparr>)"
  shows "ok_with (TimerList_add Timer_list time pcb k) Q"
  unfolding TimerList_add_def timer_scan_lst [OF inv]
  apply (simp add: ok_with_and_then)
  apply (rule TimerItem_alloc_rule [OF inv])
  subgoal using full by simp
  subgoal for t m P
    apply (simp add: ok_with_and_then)
    apply (rule insert_rule)
    subgoal by simp
    subgoal by simp
    subgoal by (simp add: pools_take_def)
    subgoal by (auto split: option.split dest: last_opt_in set_takeWhileD)
    subgoal for m2
      using Q [of m2 P t] struct_dead_unlisted [OF inv, of t] struct_distinct [OF inv, of Timer_list]
      by (cases "t \<in> in_use k Timer_item_buffer")
        (auto simp: pools_take_def insert_after_takeWhile timer_insert_def)
    done
  done

section \<open>Sleep\<close>

lemma timer_insert_fresh:
  "t \<notin> set ts \<Longrightarrow> timer_insert (T(t := v)) time t ts = timer_insert T time t ts"
  unfolding timer_insert_def by (rule arg_cong2 [where f = "\<lambda>xs ys. xs @ t # ys"])
    (rule takeWhile_cong dropWhile_cong; auto)+

lemma sleep_timers:
  assumes T: "timers_ok k" and t: "t \<notin> set (lst k Timer_list)" and r: "r \<notin> set (lst k Waiting_list)"
    and L: "lst k' Timer_list = timer_insert (timer_items k) time t (lst k Timer_list)"
    and items: "timer_items k' = (timer_items k)(t := \<lparr>awakening_time = time, timer_pcb = r\<rparr>)"
    and B: "blocked DSOS_CALL_SLEEP k' = insert r (blocked DSOS_CALL_SLEEP k)"
    and tm: "\<And>p. p \<in> in_use k' Pcb_buffer \<Longrightarrow> timer (pcbs k' p) = None"
  shows "timers_ok k'"
proof -
  let ?T = "timer_items k'"
  have same: "?T x = timer_items k x" if "x \<in> set (lst k Timer_list)" for x using that t by (auto simp: items)
  have L': "lst k' Timer_list = timer_insert ?T time t (lst k Timer_list)"
    using t by (simp add: L items timer_insert_fresh)
  have "map (\<lambda>t. awakening_time (?T t)) (lst k Timer_list) = map (\<lambda>t. awakening_time (timer_items k t)) (lst k Timer_list)"
    using same by (intro map_cong) auto
  moreover have "sorted (map (\<lambda>t. awakening_time (timer_items k t)) (lst k Timer_list))"
    using T by (simp add: timers_ok_def)
  ultimately have "sorted (map (\<lambda>t. awakening_time (?T t)) (lst k Timer_list))" by (simp only:)
  then have "sorted (map (\<lambda>t. awakening_time (?T t)) (lst k' Timer_list))"
    unfolding L' by (rule sorted_timer_insert) (simp add: items)
  moreover have "r \<notin> blocked DSOS_CALL_SLEEP k" using r by (simp add: blocked_def)
  moreover have "timer_pcb (timer_items k x) \<in> blocked DSOS_CALL_SLEEP k" if "x \<in> set (lst k Timer_list)" for x
    using T that by (simp add: timers_ok_def)
  moreover have "\<exists>x \<in> set (lst k Timer_list). timer_pcb (?T x) = p" if "p \<in> blocked DSOS_CALL_SLEEP k" for p
  proof -
    from T that have "\<exists>x \<in> set (lst k Timer_list). timer_pcb (timer_items k x) = p" by (simp add: timers_ok_def)
    then obtain x where "x \<in> set (lst k Timer_list)" "timer_pcb (timer_items k x) = p" ..
    with same show ?thesis by (intro bexI [of _ x]) auto
  qed
  ultimately show ?thesis
    using T t tm unfolding timers_ok_def
    by (simp add: L B inj_on_def) (auto simp: items)
qed

definition slept :: "ptr \<Rightarrow> int \<Rightarrow> kernel \<Rightarrow> kernel \<Rightarrow> bool" where [effects]:
  "slept r time k k' \<longleftrightarrow>
     lst k' Waiting_list = lst k Waiting_list @ [r] \<and> status (pcbs k' r) = Waiting \<and>
     running k' = hd_opt (lst k Ready_list) \<and> lst k' Ready_list = tl (lst k Ready_list) \<and>
     (\<exists>t. t \<notin> set (lst k Timer_list) \<and>
          timer_items k' = (timer_items k)(t := \<lparr>awakening_time = time, timer_pcb = r\<rparr>) \<and>
          lst k' Timer_list = timer_insert (timer_items k) time t (lst k Timer_list))"

lemma sleep_state_ok:
  assumes ok: "kernel_ok k" and run: "running k = Some r"
    and call: "syscall_num (pcbs k r) = DSOS_CALL_SLEEP"
    and t: "t \<notin> set (lst k Timer_list)" "pools_take (pools k) Timer_item_buffer t P"
    and m: "struct_inv m P"
      "contents m = (lst k)(Timer_list := timer_insert (timer_items k) time t (lst k Timer_list),
         Waiting_list := lst k Waiting_list @ [r], Ready_list := tl (lst k Ready_list))"
      "\<And>p. hd_opt (lst k Ready_list) = Some p \<Longrightarrow> loose m p"
    and k': "k' = (set_status r Waiting (k\<lparr>pools := P, timer_items := (timer_items k)
        (t := \<lparr>awakening_time = time, timer_pcb = r\<rparr>), lists := m\<rparr>))\<lparr>running := hd_opt (lst k Ready_list)\<rparr>"
  shows "kernel_ok k' \<and> slept r time k k'"
proof -
  note S = kernel_okD [OF ok]
  have B: "blocked n k' = (if n = DSOS_CALL_SLEEP then insert r (blocked n k) else blocked n k)" for n
    using call by (subst block_blocked [of _ k r]) (simp_all add: m k')
  have "kernel_ok k'"
  proof (rule block_ok [OF ok run])
    show "timers_ok k'"
      by (rule sleep_timers [OF S(5) t(1) running_notin [OF ok run]])
        (use S(5) t(2) in \<open>simp_all add: m k' B [unfolded k', simplified] timers_ok_def pools_take_def\<close>)
    show "waiters_ok Wait_getters DSOS_CALL_BQ_GET k'"
      by (rule waiters_frame [OF S(6)]) (simp_all add: m k' B [unfolded k', simplified] dsos_consts)
    show "waiters_ok Wait_putters DSOS_CALL_BQ_PUT k'"
      by (rule waiters_frame [OF S(7)]) (simp_all add: m k' B [unfolded k', simplified] dsos_consts)
    show "queues_ok k'" by (rule queues_frame [OF S(9)]) (simp_all add: m k')
    show "leak_free k'" using S(11) t(2) by (auto simp: leak_free_def m k' pools_take_def)
  qed (use t(2) call in \<open>simp_all add: m k' pools_take_def\<close>)
  moreover have "slept r time k k'" using t by (auto simp: slept_def m k')
  ultimately show ?thesis ..
qed


text \<open>The end of \<open>sleep\<close>: the next ready process runs, or the status is printed.\<close>

lemma print_out_nil [simp]: "print_out [] k = k"
  by (simp add: print_out_def)

lemma print_out_twice: "print_out t (print_out s k) = print_out (s @ t) k"
  by (simp add: print_out_def)

lemma sleep_tail_rule:
  assumes inv: "struct_inv (lists k) (pools k)"
    and Q: "\<And>m s. struct_inv m (pools k) \<Longrightarrow> contents m = (lst k)(Ready_list := tl (lst k Ready_list)) \<Longrightarrow>
      (\<And>p. hd_opt (lst k Ready_list) = Some p \<Longrightarrow> loose m p) \<Longrightarrow>
      Q (print_out s (k\<lparr>lists := m, running := hd_opt (lst k Ready_list)\<rparr>))"
  shows "ok_with (sleep_dispatch k) Q"
proof (cases "lst k Ready_list")
  case Nil
  let ?s = "''they are all sleeping'' @ newline"
  from printStatus_total [of "print_out ?s (k\<lparr>running := None\<rparr>)"] inv
  obtain s where s: "disastrOS_printStatus (print_out ?s (k\<lparr>running := None\<rparr>))
    = Inr (print_out s (print_out ?s (k\<lparr>running := None\<rparr>)))" by auto
  have "lst k = (lst k)(Ready_list := [])" by (auto simp: fun_eq_iff Nil)
  with Q [of "lists k" "?s @ s"] inv Nil show ?thesis
    by (simp only: sleep_dispatch_def list_first_lst [OF inv] s print_out_twice ok_with.simps) auto
next
  case (Cons p ps)
  show ?thesis
    unfolding sleep_dispatch_def list_first_lst [OF inv] Cons
    apply (simp add: ok_with_and_then)
    apply (rule detach_rule [OF inv])
    subgoal by (simp add: Cons)
    subgoal for m using Q [of m "[]"] by (simp add: Cons)
    done
qed

lemma sleep_ok:
  assumes ok: "kernel_ok k" and run: "running k = Some r"
    and call: "syscall_num (pcbs k r) = DSOS_CALL_SLEEP"
    and time: "time = disastrOS_time k + to_int (syscall_args (pcbs k r) 0)"
      "- (2 ^ 31) \<le> time" "time < 2 ^ 31"
    and room: "0 < room k Timer_item_buffer"
  shows "ok_with (internal_sleep k) (\<lambda>k'. kernel_ok k' \<and> slept r time k k')"
proof -
  note S = kernel_okD [OF ok]
  note R = running_loose [OF ok run]
  have tm: "timer (pcbs k r) = None" using S(5) R by (simp add: timers_ok_def)
  have add: "add_int (disastrOS_time k) (to_int (syscall_args (pcbs k r) 0)) = Inr time"
    unfolding time(1) by (rule add_int_ok) (use time in simp_all)
  show ?thesis
    unfolding internal_sleep_def run
    apply (simp add: tm add Let_def ok_with_and_then)
    apply (rule TimerList_add_rule [OF S(1)])
    subgoal using room by simp
    subgoal for t m P
      apply (cases "t = r")
      subgoal using R struct_region [OF S(1), of r Pcb_buffer] by (simp add: pools_take_def)
      apply (simp add: ok_with_and_then)
      apply (rule append_rule)
      subgoal by simp
      subgoal using R by simp
      subgoal using R by (simp add: pools_take_def)
      subgoal for m2
        apply (rule sleep_tail_rule)
        subgoal by simp
        subgoal for m3 s
          using sleep_state_ok [OF ok run call, of t P m3 time, OF _ _ _ _ _ refl]
            struct_listed_region [OF S(1), of t]
          apply (simp add: unlisted_def slept_def)
          done
          
        done
      done
    done
qed

section \<open>The timer interrupt\<close>

lemma wake_sleeper_ok:
  assumes ok: "kernel_ok k" and ts: "lst k Timer_list = t # ts" and p: "p = timer_pcb (timer_items k t)"
    and P: "pools_give (pools k) Timer_item_buffer t P"
    and m: "struct_inv m P"
      "contents m = (lst k)(Timer_list := ts, Waiting_list := remove1 p (lst k Waiting_list),
         Ready_list := lst k Ready_list @ [p])"
    and run: "\<And>r. running k = Some r \<Longrightarrow> loose m r"
    and k': "k' = upd_pcb p (\<lambda>b. b\<lparr>timer := None, status := Ready\<rparr>) (k\<lparr>pools := P, lists := m\<rparr>)"
  shows "kernel_ok k'"
proof (rule wake_ok [OF ok])
  note S = kernel_okD [OF ok]
  have t: "p \<in> blocked DSOS_CALL_SLEEP k" using S(5) ts p by (simp add: timers_ok_def)
  then show w: "p \<in> set (lst k Waiting_list)" by (simp add: blocked_def)
  have call: "syscall_num (pcbs k p) = DSOS_CALL_SLEEP" using t by (simp add: blocked_def)
  have B: "blocked n k' = (if n = DSOS_CALL_SLEEP then blocked n k - {p} else blocked n k)" for n
    using call by (subst wake_blocked [OF _ _ S(1), of _ p]) (simp_all add: m k' blocked_other)
  show "timers_ok k'"
  proof -
    have L: "lst k' Timer_list = ts" "timer_items k' = timer_items k"
      "in_use k' Pcb_buffer = in_use k Pcb_buffer" "blocked DSOS_CALL_SLEEP k' = blocked DSOS_CALL_SLEEP k - {p}"
      using B P by (simp_all add: k' m pools_give_def)
    have "timer (pcbs k' x) = None" if "x \<in> in_use k Pcb_buffer" for x
      using S(5) that by (simp add: k' upd_pcb_at timers_ok_def)
    then show ?thesis
      using S(5) struct_distinct [OF S(1), of Timer_list]
      unfolding timers_ok_def L ts p by (auto simp: inj_on_def)
  qed
  show "waiters_ok Wait_getters DSOS_CALL_BQ_GET k'"
    by (rule waiters_frame [OF S(6)]) (simp_all add: m k' B [unfolded k', simplified] dsos_consts)
  show "waiters_ok Wait_putters DSOS_CALL_BQ_PUT k'"
    by (rule waiters_frame [OF S(7)]) (simp_all add: m k' B [unfolded k', simplified] dsos_consts)
  show "queues_ok k'" by (rule queues_frame [OF S(9)]) (simp_all add: m k')
  show "leak_free k'" using S(11) P ts by (auto simp: leak_free_def m k' pools_give_def)
qed (use P run in \<open>simp_all add: m k' pools_give_def\<close>)

lemma wake_expired_ok:
  assumes ok: "kernel_ok k" and ts: "lst k Timer_list = t # ts"
    and exp: "awakening_time (timer_items k t) \<le> disastrOS_time k"
    and p: "p = timer_pcb (timer_items k t)"
  shows "ok_with (wake_expired k) (\<lambda>k'. kernel_ok k' \<and> (\<exists>m P.
    live (P Pcb_buffer) = in_use k Pcb_buffer \<and> contents m = (lst k)(Timer_list := ts, Waiting_list := remove1 p (lst k Waiting_list),
         Ready_list := lst k Ready_list @ [p]) \<and>
    k' = upd_pcb p (\<lambda>b. b\<lparr>timer := None, status := Ready\<rparr>) (k\<lparr>pools := P, lists := m\<rparr>)))"
proof -
  note S = kernel_okD [OF ok]
  have cur: "TimerList_current Timer_list (disastrOS_time k) k = Some t"
    using exp ts by (simp add: TimerList_current_def list_first_lst [OF S(1)])
  have t: "p \<in> blocked DSOS_CALL_SLEEP k" using S(5) ts p by (simp add: timers_ok_def)
  then have w: "p \<in> set (lst k Waiting_list)" by (simp add: blocked_def)
  have tl: "t \<in> in_use k Timer_item_buffer" using struct_live [OF S(1), of t Timer_list] ts by simp
  have pl: "p \<in> in_use k Pcb_buffer" using struct_live [OF S(1) w] by simp
  show ?thesis
    unfolding wake_expired_def cur
    apply (simp add: p [symmetric] TimerList_removeCurrent_def TimerItem_free_def ok_with_and_then)
    apply (rule detach_first_rule [OF S(1) ts])
    apply (simp add: ok_with_and_then)
    apply (rule release_rule)
    subgoal by simp
    subgoal using tl by simp
    subgoal by (simp add: loose_def)
    subgoal for m P
      apply (simp add: find_lst [of m] w ok_with_and_then)
      apply (rule detach_rule)
      subgoal by simp
      subgoal using w by simp
      subgoal for m2
        apply simp
        apply (rule append_rule)
        subgoal by simp
        subgoal by simp
        subgoal using pl by (simp add: pools_give_def)
        subgoal for m3
          using wake_sleeper_ok [OF ok ts p, of P m3, OF _ _ _ _ refl] running_loose [OF ok] w
            loose_notin [of "lists k" p Waiting_list]
          apply simp
          apply (rule conjI)
           apply (metis loose_notin)
          apply (rule exI [of _ m3], simp, rule exI [of _ P], simp add: pools_give_def)
          done
        done
      done
    done
qed

text \<open>The timers that have expired at a time, and what waking their processes does.\<close>

definition expired :: "kernel \<Rightarrow> ptr list" where
  "expired k = takeWhile (\<lambda>t. awakening_time (timer_items k t) \<le> disastrOS_time k) (lst k Timer_list)"

definition woken :: "kernel \<Rightarrow> ptr list" where
  "woken k = map (\<lambda>t. timer_pcb (timer_items k t)) (expired k)"

definition all_woken :: "kernel \<Rightarrow> kernel \<Rightarrow> bool" where
  "all_woken k k' \<longleftrightarrow>
     contents (lists k') = (lst k)
       (Timer_list := dropWhile (\<lambda>t. awakening_time (timer_items k t) \<le> disastrOS_time k) (lst k Timer_list),
        Waiting_list := [p \<leftarrow> lst k Waiting_list. p \<notin> set (woken k)],
        Ready_list := lst k Ready_list @ woken k) \<and>
     running k' = running k \<and> timer_items k' = timer_items k \<and> disastrOS_time k' = disastrOS_time k \<and>
     log_file k' = log_file k"

lemma wake_all_ok:
  "kernel_ok k \<Longrightarrow> ok_with (wake_all_expired k) (\<lambda>k'. kernel_ok k' \<and> all_woken k k')"
proof (induction "lst k Timer_list" arbitrary: k)
  case Nil
  note S = kernel_okD [OF Nil(2)]
  from Nil(1) have "TimerList_current Timer_list (disastrOS_time k) k = None"
    by (simp add: TimerList_current_def list_first_lst [OF S(1)])
  moreover have "all_woken k k"
    using Nil(1) [symmetric] by (auto simp: all_woken_def woken_def expired_def fun_eq_iff)
  ultimately show ?case using Nil by (simp add: wake_all_expired_def c_while_stop)
next
  case (Cons t ts)
  note S = kernel_okD [OF Cons(3)]
  note ts = Cons(2) [symmetric]
  show ?case
  proof (cases "awakening_time (timer_items k t) \<le> disastrOS_time k")
    case False
    have "TimerList_current Timer_list (disastrOS_time k) k = None"
      using False by (simp add: TimerList_current_def list_first_lst [OF S(1)] ts)
    moreover have "all_woken k k"
      using False ts by (auto simp: all_woken_def woken_def expired_def fun_eq_iff)
    ultimately show ?thesis using Cons(3) by (simp add: wake_all_expired_def c_while_stop)
  next
    case True
    let ?p = "timer_pcb (timer_items k t)"
    have cur: "TimerList_current Timer_list (disastrOS_time k) k \<noteq> None"
      using True by (simp add: TimerList_current_def list_first_lst [OF S(1)] ts)
    have "ok_with (wake_expired k) (\<lambda>k1. ok_with (wake_all_expired k1) (\<lambda>k'. kernel_ok k' \<and> all_woken k k'))"
    proof (rule ok_with_mono [OF wake_expired_ok [OF Cons(3) ts True refl]], elim conjE exE)
      fix k1 m P
      assume k1: "kernel_ok k1"
        "contents m = (lst k)(Timer_list := ts, Waiting_list := remove1 ?p (lst k Waiting_list),
         Ready_list := lst k Ready_list @ [?p])"
        "k1 = upd_pcb ?p (\<lambda>b. b\<lparr>timer := None, status := Ready\<rparr>) (k\<lparr>pools := P, lists := m\<rparr>)"
      have d: "distinct (lst k Waiting_list)" by (rule struct_distinct [OF S(1)])
      have ts1: "ts = lst k1 Timer_list" by (simp add: k1)
      show "ok_with (wake_all_expired k1) (\<lambda>k'. kernel_ok k' \<and> all_woken k k')"
        by (rule ok_with_mono [OF Cons(1) [OF ts1 k1(1)]])
          (use True in \<open>simp add: all_woken_def woken_def expired_def k1(2,3) ts remove1_filter [OF d] fun_upd_twist conj_commute\<close>)
    qed
    then show ?thesis
      unfolding wake_all_expired_def
      by (subst c_while_step [where s = k and b = "\<lambda>k. TimerList_current Timer_list (disastrOS_time k) k \<noteq> None", OF cur])
        (simp add: ok_with_and_then)
  qed
qed

lemma timer_dispatch_eq: "timer_dispatch k = internal_schedule k"
proof (cases "list_first Ready_list k")
  case (Some p)
  then show ?thesis
    by (cases "running k"; cases "List_detach Ready_list (Some p) (lists k)")
      (auto simp: timer_dispatch_def internal_schedule_def k_detach_def)
qed (simp add: timer_dispatch_def internal_schedule_def)

text \<open>
  The interrupt as a whole.  Afterwards no timer in the list is due, and control goes to the running
  process or, when there is none, back to the main context.
\<close>

lemma expired_none:
  assumes "timers_ok k"
    and "t \<in> set (dropWhile (\<lambda>t. awakening_time (timer_items k t) \<le> now) (lst k Timer_list))"
  shows "now < awakening_time (timer_items k t)"
proof -
  have aux: "sorted (map (\<lambda>t. awakening_time (timer_items k t)) ts) \<Longrightarrow>
    t \<in> set (dropWhile (\<lambda>t. awakening_time (timer_items k t) \<le> now) ts) \<Longrightarrow>
    now < awakening_time (timer_items k t)" for ts
    by (induction ts) (auto split: if_splits)
  show ?thesis by (rule aux [of "lst k Timer_list"]) (use assms in \<open>simp_all add: timers_ok_def\<close>)
qed

lemma schedule_keeps:
  assumes ok: "kernel_ok k"
  shows "ok_with (internal_schedule k) (\<lambda>k'. disastrOS_time k' = disastrOS_time k \<and> timer_items k' = timer_items k \<and>
    log_file k' = log_file k \<and>
    running k' = (case lst k Ready_list of [] \<Rightarrow> running k | p # _ \<Rightarrow> Some p) \<and>
    contents (lists k') = (lst k)(Ready_list := 
      (case lst k Ready_list of [] \<Rightarrow> [] | _ # ps \<Rightarrow> ps @ (case running k of None \<Rightarrow> [] | Some r \<Rightarrow> [r]))))"
  by (rule schedule_rule) (use kernel_okD(1) [OF ok] running_loose [OF ok] in \<open>auto simp: fun_eq_iff\<close>)

text \<open>The processes whose timers are due at the next tick, in the order of their times.\<close>

abbreviation due :: "kernel \<Rightarrow> ptr list" where
  "due k \<equiv> woken (k\<lparr>disastrOS_time := disastrOS_time k + 1\<rparr>)"

definition woken_and_dispatched :: "kernel \<Rightarrow> kernel \<Rightarrow> bool" where
  "woken_and_dispatched k k' \<longleftrightarrow>
     disastrOS_time k' = disastrOS_time k + 1 \<and>
     (\<forall>t \<in> set (lst k' Timer_list). disastrOS_time k' < awakening_time (timer_items k' t)) \<and>
     lst k' Waiting_list = [p \<leftarrow> lst k Waiting_list. p \<notin> set (due k)] \<and>
     running k' = (case lst k Ready_list @ due k of [] \<Rightarrow> running k | p # _ \<Rightarrow> Some p) \<and>
     lst k' Ready_list = (case lst k Ready_list @ due k of [] \<Rightarrow> [] | _ # ps \<Rightarrow>
       ps @ (case running k of None \<Rightarrow> [] | Some r \<Rightarrow> [r]))"

definition interrupted :: "kernel \<Rightarrow> control \<Rightarrow> kernel \<Rightarrow> bool" where
  "interrupted k c k' \<longleftrightarrow> woken_and_dispatched k k' \<and>
     c = (case running k' of Some r \<Rightarrow> To_process r | None \<Rightarrow> To_main)"

lemma time_ok [simp]: "kernel_ok (k\<lparr>disastrOS_time := n\<rparr>) = kernel_ok k"
  by (simp add: kernel_ok_def kernel_ok_parts blocked_def)

lemma wake_and_dispatch_ok:
  assumes ok: "kernel_ok k"
  shows "ok_with (wake_all_expired ((log_out s k)\<lparr>disastrOS_time := disastrOS_time k + 1\<rparr>)) (\<lambda>k3. ok_with (timer_dispatch k3)
    (\<lambda>k4. kernel_ok k4 \<and> woken_and_dispatched k k4))"
  unfolding timer_dispatch_eq
proof (rule ok_with_mono [OF wake_all_ok])
  let ?k2 = "(log_out s k)\<lparr>disastrOS_time := disastrOS_time k + 1\<rparr>"
  show "kernel_ok ?k2" using ok by simp
  fix k3
  assume "kernel_ok k3 \<and> all_woken ?k2 k3"
  then have k3: "kernel_ok k3" "all_woken ?k2 k3" by auto
  have w: "woken ?k2 = due k" by (simp add: woken_def expired_def)
  show "ok_with (internal_schedule k3) (\<lambda>k4. kernel_ok k4 \<and> woken_and_dispatched k k4)"
    by (rule ok_with_mono [OF ok_with_conj [OF schedule_ok [OF k3(1)] schedule_keeps [OF k3(1)]]])
      (use k3(2) w expired_none [OF kernel_okD(5) [OF ok]]
        in \<open>simp add: all_woken_def woken_and_dispatched_def split: list.split\<close>)
qed

lemma timerInterrupt_ok:
  assumes ok: "kernel_ok k" and time: "- (2 ^ 31) \<le> disastrOS_time k + 1" "disastrOS_time k + 1 < 2 ^ 31"
  shows "ok_with (timerInterrupt k) (\<lambda>(c, k'). kernel_ok k' \<and> interrupted k c k')"
  using wake_and_dispatch_ok [OF ok, of "log_line (disastrOS_time k) (running_pid k) ''TIMER_OUT''"] add_int_ok [OF time]
  apply (simp add: timerInterrupt_def Let_def ok_with_and_then)
  apply (rule ok_with_mono, assumption)
  apply (rule ok_with_mono, assumption)
  apply (simp add: interrupted_def woken_and_dispatched_def split: option.split)
  done

end
