(* ===== verification/Resource_Correct.thy ===== *)
theory Resource_Correct
  imports Scheduling
begin

text \<open>
  Correctness of the resource calls: \<open>openResource\<close> with its lookup, creation and descriptor,
  \<open>closeResource\<close> and \<open>destroyResource\<close>, each on every branch and with the invariant kept.
\<close>

section \<open>Opening\<close>

lemma open_descriptor_rule:
  assumes inv: "struct_inv (lists k) (pools k)" and r: "r \<in> in_use k Pcb_buffer"
    and room: "0 < room k Descriptor_buffer" "0 < room k Descriptor_ptr_buffer"
    and fd: "- (2 ^ 31) \<le> last_fd (pcbs k r) + 1" "last_fd (pcbs k r) + 1 < 2 ^ 31"
    and Q: "\<And>d w m P. struct_inv m P \<Longrightarrow> d \<notin> in_use k Descriptor_buffer \<Longrightarrow> w \<notin> in_use k Descriptor_ptr_buffer \<Longrightarrow> 
      unlisted (lists k) d \<Longrightarrow> unlisted (lists k) w \<Longrightarrow> 
      contents m = (lst k)(Descriptors r := lst k (Descriptors r) @ [d], Descriptors_ptrs res := lst k (Descriptors_ptrs res) @ [w]) \<Longrightarrow>
      (\<And>x. x \<in> in_use k Pcb_buffer \<Longrightarrow> loose (lists k) x \<Longrightarrow> loose m x) \<Longrightarrow>
      (\<And>r'. live (P r') = (if r' = Descriptor_buffer then insert d (in_use k r')
        else if r' = Descriptor_ptr_buffer then insert w (in_use k r') else in_use k r')) \<Longrightarrow>
      (\<And>r'. pa_size (P r') = (if r' = Descriptor_buffer \<or> r' = Descriptor_ptr_buffer then room k r' - 1 else room k r')) \<Longrightarrow>
      Q (upd_pcb r (\<lambda>b. b\<lparr>last_fd := last_fd (pcbs k r) + 1, syscall_retvalue := last_fd (pcbs k r)\<rparr>)
        (k\<lparr>descriptors := (descriptors k)(d := (descriptors k d)\<lparr>des_fd := last_fd (pcbs k r), des_resource := res, des_pcb := r, 
              des_ptr := Some w\<rparr>),
           descriptor_ptrs := (descriptor_ptrs k)(w := d), pools := P, lists := m\<rparr>))"
  shows "ok_with (open_descriptor r res k) Q"
  unfolding open_descriptor_def
  apply (simp add: ok_with_and_then)
  apply (rule Descriptor_alloc_rule [OF inv])
  subgoal using room by simp
  subgoal for d m P
    apply (simp add: add_int_ok [OF fd] Let_def ok_with_and_then)
    apply (rule DescriptorPtr_alloc_rule)
    subgoal by simp
    subgoal using room by (simp add: pools_take_def)
    subgoal for w m2 P2
      apply (simp add: ok_with_and_then)
      apply (rule append_rule)
      subgoal by simp
      subgoal by simp
      subgoal by (simp add: pools_take_def)
      subgoal for m3
        apply (simp add: ok_with_and_then flip: k_append_def)
        apply (rule append_rule)
        subgoal by simp
        subgoal by (cases "w = d") (auto simp: pools_take_def)
        subgoal by (simp add: pools_take_def)
        subgoal for m4
          apply (rule back_subst [where P = Q, OF Q [of m4 P2 d w]])
                   apply (simp_all add: pools_take_def struct_dead_unlisted [OF inv])
          subgoal for x using struct_region [OF inv, of x Pcb_buffer] by (cases "x = d \<or> x = w") auto
          subgoal by (rule kernel.equality; simp add: upd_pcb_def)
          done
        done
      done
    done
  done

lemma descriptors_attach:
  assumes D: "descriptors_ok k" and res: "res \<in> set (lst k Resources_list)"
    and d: "d \<notin> in_use k Descriptor_buffer" "unlisted (lists k) d" and w: "unlisted (lists k) w"
    and fd: "fd = last_fd (pcbs k r)" "last_fd (pcbs k' r) = fd + 1"
      "\<And>p. p \<noteq> r \<Longrightarrow> last_fd (pcbs k' p) = last_fd (pcbs k p)"
    and L: "lst k' Resources_list = lst k Resources_list"
      "\<And>p. lst k' (Descriptors p) = (if p = r then lst k (Descriptors r) @ [d] else lst k (Descriptors p))"
      "\<And>q. lst k' (Descriptors_ptrs q) =
         (if q = res then lst k (Descriptors_ptrs res) @ [w] else lst k (Descriptors_ptrs q))"
    and U: "in_use k' Descriptor_buffer = insert d (in_use k Descriptor_buffer)"
      "room k' Descriptor_ptr_buffer = room k' Descriptor_buffer"
    and new: "des_fd (descriptors k' d) = fd" "des_resource (descriptors k' d) = res"
      "des_ptr (descriptors k' d) = Some w" "\<And>x. x \<noteq> d \<Longrightarrow> descriptors k' x = descriptors k x"
      "descriptor_ptrs k' = (descriptor_ptrs k)(w := d)" "resources k' = resources k"
  shows "descriptors_ok k'"
proof (rule descriptors_okI)
  have old_d: "x \<noteq> d" if "x \<in> set (lst k (Descriptors p))" for x p using d that by (auto simp: unlisted_def)
  have old_w: "x \<noteq> w" "descriptor_ptrs k x \<noteq> d" if "x \<in> set (lst k (Descriptors_ptrs q))" for x q
    using w d descriptor_back [OF D that] that by (auto simp: unlisted_def)
  have listed: "x = d \<and> p = r \<or> x \<in> set (lst k (Descriptors p)) \<and> x \<noteq> d"
    if "x \<in> set (lst k' (Descriptors p))" for x p
    using that old_d by (auto simp: L split: if_splits)
  have fds: "des_fd (descriptors k x) < fd" if "x \<in> set (lst k (Descriptors r))" for x
    using descriptor_fd [OF D that] fd by simp
  show "des_fd (descriptors k' x) < last_fd (pcbs k' p)" if "x \<in> set (lst k' (Descriptors p))" for x p
    using listed [OF that] descriptor_fd [OF D, of x p] fd new by (cases "p = r") auto
  show "\<exists>v. des_ptr (descriptors k' x) = Some v \<and> descriptor_ptrs k' v = x \<and>
             v \<in> set (lst k' (Descriptors_ptrs (des_resource (descriptors k' x))))"
    if "x \<in> set (lst k' (Descriptors p))" for x p
    using listed [OF that]
  proof
    assume "x = d \<and> p = r"
    then show ?thesis by (simp add: new L)
  next
    assume x: "x \<in> set (lst k (Descriptors p)) \<and> x \<noteq> d"
    then obtain v where v: "des_ptr (descriptors k x) = Some v" "descriptor_ptrs k v = x"
      "v \<in> set (lst k (Descriptors_ptrs (des_resource (descriptors k x))))"
      using descriptor_link [OF D] by blast
    with old_w [OF v(3)] x show ?thesis by (auto simp: L new)
  qed
  show "x = y" if "x \<in> set (lst k' (Descriptors p))" "y \<in> set (lst k' (Descriptors p))"
      "des_fd (descriptors k' x) = des_fd (descriptors k' y)" for p x y
    using listed [OF that(1)] listed [OF that(2)] that(3) descriptor_inj [OF D, of x p y] fds [of x] fds [of y]
    by (auto simp: new)
  show "descriptor_ptrs k' x \<in> in_use k' Descriptor_buffer \<and>
        des_ptr (descriptors k' (descriptor_ptrs k' x)) = Some x"
    if x: "x \<in> set (lst k' (Descriptors_ptrs q))" for x q
  proof (cases "x = w")
    case False
    with x have x': "x \<in> set (lst k (Descriptors_ptrs q))" by (auto simp: L split: if_splits)
    from descriptor_back [OF D x'] old_w [OF x'] False show ?thesis by (simp add: new U)
  qed (simp add: new U)
  show "inj_on (\<lambda>r. res_id (resources k' r)) (set (lst k' Resources_list))"
    using resource_ids_inj [OF D] by (simp add: L new)
  show "lst k' (Descriptors_ptrs q) = []" if "q \<notin> set (lst k' Resources_list)" for q
    using that resource_unlisted [OF D, of q] res by (auto simp: L)
  show "room k' Descriptor_ptr_buffer = room k' Descriptor_buffer" by (rule U)
qed

text \<open>What an open of a resource that exists does when it succeeds.\<close>

definition opened :: "ptr \<Rightarrow> ptr \<Rightarrow> kernel \<Rightarrow> kernel \<Rightarrow> bool" where [effects]:
  "opened r res k k' \<longleftrightarrow> (\<exists>d.
     lst k' (Descriptors r) = lst k (Descriptors r) @ [d] \<and> des_resource (descriptors k' d) = res \<and>
     des_pcb (descriptors k' d) = r \<and> des_fd (descriptors k' d) = last_fd (pcbs k r) \<and>
     last_fd (pcbs k' r) = last_fd (pcbs k r) + 1 \<and>
     syscall_retvalue (pcbs k' r) = des_fd (descriptors k' d))"

lemma open_descriptor_ok:
  assumes ok: "kernel_ok k" and run: "running k = Some r" and res: "res \<in> set (lst k Resources_list)"
    and room: "0 < room k Descriptor_buffer"
    and fd: "- (2 ^ 31) \<le> last_fd (pcbs k r) + 1" "last_fd (pcbs k r) + 1 < 2 ^ 31"
  shows "ok_with (open_descriptor r res k) (\<lambda>k'. kernel_ok k' \<and> running k' = Some r \<and> opened r res k k' \<and>
    lst k' Resources_list = lst k Resources_list \<and> resources k' = resources k)"
proof (rule open_descriptor_rule)
  note S = kernel_okD [OF ok]
  show "struct_inv (lists k) (pools k)" by (rule S)
  show "r \<in> in_use k Pcb_buffer" using running_loose [OF ok run] by simp
  show "0 < room k Descriptor_ptr_buffer" using room descriptor_rooms [OF S(10)] by simp
  fix d w m P
  assume m: "struct_inv m P" "d \<notin> in_use k Descriptor_buffer"
      "unlisted (lists k) d" "unlisted (lists k) w"
      "contents m = (lst k)(Descriptors r := lst k (Descriptors r) @ [d], Descriptors_ptrs res := lst k (Descriptors_ptrs res) @ [w])"
      "\<And>x. x \<in> in_use k Pcb_buffer \<Longrightarrow> loose (lists k) x \<Longrightarrow> loose m x"
      "\<And>r'. live (P r') = (if r' = Descriptor_buffer then insert d (in_use k r')
        else if r' = Descriptor_ptr_buffer then insert w (in_use k r') else in_use k r')"
      "\<And>r'. pa_size (P r') = (if r' = Descriptor_buffer \<or> r' = Descriptor_ptr_buffer then room k r' - 1 else room k r')"
  let ?k = "upd_pcb r (\<lambda>b. b\<lparr>last_fd := last_fd (pcbs k r) + 1, syscall_retvalue := last_fd (pcbs k r)\<rparr>)
        (k\<lparr>descriptors := (descriptors k)(d := (descriptors k d)\<lparr>des_fd := last_fd (pcbs k r), des_resource := res, des_pcb := r, 
              des_ptr := Some w\<rparr>),
           descriptor_ptrs := (descriptor_ptrs k)(w := d), pools := P, lists := m\<rparr>)"
  have B: "blocked n ?k = blocked n k" for n by (rule blocked_frame) (simp_all add: m(5))
  have "kernel_ok ?k"
  proof (rule kernel_okI)
    show "sched_ok ?k" using S(2) running_loose [OF ok run] run by (auto simp: sched_ok_def m(5-))
    show "family_ok ?k" by (rule family_frame [OF S(3)]) (simp_all add: m(5-))
    show "pids_ok ?k" by (rule pids_frame [OF S(4)]) (simp_all add: m(5-))
    show "timers_ok ?k" by (rule timers_frame [OF S(5)]) (use S(5) in \<open>simp_all add: m(5-) B timers_ok_def\<close>)
    show "waiters_ok Wait_getters DSOS_CALL_BQ_GET ?k"
      by (rule waiters_frame [OF S(6)]) (simp_all add: m(5-) B)
    show "waiters_ok Wait_putters DSOS_CALL_BQ_PUT ?k"
      by (rule waiters_frame [OF S(7)]) (simp_all add: m(5-) B)
    show "calls_ok ?k" by (rule calls_frame [OF S(8)]) (simp_all add: m(5-))
    show "queues_ok ?k" by (rule queues_frame [OF S(9)]) (simp_all add: m(5-))
    show "descriptors_ok ?k"
      by (rule descriptors_attach [OF S(10) res m(2-4) refl])
        (simp_all add: m(5-) upd_pcb_at descriptor_rooms [OF S(10)])
    show "leak_free ?k" by (rule leak_frame [OF S(11)]) (auto simp: m(5-))
  qed (use m in simp)
  moreover have "opened r res k ?k" by (auto simp: opened_def m(5))
  ultimately show "kernel_ok ?k \<and> running ?k = Some r \<and> opened r res k ?k \<and>
    lst ?k Resources_list = lst k Resources_list \<and> resources ?k = resources k" using run by (simp add: m(5))
qed (use room fd in simp_all)


text \<open>The resource with a given id, if there is one.\<close>

definition resource_named :: "int \<Rightarrow> kernel \<Rightarrow> ptr option" where
  "resource_named rid k = List.find (\<lambda>r. res_id (resources k r) = rid) (lst k Resources_list)"

lemma byId_lst: "struct_inv (lists k) (pools k) \<Longrightarrow> ResourceList_byId Resources_list rid k = Inr (resource_named rid k)"
  by (simp add: ResourceList_byId_def resource_named_def scan_lst)

lemma create_state_ok:
  assumes ok: "kernel_ok k" and new: "resource_named rid k = None" and P: "pools_take (pools k) Resources_buffer res P"
    and m: "struct_inv m P" "contents m = (lst k)(Resources_list := lst k Resources_list @ [res])"
      "\<And>x. x \<noteq> res \<Longrightarrow> loose (lists k) x \<Longrightarrow> loose m x"
  shows "kernel_ok (k\<lparr>pools := P, resources := (resources k)(res := \<lparr>res_id = rid, res_type = type\<rparr>), lists := m\<rparr>)"
    (is "kernel_ok ?k")
proof (rule objects_ok [OF ok])
  note S = kernel_okD [OF ok]
  have fresh: "res \<notin> set (lst k Resources_list)"
    using P struct_live [OF S(1), of res Resources_list] by (auto simp: pools_take_def)
  show "loose (lists ?k) x" if "x \<in> in_use k Pcb_buffer" "loose (lists k) x" for x
    using m(3) [of x] that pcb_not_block [OF S(1) P _ that(1)] by simp
  show "queues_ok ?k" by (rule queues_frame [OF S(9)]) (simp_all add: m(2))
  have ids: "res_id (resources k r) \<noteq> rid" if "r \<in> set (lst k Resources_list)" for r
    using new that by (simp add: resource_named_def find_None_all)
  show "descriptors_ok ?k"
  proof (rule descriptors_okI)
    show "inj_on (\<lambda>r. res_id (resources ?k r)) (set (lst ?k Resources_list))"
      using resource_ids_inj [OF S(10)] fresh ids by (auto simp: m(2) inj_on_def)
    show "lst ?k (Descriptors_ptrs r) = []" if "r \<notin> set (lst ?k Resources_list)" for r
      using that resource_unlisted [OF S(10), of r] by (simp add: m(2))
  qed (use P descriptor_fd [OF S(10)] descriptor_link [OF S(10)] descriptor_inj [OF S(10)]
      descriptor_back [OF S(10)] descriptor_rooms [OF S(10)] in \<open>simp_all add: m(2) pools_take_def\<close>)
  show "leak_free ?k" using S(11) P by (auto simp: leak_free_def m(2) pools_take_def)
  show "lst ?k h = lst k h" if "kind h \<in> {Pcb_buffer, Timer_item_buffer, Pcb_ptr_buffer}" for h
    using that by (auto simp: m(2))
qed (use m P in \<open>simp_all add: pools_take_def\<close>)

lemma create_rule:
  assumes ok: "kernel_ok k" and new: "resource_named rid k = None" and room: "0 < room k Resources_buffer"
    and flag: "has_flag mode DSOS_CREATE"
    and Q: "\<And>res m P. res \<notin> set (lst k Resources_list) \<Longrightarrow>
      contents m = (lst k)(Resources_list := lst k Resources_list @ [res]) \<Longrightarrow>
      kernel_ok (k\<lparr>pools := P, resources := (resources k)(res := \<lparr>res_id = rid, res_type = type\<rparr>), lists := m\<rparr>) \<Longrightarrow>
      room (k\<lparr>pools := P\<rparr>) Descriptor_buffer = room k Descriptor_buffer \<Longrightarrow> live (P Pcb_buffer) = in_use k Pcb_buffer \<Longrightarrow>
      Q (Some res, k\<lparr>pools := P, resources := (resources k)(res := \<lparr>res_id = rid, res_type = type\<rparr>), lists := m\<rparr>)"
  shows "ok_with (open_lookup rid type mode res0 k) Q"
proof -
  note S = kernel_okD [OF ok]
  show ?thesis
    unfolding open_lookup_def
    apply (simp add: flag ok_with_and_then)
    apply (rule Resource_alloc_rule [OF S(1) room])
    subgoal for res m P
      apply (simp add: ok_with_and_then flip: k_append_def)
      apply (rule append_rule)
      subgoal by simp
      subgoal by simp
      subgoal by (simp add: pools_take_def)
      subgoal for m2
        using create_state_ok [OF ok new, of res P m2 type] Q [of res m2 P]
          struct_live [OF S(1), of res Resources_list] resource_unlisted [OF S(10), of res]
        by (simp add: pools_take_def fun_upd_idem) blast
      done
    done
qed

lemma resource_named_Some:
  "resource_named rid k = Some res \<Longrightarrow> res \<in> set (lst k Resources_list) \<and> res_id (resources k res) = rid"
  unfolding resource_named_def by (rule find_Some_iff_first)

lemma open_descriptor_full:
  assumes "struct_inv (lists k) (pools k)" and "room k Descriptor_buffer \<le> 0"
  shows "open_descriptor r res k = Inr (set_retvalue r DSOS_ERESOURCENOFD k)"
  by (simp add: open_descriptor_def Descriptor_alloc_def get_none [OF assms])

text \<open>The checks that follow the lookup, as a decision on the abstract state.\<close>

definition open_checked :: "ptr \<Rightarrow> int \<Rightarrow> int \<Rightarrow> ptr \<Rightarrow> kernel \<Rightarrow> fault + kernel" where
  "open_checked r type mode res k =
     (if res_type (resources k res) \<noteq> type then Inr (set_retvalue r DSOS_ERESOURCEOPEN k)
      else if has_flag mode DSOS_EXCL \<and> lst k (Descriptors_ptrs res) \<noteq> [] then
        Inr (set_retvalue r DSOS_ERESOURCENOEXCL k)
      else open_descriptor r res k)"

lemma open_checked_ok:
  assumes ok: "kernel_ok k" and run: "running k = Some r" and res: "res \<in> set (lst k Resources_list)"
    and fd: "- (2 ^ 31) \<le> last_fd (pcbs k r) + 1" "last_fd (pcbs k r) + 1 < 2 ^ 31"
  shows "ok_with (open_checked r type mode res k) (\<lambda>k'. kernel_ok k' \<and> running k' = Some r \<and>
    lst k' Resources_list = lst k Resources_list \<and> resources k' = resources k \<and>
    (if res_type (resources k res) \<noteq> type then k' = set_retvalue r DSOS_ERESOURCEOPEN k
     else if has_flag mode DSOS_EXCL \<and> lst k (Descriptors_ptrs res) \<noteq> [] then
       k' = set_retvalue r DSOS_ERESOURCENOEXCL k
     else if room k Descriptor_buffer \<le> 0 then k' = set_retvalue r DSOS_ERESOURCENOFD k
     else opened r res k k'))"
proof (cases "0 < room k Descriptor_buffer")
  case True
  have "ok_with (open_descriptor r res k) (\<lambda>k'. kernel_ok k' \<and> running k' = Some r \<and>
    lst k' Resources_list = lst k Resources_list \<and> resources k' = resources k \<and> opened r res k k')"
    by (rule ok_with_mono [OF open_descriptor_ok [OF ok run res True fd]]) simp
  with True show ?thesis using ok run by (auto simp: open_checked_def upd_ok elim: ok_with_mono)
next
  case False
  then show ?thesis
    using ok run open_descriptor_full [OF kernel_okD(1) [OF ok], of r res]
    by (auto simp: open_checked_def upd_ok)
qed

lemma open_eq:
  assumes ok: "kernel_ok k" and run: "running k = Some r"
    and a: "rid = to_int (syscall_args (pcbs k r) 0)" "type = to_int (syscall_args (pcbs k r) 1)"
      "mode = to_int (syscall_args (pcbs k r) 2)"
  shows "internal_openResource k =
    (if has_flag mode DSOS_CREATE \<and> resource_named rid k \<noteq> None then Inr (set_retvalue r DSOS_ERESOURCECREATE k)
     else and_then (open_lookup rid type mode (resource_named rid k) k) (\<lambda>(res', k1).
       case res' of
         None \<Rightarrow> Inr (set_retvalue r DSOS_ERESOURCEOPEN k1)
       | Some res \<Rightarrow>
         if res_type (resources k1 res) \<noteq> type then
           Inr (set_retvalue r DSOS_ERESOURCEOPEN k1)
         else if has_flag mode DSOS_EXCL \<and> list_size (Descriptors_ptrs res) k1 \<noteq> 0 then
           Inr (set_retvalue r DSOS_ERESOURCENOEXCL k1)
         else open_descriptor r res k1))"
  by (simp only: internal_openResource_def run deref.simps and_then.simps Let_def a [symmetric]
      byId_lst [OF kernel_okD(1) [OF ok]])

lemma open_existing_eq:
  assumes ok: "kernel_ok k" and run: "running k = Some r"
    and a: "rid = to_int (syscall_args (pcbs k r) 0)" "type = to_int (syscall_args (pcbs k r) 1)"
      "mode = to_int (syscall_args (pcbs k r) 2)"
    and mode: "\<not> has_flag mode DSOS_CREATE"
  shows "internal_openResource k =
    (case resource_named rid k of
       None \<Rightarrow> Inr (set_retvalue r DSOS_ERESOURCEOPEN k)
     | Some res \<Rightarrow> open_checked r type mode res k)"
  using mode kernel_okD(1) [OF ok]
  by (auto simp: open_eq [OF ok run a] open_lookup_def open_checked_def list_size_lst split: option.split)

lemma open_create_ok:
  assumes ok: "kernel_ok k" and run: "running k = Some r"
    and a: "rid = to_int (syscall_args (pcbs k r) 0)" "type = to_int (syscall_args (pcbs k r) 1)"
      "mode = to_int (syscall_args (pcbs k r) 2)"
    and mode: "has_flag mode DSOS_CREATE" and new: "resource_named rid k = None"
    and room: "0 < room k Resources_buffer"
    and fd: "- (2 ^ 31) \<le> last_fd (pcbs k r) + 1" "last_fd (pcbs k r) + 1 < 2 ^ 31"
  shows "ok_with (internal_openResource k) (\<lambda>k'. kernel_ok k' \<and> running k' = Some r \<and>
    (\<exists>res. res \<notin> set (lst k Resources_list) \<and> lst k' Resources_list = lst k Resources_list @ [res] \<and>
       resources k' res = \<lparr>res_id = rid, res_type = type\<rparr> \<and>
       (if room k Descriptor_buffer \<le> 0 then syscall_retvalue (pcbs k' r) = DSOS_ERESOURCENOFD
        else opened r res k k')))"
proof -
  note S = kernel_okD [OF ok]
  show ?thesis
    unfolding open_eq [OF ok run a]
    apply (simp add: new ok_with_and_then)
    apply (rule create_rule [OF ok new room mode])
    subgoal for res m P
      using open_checked_ok [of "k\<lparr>pools := P, resources := (resources k)(res := \<lparr>res_id = rid, res_type = type\<rparr>), lists := m\<rparr>"
          r res type mode] run fd resource_unlisted [OF S(10), of res] kernel_okD(1)
      apply (simp add: open_checked_def list_size_lst [OF kernel_okD(1)] opened_def)
      apply (erule ok_with_mono)
      apply (rule conjI, simp, rule conjI, simp, rule exI [of _ res])
      apply (auto simp: opened_def split: if_splits)
      done
    done
qed


section \<open>Closing\<close>

lemma close_rule:
  assumes inv: "struct_inv (lists k) (pools k)" and d: "d \<in> set (lst k (Descriptors r))"
    and w: "des_ptr (descriptors k d) = Some w" "w \<in> set (lst k (Descriptors_ptrs (des_resource (descriptors k d))))"
    and fd: "List.find (\<lambda>d. des_fd (descriptors k d) = fd) (lst k (Descriptors r)) = Some d"
    and run: "running k = Some r" "to_int (syscall_args (pcbs k r) 0) = fd"
    and Q: "\<And>m P. struct_inv m P \<Longrightarrow>
      contents m = (lst k)(Descriptors r := remove1 d (lst k (Descriptors r)),
        Descriptors_ptrs (des_resource (descriptors k d)) :=
          remove1 w (lst k (Descriptors_ptrs (des_resource (descriptors k d))))) \<Longrightarrow>
      (\<And>x. loose (lists k) x \<Longrightarrow> loose m x) \<Longrightarrow>
      (\<And>r'. live (P r') = (if r' = Descriptor_buffer then in_use k r' - {d}
        else if r' = Descriptor_ptr_buffer then in_use k r' - {w} else in_use k r')) \<Longrightarrow>
      (\<And>r'. pa_size (P r') = (if r' = Descriptor_buffer \<or> r' = Descriptor_ptr_buffer then room k r' + 1 else room k r')) \<Longrightarrow>
      Q (set_retvalue r 0 (k\<lparr>lists := m, pools := P\<rparr>))"
  shows "ok_with (internal_closeResource k) Q"
proof -
  have dl: "d \<in> in_use k Descriptor_buffer" using struct_live [OF inv d] by simp
  have wl: "w \<in> in_use k Descriptor_ptr_buffer" using struct_live [OF inv w(2)] by simp
  show ?thesis
    unfolding internal_closeResource_def run(1)
    apply (simp add: Let_def run(2) DescriptorList_byFd_def scan_lst [OF inv] fd ok_with_and_then)
    apply (rule detach_rule [OF inv d])
    apply (simp add: w ok_with_and_then)
    apply (rule detach_rule)
    subgoal by simp
    subgoal using w by simp
    apply (simp add: Descriptor_free_def ok_with_and_then)
    apply (rule release_rule)
    subgoal by simp
    subgoal using dl by simp
    subgoal by (simp add: loose_def)
    apply (simp add: DescriptorPtr_free_def ok_with_and_then)
    apply (rule release_rule)
    subgoal by simp
    subgoal using wl by (simp add: pools_give_def)
    subgoal by (simp add: loose_def)
    subgoal for m m2 P P2
      using Q [of m2 P2] by (simp add: pools_give_def)
    done
qed

lemma descriptors_detach:
  assumes D: "descriptors_ok k" and d: "d \<in> set (lst k (Descriptors r))"
    and w: "des_ptr (descriptors k d) = Some w" "w \<in> set (lst k (Descriptors_ptrs res))" "descriptor_ptrs k w = d"
    and inv: "struct_inv (lists k) (pools k)"
    and L: "lst k' Resources_list = lst k Resources_list"
      "\<And>p. lst k' (Descriptors p) = (if p = r then remove1 d (lst k (Descriptors r)) else lst k (Descriptors p))"
      "\<And>q. lst k' (Descriptors_ptrs q) =
         (if q = res then remove1 w (lst k (Descriptors_ptrs res)) else lst k (Descriptors_ptrs q))"
    and U: "in_use k' Descriptor_buffer = in_use k Descriptor_buffer - {d}"
      "room k' Descriptor_ptr_buffer = room k' Descriptor_buffer"
    and same: "descriptors k' = descriptors k" "descriptor_ptrs k' = descriptor_ptrs k" "resources k' = resources k"
      "\<And>p. last_fd (pcbs k' p) = last_fd (pcbs k p)"
  shows "descriptors_ok k'"
proof (rule descriptors_okI)
  have dist: "distinct (lst k h)" for h by (rule struct_distinct [OF inv])
  have old: "x \<in> set (lst k (Descriptors p)) \<and> x \<noteq> d" if "x \<in> set (lst k' (Descriptors p))" for x p
    using that struct_disjoint [OF inv d, of "Descriptors p"] by (auto simp: L dist split: if_splits)
  have oldw: "x \<in> set (lst k (Descriptors_ptrs q)) \<and> x \<noteq> w" if "x \<in> set (lst k' (Descriptors_ptrs q))" for x q
    using that struct_disjoint [OF inv w(2), of "Descriptors_ptrs q"] by (auto simp: L dist split: if_splits)
  have keepw: "x \<in> set (lst k' (Descriptors_ptrs q))" if "x \<in> set (lst k (Descriptors_ptrs q))" "x \<noteq> w" for x q
    using that by (auto simp: L dist)
  show "des_fd (descriptors k' x) < last_fd (pcbs k' p)" if "x \<in> set (lst k' (Descriptors p))" for x p
    using old [OF that] descriptor_fd [OF D, of x p] by (simp add: same)
  show "\<exists>v. des_ptr (descriptors k' x) = Some v \<and> descriptor_ptrs k' v = x \<and>
             v \<in> set (lst k' (Descriptors_ptrs (des_resource (descriptors k' x))))"
    if "x \<in> set (lst k' (Descriptors p))" for x p
  proof -
    from old [OF that] descriptor_link [OF D, of x p] obtain v where v: "des_ptr (descriptors k x) = Some v"
      "descriptor_ptrs k v = x" "v \<in> set (lst k (Descriptors_ptrs (des_resource (descriptors k x))))" "x \<noteq> d" by blast
    with w(3) have "v \<noteq> w" by auto
    with v keepw show ?thesis by (simp add: same)
  qed
  show "x = y" if "x \<in> set (lst k' (Descriptors p))" "y \<in> set (lst k' (Descriptors p))"
      "des_fd (descriptors k' x) = des_fd (descriptors k' y)" for p x y
    using old [OF that(1)] old [OF that(2)] that(3) descriptor_inj [OF D, of x p y] by (simp add: same)
  show "descriptor_ptrs k' x \<in> in_use k' Descriptor_buffer \<and>
        des_ptr (descriptors k' (descriptor_ptrs k' x)) = Some x"
    if x: "x \<in> set (lst k' (Descriptors_ptrs q))" for x q
    using oldw [OF x] descriptor_back [OF D, of x q] w(1) by (auto simp: same U)
  show "inj_on (\<lambda>r. res_id (resources k' r)) (set (lst k' Resources_list))"
    using resource_ids_inj [OF D] by (simp add: L same)
  show "lst k' (Descriptors_ptrs q) = []" if "q \<notin> set (lst k' Resources_list)" for q
    using that resource_unlisted [OF D, of q] resource_unlisted [OF D, of res] by (auto simp: L)
  show "room k' Descriptor_ptr_buffer = room k' Descriptor_buffer" by (rule U)
qed

lemma close_ok:
  assumes ok: "kernel_ok k" and run: "running k = Some r"
    and fd: "List.find (\<lambda>d. des_fd (descriptors k d) = to_int (syscall_args (pcbs k r) 0)) (lst k (Descriptors r)) = Some d"
  shows "ok_with (internal_closeResource k) (\<lambda>k'. kernel_ok k' \<and> running k' = Some r \<and> 
    lst k' (Descriptors r) = remove1 d (lst k (Descriptors r)) \<and> d \<notin> in_use k' Descriptor_buffer \<and>
    length (lst k' (Descriptors_ptrs (des_resource (descriptors k d)))) + 1 =
      length (lst k (Descriptors_ptrs (des_resource (descriptors k d)))) \<and>
    syscall_retvalue (pcbs k' r) = 0)"
proof -
  note S = kernel_okD [OF ok]
  have d: "d \<in> set (lst k (Descriptors r))" using find_Some_iff_first [OF fd] by simp
  from descriptor_link [OF S(10) d] obtain w where w: "des_ptr (descriptors k d) = Some w"
    "descriptor_ptrs k w = d" "w \<in> set (lst k (Descriptors_ptrs (des_resource (descriptors k d))))" by blast
  show ?thesis
  proof (rule close_rule [OF S(1) d w(1,3) fd run refl])
    fix m P
    assume m: "struct_inv m P"
      "contents m = (lst k)(Descriptors r := remove1 d (lst k (Descriptors r)),
        Descriptors_ptrs (des_resource (descriptors k d)) :=
          remove1 w (lst k (Descriptors_ptrs (des_resource (descriptors k d)))))"
      "\<And>x. loose (lists k) x \<Longrightarrow> loose m x"
      "\<And>r'. live (P r') = (if r' = Descriptor_buffer then in_use k r' - {d}
        else if r' = Descriptor_ptr_buffer then in_use k r' - {w} else in_use k r')"
      "\<And>r'. pa_size (P r') = (if r' = Descriptor_buffer \<or> r' = Descriptor_ptr_buffer then room k r' + 1 else room k r')"
    let ?k = "upd_pcb r (\<lambda>b. b\<lparr>syscall_retvalue := 0\<rparr>) (k\<lparr>lists := m, pools := P\<rparr>)"
    have "kernel_ok (k\<lparr>lists := m, pools := P\<rparr>)" (is "kernel_ok ?k1")
    proof (rule objects_ok [OF ok])
      show "queues_ok ?k1" by (rule queues_frame [OF S(9)]) (simp_all add: m(2))
      show "descriptors_ok ?k1"
        by (rule descriptors_detach [OF S(10) d w(1,3,2) S(1)])
          (simp_all add: m(2,4,5) descriptor_rooms [OF S(10)])
      show "leak_free ?k1" by (rule leak_frame [OF S(11)]) (auto simp: m(2,4))
      show "lst ?k1 h = lst k h" if "kind h \<in> {Pcb_buffer, Timer_item_buffer, Pcb_ptr_buffer}" for h
        using that by (auto simp: m(2))
    qed (use m in simp_all)
    then have "kernel_ok ?k" by (rule upd_ok) simp_all
    moreover have "0 < length (lst k (Descriptors_ptrs (des_resource (descriptors k d))))" using w(3) by auto
    ultimately show "kernel_ok (set_retvalue r 0 (k\<lparr>lists := m, pools := P\<rparr>)) \<and>
      running (set_retvalue r 0 (k\<lparr>lists := m, pools := P\<rparr>)) = Some r \<and>
      lst (set_retvalue r 0 (k\<lparr>lists := m, pools := P\<rparr>)) (Descriptors r) = remove1 d (lst k (Descriptors r)) \<and>
      d \<notin> in_use (set_retvalue r 0 (k\<lparr>lists := m, pools := P\<rparr>)) Descriptor_buffer \<and>
      length (lst (set_retvalue r 0 (k\<lparr>lists := m, pools := P\<rparr>)) (Descriptors_ptrs (des_resource (descriptors k d)))) + 1 =
        length (lst k (Descriptors_ptrs (des_resource (descriptors k d)))) \<and>
      syscall_retvalue (pcbs (set_retvalue r 0 (k\<lparr>lists := m, pools := P\<rparr>)) r) = 0"
      using w(3) run by (simp add: m(2,4) length_remove1)
  qed
qed

lemma close_unknown:
  assumes ok: "kernel_ok k" and run: "running k = Some r"
    and fd: "List.find (\<lambda>d. des_fd (descriptors k d) = to_int (syscall_args (pcbs k r) 0)) (lst k (Descriptors r)) = None"
  shows "internal_closeResource k = Inr (set_retvalue r DSOS_ERESOURCECLOSE k)"
  using fd by (simp add: internal_closeResource_def run Let_def DescriptorList_byFd_def scan_lst [OF kernel_okD(1) [OF ok]])

section \<open>Destroying\<close>

lemma destroy_ok:
  assumes ok: "kernel_ok k" and run: "running k = Some r"
    and found: "resource_named (to_int (syscall_args (pcbs k r) 0)) k = Some res"
    and free: "lst k (Descriptors_ptrs res) = []"
  shows "ok_with (internal_destroyResource k) (\<lambda>k'. kernel_ok k' \<and> running k' = Some r \<and>
    lst k' Resources_list = remove1 res (lst k Resources_list) \<and> res \<notin> in_use k' Resources_buffer \<and>
    syscall_retvalue (pcbs k' r) = 0)"
proof -
  note S = kernel_okD [OF ok]
  have res: "res \<in> set (lst k Resources_list)" using resource_named_Some [OF found] by simp
  have live: "res \<in> in_use k Resources_buffer" using struct_live [OF S(1) res] by simp
  have d: "distinct (lst k Resources_list)" by (rule struct_distinct [OF S(1)])
  show ?thesis
    unfolding internal_destroyResource_def run
    apply (simp add: Let_def byId_lst [OF S(1)] found list_size_lst [OF S(1)] free ok_with_and_then)
    apply (rule detach_rule [OF S(1) res])
    apply (simp add: Resource_free_def list_lst free ok_with_and_then)
    apply (rule release_rule)
    subgoal by simp
    subgoal using live by simp
    subgoal by (simp add: loose_def)
    subgoal for m P
    proof -
      assume m: "struct_inv m (pools k)" "contents m = (lst k)(Resources_list := remove1 res (lst k Resources_list))"
        "\<And>x. loose (lists k) x \<Longrightarrow> loose m x" "struct_inv (lists (k\<lparr>lists := m\<rparr>)) P"
        "pools_give (pools (k\<lparr>lists := m\<rparr>)) Resources_buffer res P"
      let ?k = "upd_pcb r (\<lambda>b. b\<lparr>syscall_retvalue := 0\<rparr>) (k\<lparr>lists := m, pools := P\<rparr>)"
      have P: "in_use ?k r' = (if r' = Resources_buffer then in_use k r' - {res} else in_use k r')"
        "r' \<noteq> Resources_buffer \<Longrightarrow> room ?k r' = room k r'" for r'
        using m(5) by (simp_all add: pools_give_def)
      have "kernel_ok (k\<lparr>lists := m, pools := P\<rparr>)" (is "kernel_ok ?k1")
      proof (rule objects_ok [OF ok])
        show "queues_ok ?k1" by (rule queues_frame [OF S(9)]) (simp_all add: m(2))
        show "descriptors_ok ?k1"
        proof (rule descriptors_okI)
          show "inj_on (\<lambda>r. res_id (resources ?k1 r)) (set (lst ?k1 Resources_list))"
            using inj_on_subset [OF resource_ids_inj [OF S(10)]] d by (simp add: m(2))
          show "lst ?k1 (Descriptors_ptrs q) = []" if "q \<notin> set (lst ?k1 Resources_list)" for q
            using that d free resource_unlisted [OF S(10), of q] by (auto simp: m(2))
        qed (use P descriptor_fd [OF S(10)] descriptor_link [OF S(10)] descriptor_inj [OF S(10)]
          descriptor_back [OF S(10)] descriptor_rooms [OF S(10)] in \<open>simp_all add: m(2)\<close>)
        show "leak_free ?k1" using S(11) P d by (auto simp: leak_free_def m(2))
        show "lst ?k1 h = lst k h" if "kind h \<in> {Pcb_buffer, Timer_item_buffer, Pcb_ptr_buffer}" for h
          using that by (auto simp: m(2))
      qed (use m P in simp_all)
      then have "kernel_ok ?k" by (rule upd_ok) simp_all
      with P d run show ?thesis by (simp add: m(2))
    qed
    done
qed

lemma destroy_refused:
  assumes ok: "kernel_ok k" and run: "running k = Some r"
  shows "resource_named (to_int (syscall_args (pcbs k r) 0)) k = None \<Longrightarrow>
      internal_destroyResource k = Inr (set_retvalue r DSOS_ERESOURCECLOSE k)"
    and "resource_named (to_int (syscall_args (pcbs k r) 0)) k = Some res \<Longrightarrow> lst k (Descriptors_ptrs res) \<noteq> [] \<Longrightarrow>
      internal_destroyResource k = Inr (set_retvalue r DSOS_ERESOURCEINUSE k)"
  by (simp_all add: internal_destroyResource_def run Let_def byId_lst [OF kernel_okD(1) [OF ok]]
      list_size_lst [OF kernel_okD(1) [OF ok]])
end
