(* ===== verification/Handlers.thy ===== *)
theory Handlers
  imports BQueue_Spec Exit_Correct Timer_Correct Resource_Correct
begin

text \<open>
  The branches on which a handler goes wrong, and the summary of the component theories: a handler
  that returns, on whatever branch, leaves a state that satisfies the kernel's invariant.
\<close>

section \<open>Exhausted pools and overflow\<close>

text \<open>Each of these is a null pointer that the code dereferences, or an undefined signed addition.\<close>

lemma new_child_full:
  assumes "kernel_ok k" and "room k Pcb_buffer \<le> 0"
  shows "new_child r k = Inl Null_deref"
  using PCB_alloc_full [OF kernel_okD(1) [OF assms(1)] assms(2)] by (simp add: new_child_def)

lemma spawn_full:
  assumes ok: "kernel_ok k" and run: "running k = Some r" and lp: "last_pid k < 2 ^ 31 - 1"
    and full: "\<not> (0 < room k Pcb_buffer \<and> 0 < room k Pcb_ptr_buffer)"
  shows "internal_spawn k = Inl Null_deref"
proof (cases "room k Pcb_buffer \<le> 0")
  case True
  then show ?thesis using new_child_full [OF ok] by (simp add: internal_spawn_def run)
next
  case False
  note S = kernel_okD [OF ok]
  have "ok_with (PCB_alloc k) (\<lambda>(p, k1). struct_inv (lists k1) (pools k1) \<and> room k1 Pcb_ptr_buffer \<le> 0)"
    by (rule PCB_alloc_rule [OF S(1) _ _ lp]) (use False full S(4) in \<open>auto simp: pids_ok_def pools_take_def\<close>)
  then show ?thesis
    using PCBPtr_alloc_full
    by (auto simp: internal_spawn_def run new_child_def ok_with_iff Let_def PCBPtr_alloc_full)
qed

lemma block_on_full:
  assumes "kernel_ok k" and "room k Pcb_ptr_buffer \<le> 0"
  shows "block_on h r k = Inl Null_deref"
  using PCBPtr_alloc_full [of "set_status r Waiting k" r] kernel_okD(1) [OF assms(1)] assms(2)
  by (simp add: block_on_def)

lemma sleep_overflow:
  assumes "kernel_ok k" and "running k = Some r"
    and "\<not> (- (2 ^ 31) \<le> disastrOS_time k + arg_int k r 0 \<and> disastrOS_time k + arg_int k r 0 < 2 ^ 31)"
  shows "internal_sleep k = Inl Signed_overflow"
proof -
  have "r \<in> in_use k Pcb_buffer" using running_loose [OF assms(1,2)] by simp
  then have "timer (pcbs k r) = None" using kernel_okD(5) [OF assms(1)] by (simp add: timers_ok_def)
  with assms(2,3) show ?thesis by (auto simp: internal_sleep_def add_int_def Let_def)
qed

lemma sleep_full:
  assumes ok: "kernel_ok k" and run: "running k = Some r" and full: "room k Timer_item_buffer \<le> 0"
    and t: "- (2 ^ 31) \<le> disastrOS_time k + arg_int k r 0" "disastrOS_time k + arg_int k r 0 < 2 ^ 31"
  shows "internal_sleep k = Inr (set_retvalue r DSOS_ESLEEP (print_out (''no new timer!!!'' @ newline) k))"
proof -
  note S = kernel_okD [OF ok]
  have "r \<in> in_use k Pcb_buffer" using running_loose [OF ok run] by simp
  then have n: "timer (pcbs k r) = None" using S(5) by (simp add: timers_ok_def)
  have "TimerList_add Timer_list time r k = Inr (None, k)" for time
    by (simp add: TimerList_add_def timer_scan_lst [OF S(1)] TimerItem_alloc_def get_none [OF S(1) full])
  with n run t show ?thesis by (simp add: internal_sleep_def add_int_ok)
qed

lemma open_exists:
  assumes ok: "kernel_ok k" and run: "running k = Some r" and flag: "has_flag (arg_int k r 2) DSOS_CREATE"
    and old: "resource_named (arg_int k r 0) k \<noteq> None"
  shows "internal_openResource k = Inr (set_retvalue r DSOS_ERESOURCECREATE k)"
  using open_eq [OF ok run refl refl refl] flag old by simp

lemma open_full:
  assumes ok: "kernel_ok k" and run: "running k = Some r" and flag: "has_flag (arg_int k r 2) DSOS_CREATE"
    and new: "resource_named (arg_int k r 0) k = None" and full: "room k Resources_buffer \<le> 0"
  shows "internal_openResource k = Inl Null_deref"
  using open_eq [OF ok run refl refl refl] flag new kernel_okD(1) [OF ok] full
  by (simp add: open_lookup_def Resource_alloc_full k_insert_def List_insert_null)

lemma interrupt_overflow:
  assumes "2 ^ 31 \<le> disastrOS_time k + 1"
  shows "timerInterrupt k = Inl Signed_overflow"
  using assms by (simp add: timerInterrupt_def Let_def add_int_def)

section \<open>Every handler keeps the invariant\<close>

definition keeps :: "(fault + 'a) \<Rightarrow> ('a \<Rightarrow> bool) \<Rightarrow> bool" where
  "keeps r Q \<longleftrightarrow> (case r of Inl e \<Rightarrow> True | Inr x \<Rightarrow> Q x)"

lemma keeps_ok: "ok_with r P \<Longrightarrow> (\<And>x. P x \<Longrightarrow> Q x) \<Longrightarrow> keeps r Q"
  by (auto simp: keeps_def ok_with_iff)

lemma keeps_simps [simp]: "keeps (Inl e) Q" "keeps (Inr x) Q = Q x"
  by (simp_all add: keeps_def)

lemma keeps_then: "keeps r (\<lambda>x. keeps (f x) Q) \<Longrightarrow> keeps (and_then r f) Q"
  by (cases r) simp_all

lemma keeps_mono: "keeps r P \<Longrightarrow> (\<And>x. P x \<Longrightarrow> Q x) \<Longrightarrow> keeps r Q"
  by (cases r) auto

lemma keeps_then_any: "(\<And>x. keeps (f x) Q) \<Longrightarrow> keeps (and_then r f) Q"
  by (cases r) simp_all

lemma preempt_keeps: "kernel_ok k \<Longrightarrow> keeps (internal_preempt k) kernel_ok"
  unfolding internal_preempt_def by (rule keeps_ok [OF schedule_ok])

lemma new_child_cases:
  assumes "kernel_ok k"
  obtains e where "new_child r k = Inl e"
  | "0 < room k Pcb_buffer" "0 < room k Pcb_ptr_buffer" "last_pid k < 2 ^ 31 - 1"
  using new_child_needs [OF assms, of r] by (cases "new_child r k") auto

lemma fork_keeps:
  assumes ok: "kernel_ok k" and run: "running k = Some r"
  shows "keeps (internal_fork k) kernel_ok"
  using ok
proof (cases rule: new_child_cases [of k r])
  case 1
  then show ?thesis by (simp add: internal_fork_def run)
next
  case 2
  show ?thesis by (rule keeps_ok [OF fork_ok [OF ok run 2]]) simp
qed

lemma spawn_keeps:
  assumes ok: "kernel_ok k" and run: "running k = Some r"
  shows "keeps (internal_spawn k) kernel_ok"
  using ok
proof (cases rule: new_child_cases [of k r])
  case 1
  then show ?thesis by (simp add: internal_spawn_def run)
next
  case 2
  show ?thesis by (rule keeps_ok [OF spawn_ok [OF ok run 2]]) simp
qed

lemma wait_keeps:
  assumes ok: "kernel_ok k" and run: "running k = Some r" and call: "syscall_num (pcbs k r) = DSOS_CALL_WAIT"
  shows "keeps (internal_wait k) kernel_ok"
proof (cases "lst k (Children r) = []")
  case True
  then show ?thesis using ok by (simp add: wait_no_child [OF ok run True] upd_ok)
next
  case kids: False
  show ?thesis
  proof (cases "awaited r k")
    case (Some z)
    show ?thesis by (rule keeps_ok [OF wait_reaps [OF ok run Some]]) simp
  next
    case None
    show ?thesis
    proof (cases "lst k Ready_list")
      case Nil
      then show ?thesis by (simp add: wait_fault [OF ok run kids None])
    next
      case (Cons p ps)
      show ?thesis by (rule keeps_ok [OF wait_blocks [OF ok run kids None Cons call]]) simp
    qed
  qed
qed

lemma exit_keeps:
  assumes ok: "kernel_ok k" and run: "running k = Some r"
  shows "keeps (internal_exit k) kernel_ok"
  using exit_diverges [OF ok run] keeps_ok [OF exit_ok [OF ok run], of kernel_ok]
  by (cases "init_pcb k = Some r \<and> lst k (Children r) \<noteq> []") auto

lemma sleep_keeps:
  assumes ok: "kernel_ok k" and run: "running k = Some r" and call: "syscall_num (pcbs k r) = DSOS_CALL_SLEEP"
  shows "keeps (internal_sleep k) kernel_ok"
proof (cases "- (2 ^ 31) \<le> disastrOS_time k + arg_int k r 0 \<and> disastrOS_time k + arg_int k r 0 < 2 ^ 31")
  case t: True
  show ?thesis
  proof (cases "0 < room k Timer_item_buffer")
    case True
    show ?thesis by (rule keeps_ok [OF sleep_ok [OF ok run call refl _ _ True]]) (use t in simp_all)
  next
    case False
    then show ?thesis using t ok by (simp add: sleep_full [OF ok run] upd_ok)
  qed
next
  case False
  then show ?thesis by (simp add: sleep_overflow [OF ok run])
qed

lemma open_descriptor_overflow:
  assumes inv: "struct_inv (lists k) (pools k)" and room: "0 < room k Descriptor_buffer"
    and fd: "\<not> (- (2 ^ 31) \<le> last_fd (pcbs k r) + 1 \<and> last_fd (pcbs k r) + 1 < 2 ^ 31)"
  shows "open_descriptor r res k = Inl Signed_overflow"
proof -
  have "ok_with (Descriptor_alloc (last_fd (pcbs k r)) res r k) (\<lambda>(des, k1). (\<exists>d. des = Some d) \<and> pcbs k1 = pcbs k)"
    using room by (intro Descriptor_alloc_rule [OF inv]) auto
  with fd show ?thesis by (auto simp: ok_with_iff open_descriptor_def add_int_def)
qed

lemma open_checked_keeps:
  assumes ok: "kernel_ok k" and run: "running k = Some r" and res: "res \<in> set (lst k Resources_list)"
  shows "keeps (open_checked r type mode res k) kernel_ok"
proof (cases "- (2 ^ 31) \<le> last_fd (pcbs k r) + 1 \<and> last_fd (pcbs k r) + 1 < 2 ^ 31")
  case True
  then show ?thesis by (intro keeps_ok [OF open_checked_ok [OF ok run res]]) simp_all
next
  case False
  note S = kernel_okD(1) [OF ok]
  have "keeps (open_descriptor r res k) kernel_ok"
    using open_descriptor_overflow [OF S _ False] open_descriptor_full [OF S, of r res] ok
    by (cases "0 < room k Descriptor_buffer") (simp_all add: upd_ok)
  then show ?thesis using ok by (simp add: open_checked_def upd_ok)
qed

lemma open_lookup_keeps:
  assumes ok: "kernel_ok k" and run: "running k = Some r" and flag: "has_flag mode DSOS_CREATE"
    and new: "resource_named rid k = None" and room: "0 < room k Resources_buffer"
  shows "keeps (open_lookup rid type mode res0 k) (\<lambda>(res', k1). kernel_ok k1 \<and> running k1 = Some r \<and>
    (\<exists>res. res' = Some res \<and> res \<in> set (lst k1 Resources_list)))"
  by (rule keeps_ok [OF create_rule [OF ok new room flag, where
        Q = "\<lambda>(res', k1). kernel_ok k1 \<and> running k1 = Some r \<and> (\<exists>res. res' = Some res \<and> res \<in> set (lst k1 Resources_list))"]])
    (use run in auto)

lemma open_keeps:
  assumes ok: "kernel_ok k" and run: "running k = Some r"
  shows "keeps (internal_openResource k) kernel_ok"
proof (cases "has_flag (arg_int k r 2) DSOS_CREATE")
  case False
  then show ?thesis
    using ok open_checked_keeps [OF ok run] resource_named_Some
    by (auto simp: open_existing_eq [OF ok run refl refl refl] upd_ok split: option.split)
next
  case flag: True
  show ?thesis
  proof (cases "resource_named (arg_int k r 0) k = None \<and> 0 < room k Resources_buffer")
    case True
    have checked: "keeps (if res_type (resources k1 res) \<noteq> ty then Inr (set_retvalue r DSOS_ERESOURCEOPEN k1)
         else if has_flag mode DSOS_EXCL \<and> list_size (Descriptors_ptrs res) k1 \<noteq> 0 then
           Inr (set_retvalue r DSOS_ERESOURCENOEXCL k1)
         else open_descriptor r res k1) kernel_ok"
      if "kernel_ok k1" "running k1 = Some r" "res \<in> set (lst k1 Resources_list)" for k1 res ty mode
      using open_checked_keeps [OF that, of ty mode] list_size_lst [OF kernel_okD(1) [OF that(1)]]
      by (auto simp: open_checked_def split: if_splits)
    have "keeps (open_lookup (arg_int k r 0) (arg_int k r 1) (arg_int k r 2) None k) (\<lambda>(res', k1). kernel_ok k1 \<and>
        running k1 = Some r \<and> (\<exists>res. res' = Some res \<and> res \<in> set (lst k1 Resources_list)))"
      by (rule open_lookup_keeps [OF ok run flag]) (use True in simp_all)
    then show ?thesis
      using True unfolding open_eq [OF ok run refl refl refl]
      apply (simp del: One_nat_def)
      apply (rule keeps_then, erule keeps_mono)
      subgoal for x
        by (cases x, simp only: prod.case, elim conjE exE, simp only: option.case, rule checked)
      done
  next
    case False
    then show ?thesis
      using open_exists [OF ok run flag] open_full [OF ok run flag] ok
      by (cases "resource_named (arg_int k r 0) k") (simp_all add: upd_ok)
  qed
qed

lemma close_keeps:
  assumes ok: "kernel_ok k" and run: "running k = Some r"
  shows "keeps (internal_closeResource k) kernel_ok"
proof (cases "List.find (\<lambda>d. des_fd (descriptors k d) = arg_int k r 0) (lst k (Descriptors r))")
  case None
  then show ?thesis using ok by (simp add: close_unknown [OF ok run] upd_ok)
next
  case (Some d)
  show ?thesis by (rule keeps_ok [OF close_ok [OF ok run Some]]) simp
qed

lemma destroy_keeps:
  assumes ok: "kernel_ok k" and run: "running k = Some r"
  shows "keeps (internal_destroyResource k) kernel_ok"
proof (cases "resource_named (arg_int k r 0) k")
  case None
  then show ?thesis using ok by (simp add: destroy_refused [OF ok run] upd_ok)
next
  case (Some res)
  then show ?thesis
    using ok destroy_refused(2) [OF ok run Some] keeps_ok [OF destroy_ok [OF ok run Some], of kernel_ok]
    by (cases "lst k (Descriptors_ptrs res) = []") (simp_all add: upd_ok)
qed

lemma bq_create_keeps:
  assumes ok: "kernel_ok k" and run: "running k = Some r"
  shows "keeps (internal_bq_create k) kernel_ok"
  using ok bq_create_refused [OF ok run] keeps_ok [OF bq_create_ok [OF ok run], of kernel_ok]
  by (cases "0 < arg_int k r 1"; cases "bqueue_named (arg_int k r 0) k"; cases "0 < room k Bq_buffer")
    (simp_all add: upd_ok)

lemma bq_delete_keeps:
  assumes ok: "kernel_ok k" and run: "running k = Some r"
  shows "keeps (internal_bq_delete k) kernel_ok"
proof (cases "bqueue_named (arg_int k r 0) k")
  case None
  then show ?thesis using ok by (simp add: bq_delete_refused(1) [OF ok run] upd_ok)
next
  case (Some q)
  then show ?thesis
    using ok bq_delete_refused(2) [OF ok run Some] keeps_ok [OF bq_delete_ok [OF ok run Some], of kernel_ok]
    by (cases "lst k (Wait_getters q) = [] \<and> lst k (Wait_putters q) = []") (auto simp: upd_ok)
qed

lemma bq_dump_keeps:
  "kernel_ok k \<Longrightarrow> running k = Some r \<Longrightarrow> keeps (internal_bq_dump k) kernel_ok"
  by (rule keeps_ok [OF bq_dump_ok]) (assumption | simp)+


lemma bq_put_keeps:
  assumes ok: "kernel_ok k" and run: "running k = Some r" and call: "syscall_num (pcbs k r) = DSOS_CALL_BQ_PUT"
  shows "keeps (internal_bq_put k) kernel_ok"
proof (cases "bqueue_named (arg_int k r 0) k")
  case None
  then show ?thesis using ok by (simp add: put_unknown [OF ok run] upd_ok)
next
  case q: (Some q)
  show ?thesis
  proof (cases "lst k (Wait_getters q) = []")
    case False
    show ?thesis by (rule keeps_ok [OF put_deliver_ok [OF ok run q False]]) simp
  next
    case none: True
    consider "int (length (lst k (Items q))) < bq_capacity (bqueues k q)" "0 < room k Bqitem_buffer"
      | "int (length (lst k (Items q))) < bq_capacity (bqueues k q)" "room k Bqitem_buffer \<le> 0"
      | "bq_capacity (bqueues k q) \<le> int (length (lst k (Items q)))" "0 < room k Pcb_ptr_buffer"
      | "bq_capacity (bqueues k q) \<le> int (length (lst k (Items q)))" "room k Pcb_ptr_buffer \<le> 0"
      by linarith
    then show ?thesis
    proof cases
      case 1
      show ?thesis by (rule keeps_ok [OF put_buffer_ok [OF ok run q none 1]]) simp
    next
      case 2
      show ?thesis using ok by (simp add: put_pool_full [OF ok run q none 2] upd_ok)
    next
      case 3
      show ?thesis by (rule keeps_ok [OF put_blocks [OF ok run call q 3]]) simp
    next
      case 4
      then show ?thesis by (simp add: put_cases [OF ok run q none] block_on_full [OF ok])
    qed
  qed
qed

lemma bq_get_keeps:
  assumes ok: "kernel_ok k" and run: "running k = Some r" and call: "syscall_num (pcbs k r) = DSOS_CALL_BQ_GET"
  shows "keeps (internal_bq_get k) kernel_ok"
proof (cases "bqueue_named (arg_int k r 0) k")
  case None
  then show ?thesis using ok by (simp add: get_unknown [OF ok run] upd_ok)
next
  case q: (Some q)
  show ?thesis
  proof (cases "lst k (Items q)")
    case Nil
    then show ?thesis
      using keeps_ok [OF get_blocks [OF ok run call q Nil], of kernel_ok] block_on_full [OF ok]
      by (cases "0 < room k Pcb_ptr_buffer") (simp_all add: get_eq [OF ok run q])
  next
    case (Cons it its)
    then show ?thesis
      using keeps_ok [OF get_takes [OF ok run q Cons], of kernel_ok]
        keeps_ok [OF get_refills [OF ok run q Cons], of kernel_ok]
      by (cases "lst k (Wait_putters q) = []") simp_all
  qed
qed

end
