(* ===== verification/System.thy ===== *)
theory System
  imports Handlers
begin

text \<open>
  The system as a whole: the dispatch of system calls, the boot, and the machine whose steps are what
  the processes, the timer and the kernel do.  Every state the machine reaches satisfies the kernel's
  invariant, until the code goes wrong on one of the branches named in \<open>Handlers\<close>.
\<close>

section \<open>The dispatch table\<close>

text \<open>The code that each handler serves.\<close>

fun code_of :: "syscall_fn \<Rightarrow> int" where
  "code_of Fn_preempt = DSOS_CALL_PREEMPT"
| "code_of Fn_fork = DSOS_CALL_FORK"
| "code_of Fn_spawn = DSOS_CALL_SPAWN"
| "code_of Fn_wait = DSOS_CALL_WAIT"
| "code_of Fn_exit = DSOS_CALL_EXIT"
| "code_of Fn_sleep = DSOS_CALL_SLEEP"
| "code_of Fn_openResource = DSOS_CALL_OPEN_RESOURCE"
| "code_of Fn_closeResource = DSOS_CALL_CLOSE_RESOURCE"
| "code_of Fn_destroyResource = DSOS_CALL_DESTROY_RESOURCE"
| "code_of Fn_shutdown = DSOS_CALL_SHUTDOWN"
| "code_of Fn_bq_create = DSOS_CALL_BQ_CREATE"
| "code_of Fn_bq_delete = DSOS_CALL_BQ_DELETE"
| "code_of Fn_bq_put = DSOS_CALL_BQ_PUT"
| "code_of Fn_bq_get = DSOS_CALL_BQ_GET"
| "code_of Fn_bq_dump = DSOS_CALL_BQ_DUMP"

lemma length_vector: "length syscall_vector = 32"
  by (simp add: syscall_vector_def Let_def DSOS_MAX_SYSCALLS_def)

lemma vector_table:
  "list_all (\<lambda>n. case syscall_vector ! n of None \<Rightarrow> True | Some f \<Rightarrow> code_of f = int n) [0..<32]"
  by code_simp

lemma vector_code:
  assumes "arr_read syscall_vector n = Inr (Some f)"
  shows "n = code_of f"
proof -
  from assms have n: "0 \<le> n" "nat n < 32" and f: "syscall_vector ! nat n = Some f"
    by (auto simp: arr_read_def length_vector split: if_splits)
  from vector_table n(2) have "case syscall_vector ! nat n of None \<Rightarrow> True | Some f \<Rightarrow> code_of f = int (nat n)"
    by (simp add: list_all_iff)
  with f n(1) show ?thesis by simp
qed

lemma vector_complete: "arr_read syscall_vector (code_of f) = Inr (Some f)"
  by (cases f; simp; code_simp)


text \<open>
  Where control can go: to the running process, to \<open>main_context\<close> with nothing running or for the
  shutdown, to the interrupt with nothing running.
\<close>

fun control_ok :: "control \<Rightarrow> kernel \<Rightarrow> bool" where
  "control_ok (To_process p) k \<longleftrightarrow> running k = Some p"
| "control_ok To_main k \<longleftrightarrow> running k = None \<or> shutdown_now k \<noteq> 0"
| "control_ok To_interrupt k \<longleftrightarrow> running k = None"

lemma returning_keeps: "keeps r kernel_ok \<Longrightarrow> keeps (returning r) (\<lambda>(c, k'). kernel_ok k' \<and> c = None)"
  by (cases r) (simp_all add: returning_def)

text \<open>Fields the invariant does not read.\<close>

lemma kernel_ok_fields [simp]:
  "kernel_ok (k\<lparr>shutdown_now := n\<rparr>) = kernel_ok k"
  "kernel_ok (k\<lparr>user_mem := mem\<rparr>) = kernel_ok k"
  "kernel_ok (k\<lparr>log_file := l\<rparr>) = kernel_ok k"
  by (simp_all add: kernel_ok_def kernel_ok_parts blocked_def)

lemma shutdown_keeps: "kernel_ok k \<Longrightarrow> kernel_ok (internal_shutdown k)"
  by (simp add: internal_shutdown_def)

lemma handler_keeps:
  assumes ok: "kernel_ok k" and run: "running k = Some r" and call: "syscall_num (pcbs k r) = code_of f"
  shows "keeps (run_handler f k) (\<lambda>(c, k'). kernel_ok k' \<and> (\<forall>j. c = Some j \<longrightarrow> control_ok j k'))"
proof (cases "f = Fn_shutdown")
  case True
  with ok shutdown_keeps [OF ok] show ?thesis by (simp add: internal_shutdown_def)
next
  case False
  have "keeps (run_handler f k) (\<lambda>(c, k'). kernel_ok k' \<and> c = None)"
    using False call
    by (cases f) (auto intro!: returning_keeps preempt_keeps [OF ok] fork_keeps [OF ok run] spawn_keeps [OF ok run]
        wait_keeps [OF ok run] exit_keeps [OF ok run] sleep_keeps [OF ok run] open_keeps [OF ok run]
        close_keeps [OF ok run] destroy_keeps [OF ok run] bq_create_keeps [OF ok run] bq_delete_keeps [OF ok run]
        bq_put_keeps [OF ok run] bq_get_keeps [OF ok run] bq_dump_keeps [OF ok run])
  then show ?thesis by (rule keeps_mono) auto
qed

lemma return_keeps:
  assumes "kernel_ok k"
  shows "keeps (return_to_process n k) (\<lambda>(c, k'). kernel_ok k' \<and> control_ok c k')"
  using assms by (auto simp: return_to_process_def keeps_def split: option.splits)

lemma trap_keeps:
  assumes ok: "kernel_ok k"
  shows "keeps (disastrOS_trap k) (\<lambda>(c, k'). kernel_ok k' \<and> control_ok c k')"
proof (cases "running k")
  case None
  then show ?thesis by (simp add: disastrOS_trap_def)
next
  case run: (Some r)
  let ?n = "syscall_num (pcbs k r)"
  let ?k = "log_out (log_line (disastrOS_time k) (pid (pcbs k r)) (''SYSCALL_IN '' @ show_int ?n)) k"
  have ok': "kernel_ok ?k" and run': "running ?k = Some r" using ok run by simp_all
  have err: "keeps (return_to_process ?n (set_retvalue r v ?k)) (\<lambda>(c, k'). kernel_ok k' \<and> control_ok c k')" for v
    by (rule return_keeps, unfold set_retvalue_def, rule upd_ok [OF ok']) simp_all
  have "keeps (and_then (run_handler f ?k) (\<lambda>(jump, k2). case jump of
      Some c \<Rightarrow> Inr (c, k2) | None \<Rightarrow> return_to_process ?n k2)) (\<lambda>(c, k'). kernel_ok k' \<and> control_ok c k')"
    if "arr_read syscall_vector ?n = Inr (Some f)" for f
    by (rule keeps_then, rule keeps_mono [OF handler_keeps [OF ok' run']])
      (use vector_code [OF that] in \<open>auto split: option.split intro: return_keeps\<close>)
  with err show ?thesis
    by (auto simp: disastrOS_trap_def run Let_def simp del: run_handler.simps
      intro!: keeps_then split: option.split)
      (auto simp: keeps_def split: sum.split option.split)
qed

section \<open>What the invariant says of the processes and the blocks\<close>

definition places :: "kernel \<Rightarrow> ptr \<Rightarrow> nat" where
  "places k p = (if running k = Some p then 1 else 0) + count_list (lst k Ready_list) p +
     count_list (lst k Waiting_list) p + count_list (lst k Zombie_list) p"

lemma one_place:
  assumes ok: "kernel_ok k" and p: "p \<in> in_use k Pcb_buffer"
  shows "places k p = 1"
proof -
  note S = kernel_okD [OF ok]
  have d: "count_list (lst k h) p = (if p \<in> set (lst k h) then 1 else 0)" for h
    using struct_distinct [OF S(1), of h] by (simp add: count_list_distinct)
  have one: "p \<in> set (lst k h) \<Longrightarrow> h \<noteq> h' \<Longrightarrow> p \<notin> set (lst k h')" for h h' using struct_disjoint [OF S(1)] by blast
  have run: "running k = Some p \<Longrightarrow> p \<notin> set (lst k h)" for h by (rule running_notin [OF ok])
  consider "running k = Some p" | h where "h \<in> {Ready_list, Waiting_list, Zombie_list}" "p \<in> set (lst k h)"
    using S(2) p by (auto simp: sched_ok_def)
  then show ?thesis
  proof cases
    case 1
    then show ?thesis using run by (simp add: places_def d)
  next
    case (2 h)
    with run have "running k \<noteq> Some p" by blast
    with 2 one [OF 2(2)] show ?thesis by (auto simp: places_def d)
  qed
qed

lemma list_status:
  assumes "kernel_ok k"
  shows "p \<in> set (lst k Ready_list) \<Longrightarrow> status (pcbs k p) = Ready"
    and "p \<in> set (lst k Waiting_list) \<Longrightarrow> status (pcbs k p) = Waiting"
    and "p \<in> set (lst k Zombie_list) \<Longrightarrow> status (pcbs k p) = Zombie"
  using kernel_okD(2) [OF assms] by (simp_all add: sched_ok_def)

text \<open>A blocked process is waiting for a timer, in a queue, or for a child.\<close>

definition will_be_woken :: "kernel \<Rightarrow> ptr \<Rightarrow> bool" where
  "will_be_woken k p \<longleftrightarrow>
     (\<exists>t \<in> set (lst k Timer_list). timer_pcb (timer_items k t) = p) \<or>
     (\<exists>q. \<exists>w \<in> set (lst k (Wait_getters q)). pcb_ptrs k w = p) \<or>
     (\<exists>q. \<exists>w \<in> set (lst k (Wait_putters q)). pcb_ptrs k w = p) \<or>
     syscall_num (pcbs k p) = DSOS_CALL_WAIT"

lemma waiting_woken:
  assumes "kernel_ok k" and p: "p \<in> set (lst k Waiting_list)"
  shows "will_be_woken k p"
proof -
  note S = kernel_okD [OF assms(1)]
  have "syscall_num (pcbs k p) \<in> {DSOS_CALL_SLEEP, DSOS_CALL_WAIT, DSOS_CALL_BQ_GET, DSOS_CALL_BQ_PUT}"
    using S(8) p by (simp add: calls_ok_def)
  moreover have b: "p \<in> blocked (syscall_num (pcbs k p)) k" using p by (simp add: blocked_def)
  moreover have "p \<in> blocked DSOS_CALL_SLEEP k \<Longrightarrow> will_be_woken k p"
    using S(5) by (auto simp: timers_ok_def will_be_woken_def)
  moreover have "p \<in> blocked DSOS_CALL_BQ_GET k \<Longrightarrow> will_be_woken k p" "p \<in> blocked DSOS_CALL_BQ_PUT k \<Longrightarrow> will_be_woken k p"
    using S(6,7) by (auto simp: waiters_ok_def will_be_woken_def)
  ultimately show ?thesis by (auto simp: will_be_woken_def)
qed

text \<open>The free blocks of a pool and those in use are all of it.\<close>

lemma blocks_accounted:
  assumes "kernel_ok k"
  shows "int (card (in_use k r)) + room k r = pa_size_max (pools k r)"
  using card_live struct_pool_ok [OF kernel_okD(1) [OF assms]] by blast

end
