(* ===== verification/Boot.thy ===== *)
theory Boot
  imports System
begin

text \<open>
  The start of the system: \<open>disastrOS_start\<close> up to the creation of the first process.  Whatever the
  sizes of the structs, as long as a buffer stays below 2 GB, every pool is set up with all its blocks
  free, the assertions hold and the kernel's invariant is established.
\<close>

section \<open>The state before the first process\<close>

definition pool_fresh :: "region \<Rightarrow> int \<Rightarrow> region PoolAllocator \<Rightarrow> bool" where
  "pool_fresh r n a \<longleftrightarrow> pool_rep a [0..<nat n] \<and> pa_buffer a = Addr r 0 \<and> pa_size_max a = n"

definition fresh_kernel :: "kernel \<Rightarrow> bool" where
  "fresh_kernel k \<longleftrightarrow>
     (\<forall>h. head (lists k) h = \<lparr>lh_first = None, lh_last = None, lh_size = 0\<rparr>) \<and>
     (\<forall>r. pool_fresh r (pa_size_max (pools k r)) (pools k r)) \<and>
     pa_size_max (pools k Descriptor_buffer) = pa_size_max (pools k Descriptor_ptr_buffer) \<and>
     init_pcb k = None \<and> running k = None \<and> last_pid k = 0"

lemma pool_fresh_room: "pool_fresh r n a \<Longrightarrow> 0 \<le> n \<Longrightarrow> pa_size a = n"
  by (simp add: pool_fresh_def pool_rep_def)

lemma pool_fresh_nonneg: "pool_fresh r n a \<Longrightarrow> 0 \<le> n"
  by (auto simp: pool_fresh_def pool_rep_def)

lemma pool_fresh_live: "pool_fresh r n a \<Longrightarrow> live a = {}"
  using live_fresh [of a] by (simp add: pool_fresh_def pool_cap_def)

lemma fresh_lists:
  assumes "\<And>h. head m h = \<lparr>lh_first = None, lh_last = None, lh_size = 0\<rparr>"
  shows "lists_ok m \<and> contents m = (\<lambda>h. [])"
  by (rule lists_okI) (simp_all add: dlist_def assms)

lemma fresh_kernel_ok:
  assumes fresh: "fresh_kernel k"
  shows "kernel_ok k"
proof -
  have L: "lists_ok (lists k)" "\<And>h. lst k h = []"
    using fresh_lists [of "lists k"] fresh by (simp_all add: fresh_kernel_def)
  have F: "pool_fresh r (pa_size_max (pools k r)) (pools k r)" for r
    using fresh by (simp add: fresh_kernel_def)
  have P: "in_use k r = {}" "room k r = pa_size_max (pools k r)" for r
    using pool_fresh_live [OF F] pool_fresh_room [OF F pool_fresh_nonneg [OF F]] by blast+
  have "pool_ok (pools k r) \<and> pa_buffer (pools k r) = Addr r 0" for r
    using F [of r] pool_rep_ok by (auto simp: pool_fresh_def)
  then have "struct_inv (lists k) (pools k)" using L by (simp add: struct_inv_def)
  then show ?thesis
    using fresh by (simp add: kernel_ok_def kernel_ok_parts fresh_kernel_def L P blocked_def)
qed

section \<open>Initialisation\<close>

text \<open>The bound keeps the size of every buffer in the range of \<open>int\<close>.\<close>

definition sizes_ok :: "(region \<Rightarrow> int) \<Rightarrow> bool" where
  "sizes_ok sizeof \<longleftrightarrow> (\<forall>r. 0 < sizeof r \<and> sizeof r < 2 ^ 16)"

lemma pool_init_rule:
  assumes "pool_params sz n mem" and Q: "\<And>a. pool_fresh r n a \<Longrightarrow> Q (k\<lparr>pools := (pools k)(r := a)\<rparr>)"
  shows "ok_with (k_pool_init r sz n mem k) Q"
proof -
  from pool_init_rep [OF assms(1), of "pools k r" "Addr r 0"] obtain a where
    a: "PoolAllocator_init (pools k r) sz n (Addr r 0) mem = Inr (Success, a)" and f: "pool_fresh r n a"
    by (auto simp: pool_fresh_def)
  from Q [OF f] show ?thesis by (simp add: k_pool_init_def a)
qed

lemmas pool_sizes = pool_params_def sizeof_int_def sizes_ok_def MAX_NUM_PROCESSES_def MAX_NUM_RESOURCES_def
  MAX_NUM_DESCRIPTORS_def MAX_NUM_DESCRIPTORS_PER_PROCESS_def MAX_NUM_BQUEUES_def MAX_NUM_BQITEMS_def PCB_BUFFER_SIZE_def PCBPTR_BUFFER_SIZE_def
  TIMER_ITEM_BUFFER_SIZE_def RESOURCE_BUFFER_SIZE_def DESCRIPTOR_BUFFER_SIZE_def DESCRIPTORPTR_BUFFER_SIZE_def
  BQ_BUFFER_SIZE_def BQITEM_BUFFER_SIZE_def

lemma params_ok:
  assumes "sizes_ok sizeof"
  shows "pool_params (sizeof Pcb_buffer) MAX_NUM_PROCESSES (PCB_BUFFER_SIZE sizeof)"
    and "pool_params (sizeof Pcb_ptr_buffer) MAX_NUM_PROCESSES (PCBPTR_BUFFER_SIZE sizeof)"
    and "pool_params (sizeof Timer_item_buffer) MAX_NUM_PROCESSES (TIMER_ITEM_BUFFER_SIZE sizeof)"
    and "pool_params (sizeof Resources_buffer) MAX_NUM_RESOURCES (RESOURCE_BUFFER_SIZE sizeof)"
    and "pool_params (sizeof Descriptor_buffer) MAX_NUM_PROCESSES (DESCRIPTOR_BUFFER_SIZE sizeof)"
    and "pool_params (sizeof Descriptor_ptr_buffer) MAX_NUM_PROCESSES (DESCRIPTORPTR_BUFFER_SIZE sizeof)"
    and "pool_params (sizeof Bq_buffer) MAX_NUM_BQUEUES (BQ_BUFFER_SIZE sizeof)"
    and "pool_params (sizeof Bqitem_buffer) MAX_NUM_BQITEMS (BQITEM_BUFFER_SIZE sizeof)"
proof -
  have s: "0 < sizeof r" "sizeof r < 65536" for r using assms by (simp_all add: sizes_ok_def)
  show "pool_params (sizeof Pcb_buffer) MAX_NUM_PROCESSES (PCB_BUFFER_SIZE sizeof)"
    using s [of Pcb_buffer] by (simp add: pool_sizes)
  show "pool_params (sizeof Pcb_ptr_buffer) MAX_NUM_PROCESSES (PCBPTR_BUFFER_SIZE sizeof)"
    using s [of Pcb_ptr_buffer] by (simp add: pool_sizes)
  show "pool_params (sizeof Timer_item_buffer) MAX_NUM_PROCESSES (TIMER_ITEM_BUFFER_SIZE sizeof)"
    using s [of Timer_item_buffer] by (simp add: pool_sizes)
  show "pool_params (sizeof Resources_buffer) MAX_NUM_RESOURCES (RESOURCE_BUFFER_SIZE sizeof)"
    using s [of Resources_buffer] by (simp add: pool_sizes)
  show "pool_params (sizeof Descriptor_buffer) MAX_NUM_PROCESSES (DESCRIPTOR_BUFFER_SIZE sizeof)"
    using s [of Descriptor_buffer] by (simp add: pool_sizes)
  show "pool_params (sizeof Descriptor_ptr_buffer) MAX_NUM_PROCESSES (DESCRIPTORPTR_BUFFER_SIZE sizeof)"
    using s [of Descriptor_ptr_buffer] by (simp add: pool_sizes)
  show "pool_params (sizeof Bq_buffer) MAX_NUM_BQUEUES (BQ_BUFFER_SIZE sizeof)"
    using s [of Bq_buffer] by (simp add: pool_sizes)
  show "pool_params (sizeof Bqitem_buffer) MAX_NUM_BQITEMS (BQITEM_BUFFER_SIZE sizeof)"
    using s [of Bqitem_buffer] by (simp add: pool_sizes)
qed

text \<open>Initialising the lists of a memory whose heads are all empty changes nothing.\<close>

lemma init_empty:
  assumes "\<And>g. head m g = \<lparr>lh_first = None, lh_last = None, lh_size = 0\<rparr>"
  shows "head (List_init h m) g = \<lparr>lh_first = None, lh_last = None, lh_size = 0\<rparr>"
  using assms by (simp add: List_init_def set_defs)

lemma start_init_ok:
  assumes s: "sizes_ok sizeof" and z: "\<And>h. head (lists k) h = \<lparr>lh_first = None, lh_last = None, lh_size = 0\<rparr>"
    and lp: "last_pid k = 0"
  shows "ok_with (start_init sizeof k) (\<lambda>k'. fresh_kernel k' \<and> shutdown_now k' = shutdown_now k \<and>
    disastrOS_time k' = disastrOS_time k \<and> log_file k' = log_file k \<and>
    room k' Pcb_buffer = MAX_NUM_PROCESSES \<and> room k' Bq_buffer = MAX_NUM_BQUEUES \<and>
    room k' Bqitem_buffer = MAX_NUM_BQITEMS \<and> room k' Resources_buffer = MAX_NUM_RESOURCES \<and>
    room k' Pcb_ptr_buffer = MAX_NUM_PROCESSES \<and> pcbs k' = pcbs k \<and> user_mem k' = user_mem k)"
  unfolding start_init_def PCB_init_def Timer_init_def Resource_init_def Descriptor_init_def BQ_init_def
    ok_with_and_then Let_def
  apply (rule pool_init_rule [OF params_ok(1) [OF s]], rule pool_init_rule [OF params_ok(2) [OF s]],
      rule pool_init_rule [OF params_ok(3) [OF s]], rule pool_init_rule [OF params_ok(4) [OF s]],
      rule pool_init_rule [OF params_ok(5) [OF s]], rule pool_init_rule [OF params_ok(6) [OF s]],
      rule pool_init_rule [OF params_ok(7) [OF s]], rule pool_init_rule [OF params_ok(8) [OF s]])
  subgoal for a b c d e f g h
  proof -
    assume P: "pool_fresh Pcb_buffer MAX_NUM_PROCESSES a" "pool_fresh Pcb_ptr_buffer MAX_NUM_PROCESSES b"
      "pool_fresh Timer_item_buffer MAX_NUM_PROCESSES c" "pool_fresh Resources_buffer MAX_NUM_RESOURCES d"
      "pool_fresh Descriptor_buffer MAX_NUM_PROCESSES e" "pool_fresh Descriptor_ptr_buffer MAX_NUM_PROCESSES f"
      "pool_fresh Bq_buffer MAX_NUM_BQUEUES g" "pool_fresh Bqitem_buffer MAX_NUM_BQITEMS h"
    have max: "pa_size_max a' = n" if "pool_fresh r n a'" for r n a' using that by (simp add: pool_fresh_def)
    let ?P = "(pools k)(Pcb_buffer := a, Pcb_ptr_buffer := b, Timer_item_buffer := c, Resources_buffer := d,
      Descriptor_buffer := e, Descriptor_ptr_buffer := f, Bq_buffer := g, Bqitem_buffer := h)"
    have "pool_fresh r (pa_size_max (?P r)) (?P r)" for r
      by (cases r) (simp_all add: P max [OF P(1)] max [OF P(2)] max [OF P(3)] max [OF P(4)] max [OF P(5)]
        max [OF P(6)] max [OF P(7)] max [OF P(8)])
    then show ?thesis
      using P(1,2,4,7,8) [THEN pool_fresh_room [OF _ pool_fresh_nonneg]] P(1,2,4,7,8)
      by (simp add: fresh_kernel_def k_init_def init_empty z lp max [OF P(5)] max [OF P(6)])
  qed
  done


section \<open>The first process\<close>

text \<open>A new process without a parent that runs at once and becomes the initial one.\<close>

lemma first_family:
  assumes fam: "family_ok k" and p: "p \<notin> in_use k Pcb_buffer" "unlisted (lists k) p"
    and L: "\<And>q. lst k' (Children q) = lst k (Children q)" "lst k' Zombie_list = lst k Zombie_list"
    and U: "in_use k' Pcb_buffer = insert p (in_use k Pcb_buffer)" and i: "init_pcb k' = Some p"
    and ptr: "pcb_ptrs k' = pcb_ptrs k"
    and par: "\<And>x. parent (pcbs k' x) = (if x = p then None else parent (pcbs k x))"
  shows "family_ok k'"
proof (rule family_okI)
  have p_new: "pcb_ptrs k v \<noteq> p" if "v \<in> set (lst k (Children q))" for v q
    using family_child [OF fam that] p by auto
  show "q \<in> in_use k' Pcb_buffer \<and> pcb_ptrs k' v \<in> in_use k' Pcb_buffer \<and>
      parent (pcbs k' (pcb_ptrs k' v)) = Some q" if "v \<in> set (lst k' (Children q))" for q v
    using that family_child [OF fam, of v q] p_new [of v q] by (auto simp: L U ptr par)
  show "\<exists>v \<in> set (lst k' (Children q)). pcb_ptrs k' v = x"
    if "x \<in> in_use k' Pcb_buffer" "parent (pcbs k' x) = Some q" for x q
    using that family_link [OF fam, of x q] by (auto simp: L U ptr par split: if_splits)
  show "v = v'" if "v \<in> set (lst k' (Children q))" "v' \<in> set (lst k' (Children q))"
    "pcb_ptrs k' v = pcb_ptrs k' v'" for q v v'
    using that family_inj [OF fam, of v q v' q] by (auto simp: L ptr)
  show "lst k' (Children x) = []" if "x \<in> set (lst k' Zombie_list)" "parent (pcbs k' x) = Some q" for x q
    using that family_zombie [OF fam, of x q] by (auto simp: L par split: if_splits)
  show "parent (pcbs k' x) \<noteq> Some x" if "x \<in> in_use k' Pcb_buffer" for x
    using that family_self [OF fam, of x] by (auto simp: U par)
qed (use par in \<open>auto simp: U i\<close>)

lemma resume_state_ok:
  assumes ok: "kernel_ok k" and idle: "running k = None"
    and p: "p \<notin> in_use k Pcb_buffer" "unlisted (lists k) p"
    and m: "struct_inv m P" "contents m = (lst k)(Descriptors p := [])" "loose m p"
    and P: "\<And>r'. live (P r') = (if r' = Pcb_buffer then insert p (in_use k r') else in_use k r')"
      "\<And>r'. r' \<noteq> Pcb_buffer \<Longrightarrow> pa_size (P r') = room k r'"
    and b: "pid b = last_pid k" "status b = Running" "parent b = None" "timer b = None" "last_fd b = last_fd (pcbs k p)"
  shows "kernel_ok (k\<lparr>pools := P, lists := m, last_pid := last_pid k + 1,
    running := Some p, init_pcb := Some p, pcbs := (pcbs k)(p := b)\<rparr>)" (is "kernel_ok ?k")
proof (rule kernel_okI)
  note S = kernel_okD [OF ok]
  have notin: "p \<notin> set (lst k h)" for h using p by (simp add: unlisted_def)
  have B: "blocked n ?k = blocked n k" for n by (rule blocked_frame) (use notin in \<open>auto simp: m\<close>)
  show "sched_ok ?k" using S(2) idle notin m(3) b by (auto simp: sched_ok_def m(2) P)
  show "family_ok ?k"
    by (rule first_family [OF S(3) p]) (use b in \<open>simp_all add: m(2) P\<close>)
  show "pids_ok ?k" using S(4) p b by (auto simp: pids_ok_def m(2) P inj_on_def)
  show "timers_ok ?k"
    by (rule timers_frame [OF S(5)]) (use S(5) b in \<open>auto simp: m(2) P B timers_ok_def\<close>)
  show "waiters_ok Wait_getters DSOS_CALL_BQ_GET ?k"
    by (rule waiters_frame [OF S(6)]) (simp_all add: m(2) B)
  show "waiters_ok Wait_putters DSOS_CALL_BQ_PUT ?k"
    by (rule waiters_frame [OF S(7)]) (simp_all add: m(2) B)
  show "calls_ok ?k" by (rule calls_frame [OF S(8)]) (use notin in \<open>auto simp: m(2)\<close>)
  show "queues_ok ?k" by (rule queues_frame [OF S(9)]) (simp_all add: m(2))
  show "descriptors_ok ?k" using S(10) b by (auto simp: descriptors_ok_def m(2) P)
  show "leak_free ?k" using S(11) by (auto simp: leak_free_def m(2) P)
qed (use m in simp)

text \<open>
  Coming to \<open>main_context\<close> with nothing running and no shutdown starts a fresh initial process, at the
  boot and again whenever the timer finds nothing to run.
\<close>

lemma start_resume_ok:
  assumes ok: "kernel_ok k" and idle: "running k = None" and go: "shutdown_now k = 0"
    and room: "0 < room k Pcb_buffer" and lp: "last_pid k < 2 ^ 31 - 1"
  shows "ok_with (start_resume f f_args logging k) (\<lambda>res. \<exists>p k'. res = Some (To_process p, k') \<and> kernel_ok k' \<and>
    running k' = Some p \<and> init_pcb k' = Some p \<and> p \<notin> in_use k Pcb_buffer \<and>
    in_use k' Pcb_buffer = insert p (in_use k Pcb_buffer) \<and> status (pcbs k' p) = Running \<and>
    pid (pcbs k' p) = last_pid k \<and> cpu_state (pcbs k' p) = Ctx_entry f f_args \<and> parent (pcbs k' p) = None \<and>
    (\<forall>h. h \<noteq> Descriptors p \<longrightarrow> lst k' h = lst k h) \<and> shutdown_now k' = 0 \<and>
    (\<forall>r. r \<noteq> Pcb_buffer \<longrightarrow> room k' r = room k r) \<and> (\<not> logging \<longrightarrow> log_file k' = log_file k) \<and>
    (\<forall>x. x \<noteq> p \<longrightarrow> pcbs k' x = pcbs k x) \<and> user_mem k' = user_mem k \<and> lst k' (Descriptors p) = [] \<and>
    room k' Pcb_buffer = room k Pcb_buffer - 1 \<and> last_pid k' = last_pid k + 1)"
proof -
  note S = kernel_okD [OF ok]
  have lp0: "0 \<le> last_pid k" using S(4) by (simp add: pids_ok_def)
  show ?thesis
    unfolding start_resume_def
    apply (simp add: go ok_with_and_then)
    apply (rule PCB_alloc_rule [OF S(1) room lp0 lp])
    subgoal for p m P
      using resume_state_ok [OF ok idle, of p m P "(pcbs k p)\<lparr>pid := last_pid k, return_value := 0,
        signals := 0, signals_mask := -1, parent := None, timer := None, status := Running, cpu_state := Ctx_entry f f_args\<rparr>"]
        dead_no_children [OF S(3), of p] struct_dead_unlisted [OF S(1), of p] go
      by (simp add: pools_take_def Let_def upd_pcb_def fun_upd_idem)
    done
qed


lemma start_resume_stops: "shutdown_now k \<noteq> 0 \<Longrightarrow> start_resume f f_args logging k = Inr None"
  by (simp add: start_resume_def)

lemma start_resume_full:
  assumes "kernel_ok k" and "shutdown_now k = 0" and "room k Pcb_buffer \<le> 0"
  shows "start_resume f f_args logging k = Inl Null_deref"
  using PCB_alloc_full [OF kernel_okD(1) [OF assms(1)] assms(3)] assms(2) by (simp add: start_resume_def)

lemma start_resume_overflow:
  assumes "kernel_ok k" and "shutdown_now k = 0" and "0 < room k Pcb_buffer" and "2 ^ 31 - 1 \<le> last_pid k"
  shows "start_resume f f_args logging k = Inl Signed_overflow"
proof (rule get_clear [OF kernel_okD(1) [OF assms(1)] assms(3)])
  fix p m P
  assume "k_get Pcb_buffer k = Inr (Some p, k\<lparr>pools := P\<rparr>)"
  moreover have "add_int (last_pid k) 1 = Inl Signed_overflow" using assms(4) by (simp add: add_int_def)
  ultimately show ?thesis using assms(2) by (simp add: start_resume_def PCB_alloc_def)
qed

lemma start_resume_keeps:
  assumes ok: "kernel_ok k" and main: "control_ok To_main k"
  shows "keeps (start_resume f f_args logging k)
    (\<lambda>res. \<forall>c k'. res = Some (c, k') \<longrightarrow> kernel_ok k' \<and> control_ok c k')"
proof (cases "shutdown_now k = 0")
  case go: True
  with main have idle: "running k = None" by simp
  show ?thesis
  proof (cases "0 < room k Pcb_buffer \<and> last_pid k < 2 ^ 31 - 1")
    case True
    then show ?thesis by (intro keeps_ok [OF start_resume_ok [OF ok idle go]]) auto
  next
    case False
    then show ?thesis
      using start_resume_full [OF ok go] start_resume_overflow [OF ok go]
      by (cases "0 < room k Pcb_buffer") simp_all
  qed
qed (simp add: start_resume_stops)

text \<open>The system as it starts when \<open>main\<close> has printed \<open>out\<close>, up to its first process.\<close>

lemma boots_first:
  assumes "sizes_ok sizeof"
  obtains k0 p k where "start_init sizeof (zero_kernel\<lparr>stdout := out\<rparr>) = Inr k0" "kernel_ok k0" "running k0 = None"
    "shutdown_now k0 = 0" "user_mem k0 = (\<lambda>_. 0)" "in_use k0 Pcb_buffer = {}"
    "start_resume f f_args False k0 = Inr (Some (To_process p, k))" "kernel_ok k" "running k = Some p" "log_file k = None"
    "\<forall>h. lst k h = []" "room k Bq_buffer = MAX_NUM_BQUEUES" "room k Bqitem_buffer = MAX_NUM_BQITEMS"
    "room k Pcb_ptr_buffer = MAX_NUM_PROCESSES" "pid (pcbs k p) = 0" "init_pcb k = Some p" "cpu_state (pcbs k p) = Ctx_entry f f_args"
    "user_mem k = (\<lambda>_. 0)" "in_use k Pcb_buffer = {p}" "room k Pcb_buffer = MAX_NUM_PROCESSES - 1" "last_pid k = 1"
    "shutdown_now k = 0"
proof -
  from start_init_ok [OF assms, of "zero_kernel\<lparr>stdout := out\<rparr>"] obtain k0 where
    k0: "start_init sizeof (zero_kernel\<lparr>stdout := out\<rparr>) = Inr k0" "fresh_kernel k0" "shutdown_now k0 = 0" "log_file k0 = None"
      "room k0 Pcb_buffer = MAX_NUM_PROCESSES" "room k0 Bq_buffer = MAX_NUM_BQUEUES"
      "room k0 Bqitem_buffer = MAX_NUM_BQITEMS" "room k0 Pcb_ptr_buffer = MAX_NUM_PROCESSES" "user_mem k0 = (\<lambda>_. 0)"
    by (auto simp: ok_with_iff zero_kernel_def)
  from k0(2) have empty: "lst k0 h = []" and idle: "running k0 = None" "last_pid k0 = 0" for h
    using fresh_lists [of "lists k0"] by (auto simp: fresh_kernel_def)
  have live: "in_use k0 Pcb_buffer = {}"
    using k0(2) by (auto simp: fresh_kernel_def dest!: spec [of _ Pcb_buffer] dest: pool_fresh_live)
  from start_resume_ok [OF fresh_kernel_ok [OF k0(2)] idle(1) k0(3), of f f_args False] k0(5) idle(2) live
  obtain p k where k: "start_resume f f_args False k0 = Inr (Some (To_process p, k))" "kernel_ok k" "running k = Some p"
    "init_pcb k = Some p" "pid (pcbs k p) = 0" "cpu_state (pcbs k p) = Ctx_entry f f_args"
    "\<forall>h. h \<noteq> Descriptors p \<longrightarrow> lst k h = lst k0 h" "\<forall>r. r \<noteq> Pcb_buffer \<longrightarrow> room k r = room k0 r" "log_file k = None"
    "user_mem k = user_mem k0" "in_use k Pcb_buffer = {p}" "lst k (Descriptors p) = []"
    "room k Pcb_buffer = room k0 Pcb_buffer - 1" "last_pid k = 1" "shutdown_now k = 0"
    by (auto simp: ok_with_iff MAX_NUM_PROCESSES_def k0(4))
  then have "\<forall>h. lst k h = []" using empty by metis
  with k0 k live idle fresh_kernel_ok [OF k0(2)] show thesis by (intro that [of k0 p k]) simp_all
qed

end
