(* ===== verification/Machine.thy ===== *)
theory Machine
  imports Boot
begin

text \<open>
  The machine: what runs (a process, the code after \<open>getcontext\<close> in \<open>disastrOS_start\<close>, the interrupt
  routine, nothing) and the kernel state, with one step per system call, timer tick, resumption of
  \<open>main_context\<close>, output of a process or write of it to its memory.  A fault ends the run in \<open>Crashed\<close>.  A process
  that the dispatcher enters although its context was never set (a forked child) crashes as well.
\<close>

section \<open>Steps\<close>

datatype mode = In_process | In_main | In_interrupt | Finished | Crashed fault

type_synonym machine = "mode \<times> kernel"

text \<open>Following a transfer of control.\<close>

fun enter :: "control \<Rightarrow> kernel \<Rightarrow> mode" where
  "enter (To_process p) k = (if cpu_state (pcbs k p) = Ctx_unset then Crashed Bad_pointer else In_process)"
| "enter To_main k = In_main"
| "enter To_interrupt k = In_interrupt"

definition outcome :: "kernel \<Rightarrow> fault + (control \<times> kernel) \<Rightarrow> machine" where
  "outcome k r = (case r of Inl e \<Rightarrow> (Crashed e, k) | Inr (c, k') \<Rightarrow> (enter c k', k'))"

text \<open>The parameters are those of \<open>disastrOS_start\<close>.\<close>

inductive sys_step :: "int \<Rightarrow> int \<Rightarrow> bool \<Rightarrow> machine \<Rightarrow> machine \<Rightarrow> bool"
  for f :: int and f_args :: int and logging :: bool
where
  Call: "disastrOS_syscall n va k = Inr (Inr (c, k')) \<Longrightarrow>
    sys_step f f_args logging (In_process, k) (outcome k (Inr (c, k')))"
| Refuse: "disastrOS_syscall n va k = Inr (Inl v) \<Longrightarrow>
    sys_step f f_args logging (In_process, k) (In_process, k)"
| Call_fault: "disastrOS_syscall n va k = Inl e \<Longrightarrow>
    sys_step f f_args logging (In_process, k) (Crashed e, k)"
| Tick: "sys_step f f_args logging (In_process, k) (outcome k (timerHandler k))"
| Write: "sys_step f f_args logging (In_process, k) (In_process, k\<lparr>user_mem := mem\<rparr>)"
| Print: "sys_step f f_args logging (In_process, k) (In_process, print_out s k)"
| Status: "disastrOS_printStatus k = Inr k' \<Longrightarrow>
    sys_step f f_args logging (In_process, k) (In_process, k')"
| Interrupt: "sys_step f f_args logging (In_interrupt, k) (outcome k (timerInterrupt k))"
| Resume: "start_resume f f_args logging k = Inr (Some (c, k')) \<Longrightarrow>
    sys_step f f_args logging (In_main, k) (outcome k (Inr (c, k')))"
| Stop: "start_resume f f_args logging k = Inr None \<Longrightarrow>
    sys_step f f_args logging (In_main, k) (Finished, k)"
| Resume_fault: "start_resume f f_args logging k = Inl e \<Longrightarrow>
    sys_step f f_args logging (In_main, k) (Crashed e, k)"

inductive_cases Finished_stepE [elim!]: "sys_step f f_args logging (Finished, k) s"
inductive_cases Crashed_stepE [elim!]: "sys_step f f_args logging (Crashed e, k) s"
inductive_simps interrupt_step [simp]: "sys_step f f_args logging (In_interrupt, k) s"

text \<open>
  The states a run of the system can be in, from the static storage on; \<open>main\<close> may have printed something before
  it starts the system.
\<close>

definition booted :: "(region \<Rightarrow> int) \<Rightarrow> machine \<Rightarrow> bool" where
  "booted sizeof s \<longleftrightarrow> fst s = In_main \<and> (\<exists>out. start_init sizeof (zero_kernel\<lparr>stdout := out\<rparr>) = Inr (snd s))"

definition reachable :: "(region \<Rightarrow> int) \<Rightarrow> int \<Rightarrow> int \<Rightarrow> bool \<Rightarrow> machine \<Rightarrow> bool" where
  "reachable sizeof f f_args logging s \<longleftrightarrow> (\<exists>s0. booted sizeof s0 \<and> (sys_step f f_args logging)\<^sup>*\<^sup>* s0 s)"

section \<open>The invariant\<close>

text \<open>
  As long as the code has not gone wrong the kernel's invariant holds and what runs fits the kernel's
  idea of it.
\<close>

fun machine_ok :: "machine \<Rightarrow> bool" where
  "machine_ok (In_process, k) \<longleftrightarrow> kernel_ok k \<and> running k \<noteq> None"
| "machine_ok (In_main, k) \<longleftrightarrow> kernel_ok k \<and> control_ok To_main k"
| "machine_ok (In_interrupt, k) \<longleftrightarrow> kernel_ok k \<and> running k = None"
| "machine_ok (Finished, k) \<longleftrightarrow> kernel_ok k \<and> shutdown_now k \<noteq> 0"
| "machine_ok (Crashed e, k) \<longleftrightarrow> True"

lemma enter_ok: "kernel_ok k \<Longrightarrow> control_ok c k \<Longrightarrow> machine_ok (enter c k, k)"
  by (cases c) auto

lemma outcome_ok:
  "keeps r (\<lambda>(c, k'). kernel_ok k' \<and> control_ok c k') \<Longrightarrow> machine_ok (outcome k r)"
  by (auto simp: outcome_def keeps_def enter_ok split: sum.splits)

lemma interrupt_keeps:
  assumes "kernel_ok k"
  shows "keeps (timerInterrupt k) (\<lambda>(c, k'). kernel_ok k' \<and> control_ok c k')"
proof (cases "disastrOS_time k + 1 < 2 ^ 31 \<and> - (2 ^ 31) \<le> disastrOS_time k + 1")
  case True
  then show ?thesis
    by (intro keeps_ok [OF timerInterrupt_ok [OF assms]]) (auto simp: interrupted_def split: option.splits)
next
  case False
  then show ?thesis by (auto simp: timerInterrupt_def Let_def add_int_def)
qed

lemma handler_tick_keeps:
  assumes "kernel_ok k"
  shows "keeps (timerHandler k) (\<lambda>(c, k'). kernel_ok k' \<and> control_ok c k')"
  unfolding timerHandler_def
  by (rule interrupt_keeps) (auto simp: assms upd_ok split: option.split)

lemma syscall_keeps:
  assumes ok: "kernel_ok k"
  shows "keeps (disastrOS_syscall n va k) (\<lambda>res. \<forall>c k'. res = Inr (c, k') \<longrightarrow> kernel_ok k' \<and> control_ok c k')"
proof (cases "running k")
  case None
  then show ?thesis by (simp add: disastrOS_syscall_def)
next
  case (Some r)
  have "kernel_ok (upd_pcb r (\<lambda>b. b\<lparr>syscall_args := regs, syscall_num := n, cpu_state := Ctx_saved\<rparr>) k)" for regs
    using running_notin [OF ok Some] by (intro upd_ok [OF ok]) auto
  note trap = trap_keeps [OF this]
  have "keeps (and_then (disastrOS_trap (upd_pcb r (\<lambda>b. b\<lparr>syscall_args := regs, syscall_num := n, cpu_state := Ctx_saved\<rparr>) k))
      (\<lambda>ck. Inr (Inr ck))) (\<lambda>res. \<forall>c k'. res = Inr (c, k') \<longrightarrow> kernel_ok k' \<and> control_ok c k')" for regs
    by (rule keeps_then, rule keeps_mono [OF trap]) auto
  note call = keeps_then_any [OF keeps_then_any [OF this], of "arr_read syscall_numarg n"]
  show ?thesis
    by (simp add: disastrOS_syscall_def Some Let_def) (intro impI conjI, rule call)
qed

lemma status_keeps: "kernel_ok k \<Longrightarrow> disastrOS_printStatus k = Inr k' \<Longrightarrow> kernel_ok k' \<and> running k' = running k"
  using printStatus_total [OF kernel_okD(1), of k] by auto

lemma step_ok:
  assumes "sys_step f f_args logging s s'" and "machine_ok s"
  shows "machine_ok s'"
  using assms
proof (induction rule: sys_step.induct)
  case (Call n va k c k')
  with syscall_keeps [of k n va] show ?case by (simp add: outcome_def enter_ok)
next
  case (Tick k)
  then show ?case by (simp add: outcome_ok handler_tick_keeps)
next
  case (Status k k')
  then show ?case using status_keeps [of k k'] by auto
next
  case (Interrupt k)
  then show ?case by (simp add: outcome_ok interrupt_keeps)
next
  case (Resume k c k')
  with start_resume_keeps [of k f f_args logging] show ?case by (simp add: outcome_def enter_ok)
next
  case (Stop k)
  then show ?case by (auto simp: start_resume_def split: if_splits) (auto simp: and_then_Inr_iff Let_def)
qed simp_all

lemma booted_ok:
  assumes "sizes_ok sizeof" and "booted sizeof s"
  shows "machine_ok s"
proof -
  from assms(2) obtain out where s: "fst s = In_main" "start_init sizeof (zero_kernel\<lparr>stdout := out\<rparr>) = Inr (snd s)"
    by (auto simp: booted_def)
  have "ok_with (start_init sizeof (zero_kernel\<lparr>stdout := out\<rparr>)) (\<lambda>k'. fresh_kernel k')"
    by (rule ok_with_mono [OF start_init_ok [OF assms(1)]]) (simp_all add: zero_kernel_def)
  with s(2) have "fresh_kernel (snd s)" by simp
  with s(1) fresh_kernel_ok [OF this] show ?thesis by (cases s) (simp add: fresh_kernel_def)
qed

end
