(* ===== verification/Demo.thy ===== *)
theory Demo
  imports Machine
begin

text \<open>
  Concrete kernel states on which the theorems are applied.  A state is given by what its lists hold
  and how many blocks of each pool are in use; \<open>mem_of\<close> builds the linked lists by the code's own
  insertion and \<open>used_pool\<close> a pool whose first blocks are handed out.
\<close>

section \<open>List memories and pools\<close>

fun build :: "(list_id \<times> ptr) list \<Rightarrow> (ptr, list_id) list_mem" where
  "build [] = lists zero_kernel"
| "build ((h, p) # xs) = (let m = build xs in list_link h (lh_last (head m h)) p m)"

definition mem_of :: "(list_id \<times> ptr) list \<Rightarrow> (ptr, list_id) list_mem" where
  "mem_of xs = build (rev xs)"

definition on_list :: "list_id \<Rightarrow> (list_id \<times> ptr) list \<Rightarrow> ptr list" where
  "on_list h xs = map snd (filter (\<lambda>(g, p). g = h) xs)"

lemma on_list_simps [simp]:
  "on_list h [] = []" "on_list h ((g, p) # xs) = (if g = h then p # on_list h xs else on_list h xs)"
  by (simp_all add: on_list_def)

lemma set_on_list: "set (on_list h xs) \<subseteq> snd ` set xs"
  by (auto simp: on_list_def)

lemma build_ok:
  "distinct (map snd xs) \<Longrightarrow> lists_ok (build xs) \<and> contents (build xs) = (\<lambda>h. on_list h (rev xs)) \<and>
     (\<forall>p. p \<notin> snd ` set xs \<longrightarrow> clean (build xs) p)"
proof (induction xs)
  case Nil
  have "head (lists zero_kernel) h = \<lparr>lh_first = None, lh_last = None, lh_size = 0\<rparr>" for h
    by (simp add: zero_kernel_def)
  from fresh_lists [OF this] show ?case by (simp add: clean_def zero_kernel_def)
next
  case (Cons x xs)
  obtain h p where x: "x = (h, p)" by (cases x)
  let ?m = "build xs" and ?l = "last_opt (contents (build xs) h)"
  from Cons have m: "lists_ok ?m" "contents ?m = (\<lambda>h. on_list h (rev xs))" "\<And>q. q \<notin> snd ` set xs \<Longrightarrow> clean ?m q"
    and p: "p \<notin> snd ` set xs" by (auto simp: x)
  have un: "q \<notin> set (contents ?m g)" if "q \<notin> snd ` set xs" for q g
    using that set_on_list [of g "rev xs"] by (auto simp: m(2))
  have prv: "case ?l of None \<Rightarrow> True | Some q \<Rightarrow> q \<in> set (contents ?m h)"
    by (auto split: option.split dest: last_opt_in)
  have b: "build (x # xs) = list_link h ?l p ?m" by (simp add: x Let_def last_contents [OF m(1)])
  have "unlisted ?m p" using un [OF p] by (simp add: unlisted_def)
  from list_link_ok [OF m(1) this m(3) [OF p] prv]
  have L: "lists_ok (build (x # xs))" "contents (build (x # xs)) = (contents ?m)(h := contents ?m h @ [p])"
    using m(1) unfolding b by simp_all
  moreover have "contents (build (x # xs)) = (\<lambda>g. on_list g (rev (x # xs)))"
    unfolding L(2) by (auto simp: m(2) x on_list_def fun_eq_iff)
  moreover have "clean (build (x # xs)) q" if "q \<notin> snd ` set (x # xs)" for q
    unfolding b using that by (subst list_link_clean [OF m(1) prv]) (auto simp: x un m(3))
  ultimately show ?case by blast
qed

lemma mem_of_ok:
  assumes "distinct (map snd xs)"
  shows "lists_ok (mem_of xs)" and "contents (mem_of xs) h = on_list h xs"
    and "p \<notin> snd ` set xs \<Longrightarrow> loose (mem_of xs) p"
proof -
  have d: "distinct (map snd (rev xs))" using assms by (simp flip: rev_map)
  note B = build_ok [OF d]
  show "lists_ok (mem_of xs)" "contents (mem_of xs) h = on_list h xs" using B by (simp_all add: mem_of_def)
  show "loose (mem_of xs) p" if "p \<notin> snd ` set xs"
    using B that set_on_list [of _ xs] by (auto simp: mem_of_def loose_def unlisted_def)
qed

definition used_pool :: "nat \<Rightarrow> nat \<Rightarrow> region \<Rightarrow> region PoolAllocator" where
  "used_pool u n r = \<lparr>pa_buffer = Addr r 0,
     pa_free_list = map (\<lambda>i. if i < u then -2 else if i = n - 1 then -1 else int i + 1) [0..<n],
     pa_buffer_size = 8 * int n, pa_size = int (n - u), pa_size_max = int n, pa_item_size = 8,
     pa_first_idx = (if u < n then int u else -1), pa_bucket_size = 0\<rparr>"

lemma used_pool_rep:
  assumes "u \<le> n" and "n < 1000"
  shows "pool_rep (used_pool u n r) [u..<n]"
proof (cases "u < n")
  case True
  have "idx_chain (pa_free_list (used_pool u n r)) (int u) [u..<n]"
    by (rule init_chain) (use True in \<open>auto simp: used_pool_def\<close>)
  with True assms show ?thesis
    by (auto simp: pool_rep_def used_pool_def pool_cap_def list_all_iff DetachedIdx_def)
next
  case False
  with assms show ?thesis
    by (auto simp: pool_rep_def used_pool_def pool_cap_def list_all_iff DetachedIdx_def)
qed

lemma used_pool_ok:
  assumes "u \<le> n" and "n < 1000"
  shows "pool_ok (used_pool u n r)" and "pa_buffer (used_pool u n r) = Addr r 0"
    and "pa_size (used_pool u n r) = int (n - u)"
    and "live (used_pool u n r) = (\<lambda>i. Addr r (8 * int i)) ` {..<u}"
proof -
  show "pool_ok (used_pool u n r)" by (rule pool_okI [OF used_pool_rep [OF assms]])
  show "pa_buffer (used_pool u n r) = Addr r 0" "pa_size (used_pool u n r) = int (n - u)"
    by (simp_all add: used_pool_def)
  have "pool_cap (used_pool u n r) = n" "block_addr (used_pool u n r) i = Addr r (8 * int i)" for i
    by (simp_all add: used_pool_def pool_cap_def block_addr_def addr_plus_def)
  moreover have "pa_free_list (used_pool u n r) ! i = DetachedIdx \<longleftrightarrow> i < u" if "i < n" for i
    using that by (simp add: used_pool_def DetachedIdx_def)
  ultimately show "live (used_pool u n r) = (\<lambda>i. Addr r (8 * int i)) ` {..<u}"
    using assms(1) by (auto simp: live_def image_def)
qed


section \<open>A busy system\<close>

text \<open>The block \<open>i\<close> of a pool.\<close>

abbreviation blk :: "region \<Rightarrow> int \<Rightarrow> ptr" where "blk r i \<equiv> Addr r (8 * i)"

text \<open>
  The initial process 0 runs; its children are the process 1, ready, the zombie 2, the sleeper 3, the
  putter 4 that waits on the full queue 0 and the getter 5 that waits on the empty queue 1.  The queue 2
  holds one item and has room.  The resource 0 is open, the resource 1 is not.
\<close>

definition busy_lists :: "(list_id \<times> ptr) list" where
  "busy_lists =
     [(Ready_list, Addr Pcb_buffer 8), (Zombie_list, Addr Pcb_buffer 16), (Waiting_list, Addr Pcb_buffer 24),
      (Waiting_list, Addr Pcb_buffer 32), (Waiting_list, Addr Pcb_buffer 40),
      (Children (Addr Pcb_buffer 0), Addr Pcb_ptr_buffer 0), (Children (Addr Pcb_buffer 0), Addr Pcb_ptr_buffer 8),
      (Children (Addr Pcb_buffer 0), Addr Pcb_ptr_buffer 16), (Children (Addr Pcb_buffer 0), Addr Pcb_ptr_buffer 24),
      (Children (Addr Pcb_buffer 0), Addr Pcb_ptr_buffer 32),
      (Timer_list, Addr Timer_item_buffer 0),
      (Bq_registry, Addr Bq_buffer 0), (Bq_registry, Addr Bq_buffer 8), (Bq_registry, Addr Bq_buffer 16),
      (Items (Addr Bq_buffer 0), Addr Bqitem_buffer 0), (Wait_putters (Addr Bq_buffer 0), Addr Pcb_ptr_buffer 40),
      (Wait_getters (Addr Bq_buffer 8), Addr Pcb_ptr_buffer 48), (Items (Addr Bq_buffer 16), Addr Bqitem_buffer 8),
      (Resources_list, Addr Resources_buffer 0), (Resources_list, Addr Resources_buffer 8),
      (Descriptors (Addr Pcb_buffer 0), Addr Descriptor_buffer 0),
      (Descriptors_ptrs (Addr Resources_buffer 0), Addr Descriptor_ptr_buffer 0)]"

fun busy_used :: "region \<Rightarrow> nat" where
  "busy_used Pcb_buffer = 6"
| "busy_used Pcb_ptr_buffer = 7"
| "busy_used Timer_item_buffer = 1"
| "busy_used Resources_buffer = 2"
| "busy_used Descriptor_buffer = 1"
| "busy_used Descriptor_ptr_buffer = 1"
| "busy_used Bq_buffer = 3"
| "busy_used Bqitem_buffer = 2"

definition demo_pcb :: "int \<Rightarrow> ProcessStatus \<Rightarrow> ptr option \<Rightarrow> int \<Rightarrow> (nat \<Rightarrow> int) \<Rightarrow> PCB" where
  "demo_pcb p st par n args = zero_pcb\<lparr>pid := p, status := st, parent := par, syscall_num := n, syscall_args := args,
     cpu_state := Ctx_saved\<rparr>"

text \<open>The call of the running process and the number of spare blocks of each pool are parameters.\<close>

definition busy :: "(region \<Rightarrow> nat) \<Rightarrow> int \<Rightarrow> (nat \<Rightarrow> int) \<Rightarrow> kernel" where
  "busy free n args = zero_kernel\<lparr>
     lists := mem_of busy_lists,
     pools := (\<lambda>r. used_pool (busy_used r) (busy_used r + free r) r),
     pcbs := (\<lambda>_. zero_pcb)
       (Addr Pcb_buffer 0 := (demo_pcb 0 Running None n args)\<lparr>last_fd := 1\<rparr>,
        Addr Pcb_buffer 8 := demo_pcb 1 Ready (Some (Addr Pcb_buffer 0)) 0 (\<lambda>_. 0),
        Addr Pcb_buffer 16 := (demo_pcb 2 Zombie (Some (Addr Pcb_buffer 0)) 0 (\<lambda>_. 0))\<lparr>return_value := 42\<rparr>,
        Addr Pcb_buffer 24 := demo_pcb 3 Waiting (Some (Addr Pcb_buffer 0)) DSOS_CALL_SLEEP (\<lambda>_. 0),
        Addr Pcb_buffer 32 := demo_pcb 4 Waiting (Some (Addr Pcb_buffer 0)) DSOS_CALL_BQ_PUT ((\<lambda>_. 0)(0 := 1, 1 := 77)),
        Addr Pcb_buffer 40 := demo_pcb 5 Waiting (Some (Addr Pcb_buffer 0)) DSOS_CALL_BQ_GET ((\<lambda>_. 0)(0 := 2, 1 := 500))),
     pcb_ptrs := (\<lambda>_. null_block)
       (Addr Pcb_ptr_buffer 0 := Addr Pcb_buffer 8, Addr Pcb_ptr_buffer 8 := Addr Pcb_buffer 16,
        Addr Pcb_ptr_buffer 16 := Addr Pcb_buffer 24, Addr Pcb_ptr_buffer 24 := Addr Pcb_buffer 32,
        Addr Pcb_ptr_buffer 32 := Addr Pcb_buffer 40, Addr Pcb_ptr_buffer 40 := Addr Pcb_buffer 32,
        Addr Pcb_ptr_buffer 48 := Addr Pcb_buffer 40),
     timer_items := (\<lambda>_. \<lparr>awakening_time = 5, timer_pcb = Addr Pcb_buffer 24\<rparr>),
     resources := (\<lambda>_. \<lparr>res_id = 3, res_type = 0\<rparr>)(Addr Resources_buffer 8 := \<lparr>res_id = 4, res_type = 1\<rparr>),
     descriptors := (\<lambda>_. \<lparr>des_pcb = Addr Pcb_buffer 0, des_resource = Addr Resources_buffer 0, des_fd = 0,
        des_ptr = Some (Addr Descriptor_ptr_buffer 0)\<rparr>),
     descriptor_ptrs := (\<lambda>_. Addr Descriptor_buffer 0),
     bqueues := (\<lambda>_. \<lparr>bq_id = 1, bq_capacity = 1, bq_size = 1\<rparr>)
       (Addr Bq_buffer 8 := \<lparr>bq_id = 2, bq_capacity = 2, bq_size = 0\<rparr>,
        Addr Bq_buffer 16 := \<lparr>bq_id = 3, bq_capacity = 2, bq_size = 1\<rparr>),
     bq_items := (\<lambda>_. 10)(Addr Bqitem_buffer 8 := 33),
     init_pcb := Some (Addr Pcb_buffer 0), running := Some (Addr Pcb_buffer 0), last_pid := 6, disastrOS_time := 4\<rparr>"

lemma busy_distinct: "distinct (map snd busy_lists)"
  by (simp add: busy_lists_def)

lemma busy_fields [simp]:
  "lst (busy free n args) h = on_list h busy_lists"
  "running (busy free n args) = Some (Addr Pcb_buffer 0)" "init_pcb (busy free n args) = Some (Addr Pcb_buffer 0)"
  "last_pid (busy free n args) = 6" "disastrOS_time (busy free n args) = 4" "log_file (busy free n args) = None"
  "shutdown_now (busy free n args) = 0" "user_mem (busy free n args) = (\<lambda>_. 0)"
  by (simp_all add: busy_def mem_of_ok [OF busy_distinct] zero_kernel_def)

lemma busy_room:
  assumes "\<forall>r. free r < 900"
  shows "room (busy free n args) r = int (free r)"
    and "in_use (busy free n args) r = (\<lambda>i. Addr r (8 * int i)) ` {..<busy_used r}"
proof -
  have "busy_used r < 8" by (cases r) simp_all
  with assms [THEN spec, of r] have "busy_used r + free r < 1000" by simp
  note U = used_pool_ok [OF _ this, of "busy_used r" r]
  show "room (busy free n args) r = int (free r)"
    "in_use (busy free n args) r = (\<lambda>i. Addr r (8 * int i)) ` {..<busy_used r}"
    using U by (simp_all add: busy_def)
qed

lemma blk_in: "Addr r c \<in> (\<lambda>i. Addr r (8 * int i)) ` {..<n} \<longleftrightarrow> 0 \<le> c \<and> c mod 8 = 0 \<and> c < 8 * int n"
proof
  assume "0 \<le> c \<and> c mod 8 = 0 \<and> c < 8 * int n"
  then have "c = 8 * int (nat (c div 8))" "nat (c div 8) < n" by (auto simp: nat_less_iff)
  then show "Addr r c \<in> (\<lambda>i. Addr r (8 * int i)) ` {..<n}" by (intro image_eqI [of _ _ "nat (c div 8)"]) auto
qed auto

lemma busy_struct:
  assumes f: "\<forall>r. free r < 900"
  shows "struct_inv (lists (busy free n args)) (pools (busy free n args))"
proof -
  have "\<forall>(h, p) \<in> set busy_lists. region_of p = kind h \<and> 0 \<le> offset_of p \<and> offset_of p mod 8 = 0 \<and>
      offset_of p < 8 * int (busy_used (kind h))"
    by (simp add: busy_lists_def)
  then have "p \<in> in_use (busy free n args) (kind h)" if "(h, p) \<in> set busy_lists" for h p
    using that blk_in [of "kind h" "offset_of p" "busy_used (kind h)"] busy_room(2) [OF f, of n args "kind h"]
    by (cases p) fastforce
  then have "set (lst (busy free n args) h) \<subseteq> in_use (busy free n args) (kind h)" for h
    by (auto simp: on_list_def)
  moreover have "pool_ok (pools (busy free n args) r) \<and> pa_buffer (pools (busy free n args) r) = Addr r 0" for r
  proof -
    have "busy_used r < 8" by (cases r) simp_all
    with f [THEN spec, of r] have "busy_used r + free r < 1000" by simp
    from used_pool_ok(1,2) [OF _ this, of "busy_used r" r] show ?thesis by (simp add: busy_def)
  qed
  ultimately show ?thesis
    using mem_of_ok(1) [OF busy_distinct] by (simp add: struct_inv_def) (simp add: busy_def)
qed

lemma busy_pcbs_in_use:
  assumes f: "\<forall>r. free r < 900"
  shows "in_use (busy free n args) Pcb_buffer =
    {Addr Pcb_buffer 0, Addr Pcb_buffer 8, Addr Pcb_buffer 16, Addr Pcb_buffer 24, Addr Pcb_buffer 32, Addr Pcb_buffer 40}"
  by (auto simp: busy_room(2) [OF f] lessThan_nat_numeral lessThan_Suc)

lemma busy_ok:
  assumes f: "\<forall>r. free r < 900" and d: "free Descriptor_buffer = free Descriptor_ptr_buffer"
  shows "kernel_ok (busy free n args)"
proof (rule kernel_okI)
  let ?k = "busy free n args"
  note U = busy_pcbs_in_use [OF f]
  note L = busy_lists_def
  have B: "blocked c ?k = {p \<in> {Addr Pcb_buffer 24, Addr Pcb_buffer 32, Addr Pcb_buffer 40}. syscall_num (pcbs ?k p) = c}" for c
    by (simp add: blocked_def L)
  show "struct_inv (lists ?k) (pools ?k)" by (rule busy_struct [OF f])
  have "loose (lists ?k) (Addr Pcb_buffer 0)"
    by (simp add: busy_def mem_of_ok(3) [OF busy_distinct]) (rule mem_of_ok(3) [OF busy_distinct], simp add: L)
  then show "sched_ok ?k" by (auto simp: sched_ok_def U L) (simp_all add: busy_def demo_pcb_def)
  show "family_ok ?k" by (auto simp: family_ok_def U L inj_on_def) (simp_all add: busy_def demo_pcb_def)
  show "pids_ok ?k" by (auto simp: pids_ok_def U inj_on_def) (simp_all add: busy_def demo_pcb_def zero_pcb_def)
  have S: "blocked DSOS_CALL_SLEEP ?k = {Addr Pcb_buffer 24}" "blocked DSOS_CALL_BQ_PUT ?k = {Addr Pcb_buffer 32}"
    "blocked DSOS_CALL_BQ_GET ?k = {Addr Pcb_buffer 40}"
    unfolding B by (auto simp: busy_def demo_pcb_def zero_kernel_def DSOS_CALL_SLEEP_def DSOS_CALL_BQ_PUT_def
        DSOS_CALL_BQ_GET_def)
  show "timers_ok ?k" unfolding timers_ok_def S U by (simp add: L) (simp add: busy_def demo_pcb_def zero_pcb_def)
  show "waiters_ok Wait_getters DSOS_CALL_BQ_GET ?k" unfolding waiters_ok_def S by (auto simp: L) (simp_all add: busy_def)
  show "waiters_ok Wait_putters DSOS_CALL_BQ_PUT ?k" unfolding waiters_ok_def S by (auto simp: L) (simp_all add: busy_def)
  show "calls_ok ?k" unfolding calls_ok_def by (simp add: L) (simp add: busy_def demo_pcb_def)
  show "queues_ok ?k" unfolding queues_ok_def by (auto simp: L inj_on_def) (simp_all add: busy_def split: if_splits)
  have D: "room ?k Descriptor_ptr_buffer = room ?k Descriptor_buffer"
    "Addr Descriptor_buffer 0 \<in> in_use ?k Descriptor_buffer"
    by (simp_all add: busy_room [OF f] d blk_in)
  have V: "descriptors ?k x = \<lparr>des_pcb = Addr Pcb_buffer 0, des_resource = Addr Resources_buffer 0, des_fd = 0,
        des_ptr = Some (Addr Descriptor_ptr_buffer 0)\<rparr>" "descriptor_ptrs ?k x = Addr Descriptor_buffer 0"
    "resources ?k (Addr Resources_buffer 0) = \<lparr>res_id = 3, res_type = 0\<rparr>"
    "resources ?k (Addr Resources_buffer 8) = \<lparr>res_id = 4, res_type = 1\<rparr>"
    "last_fd (pcbs ?k (Addr Pcb_buffer 0)) = 1" for x
    by (simp_all add: busy_def)
  show "descriptors_ok ?k" unfolding descriptors_ok_def by (auto simp: L inj_on_def V D)
  show "leak_free ?k"
    unfolding leak_free_def
    by (auto simp: busy_room(2) [OF f] lessThan_Suc lessThan_nat_numeral L)
qed


text \<open>With four free blocks in each pool.\<close>

lemma busy4 [simp]: "kernel_ok (busy (\<lambda>_. 4) n args)" "room (busy (\<lambda>_. 4) n args) r = 4"
  by (simp_all add: busy_ok busy_room)

lemma busy_caller [simp]:
  "syscall_args (pcbs (busy free n args) (Addr Pcb_buffer 0)) = args" "syscall_num (pcbs (busy free n args) (Addr Pcb_buffer 0)) = n"
  "pid (pcbs (busy free n args) (Addr Pcb_buffer 0)) = 0" "last_fd (pcbs (busy free n args) (Addr Pcb_buffer 0)) = 1"
  by (simp_all add: busy_def demo_pcb_def)

section \<open>Small families\<close>

text \<open>
  States with processes and timers only; \<open>few\<close> gives the blocks that are in use, and four of each pool
  are free.
\<close>

definition few_pools :: "nat \<Rightarrow> nat \<Rightarrow> nat \<Rightarrow> region \<Rightarrow> region PoolAllocator" where
  "few_pools procs links timers r =
     (let u = (if r = Pcb_buffer then procs else if r = Pcb_ptr_buffer then links
               else if r = Timer_item_buffer then timers else 0)
      in used_pool u (u + 4) r)"

lemma few_pools:
  assumes "procs < 100" "links < 100" "timers < 100"
  shows "pool_ok (few_pools procs links timers r)" and "pa_buffer (few_pools procs links timers r) = Addr r 0"
    and "pa_size (few_pools procs links timers r) = 4"
    and "live (few_pools procs links timers r) = (\<lambda>i. Addr r (8 * int i)) `
      {..<if r = Pcb_buffer then procs else if r = Pcb_ptr_buffer then links else if r = Timer_item_buffer then timers else 0}"
  using assms by (simp_all add: few_pools_def Let_def used_pool_ok)

lemma family_struct:
  assumes k: "lists k = mem_of xs" "pools k = few_pools procs links timers" and d: "distinct (map snd xs)"
    and n: "procs < 100" "links < 100" "timers < 100"
    and x: "\<And>h p. (h, p) \<in> set xs \<Longrightarrow> p \<in> live (few_pools procs links timers (kind h))"
  shows "struct_inv (lists k) (pools k)"
proof -
  have "set (on_list h xs) \<subseteq> live (few_pools procs links timers (kind h))" for h
    using x by (auto simp: on_list_def)
  then show ?thesis
    using mem_of_ok [OF d] few_pools [OF n] by (simp add: struct_inv_def k)
qed

text \<open>The initial process runs, its only child sleeps and nothing is ready.\<close>

definition lone :: "int \<Rightarrow> (nat \<Rightarrow> int) \<Rightarrow> kernel" where
  "lone n args = zero_kernel\<lparr>
     lists := mem_of [(Waiting_list, Addr Pcb_buffer 8), (Children (Addr Pcb_buffer 0), Addr Pcb_ptr_buffer 0),
       (Timer_list, Addr Timer_item_buffer 0)],
     pools := few_pools 2 1 1,
     pcbs := (\<lambda>_. zero_pcb)
       (Addr Pcb_buffer 0 := demo_pcb 0 Running None n args,
        Addr Pcb_buffer 8 := demo_pcb 1 Waiting (Some (Addr Pcb_buffer 0)) DSOS_CALL_SLEEP (\<lambda>_. 0)),
     pcb_ptrs := (\<lambda>_. Addr Pcb_buffer 8),
     timer_items := (\<lambda>_. \<lparr>awakening_time = 5, timer_pcb = Addr Pcb_buffer 8\<rparr>),
     init_pcb := Some (Addr Pcb_buffer 0), running := Some (Addr Pcb_buffer 0), last_pid := 2, disastrOS_time := 4\<rparr>"

text \<open>The initial process waits for any child, its child runs and has a child of its own that is ready.\<close>

definition lineage :: "int \<Rightarrow> (nat \<Rightarrow> int) \<Rightarrow> kernel" where
  "lineage n args = zero_kernel\<lparr>
     lists := mem_of [(Waiting_list, Addr Pcb_buffer 0), (Ready_list, Addr Pcb_buffer 16),
       (Children (Addr Pcb_buffer 0), Addr Pcb_ptr_buffer 0), (Children (Addr Pcb_buffer 8), Addr Pcb_ptr_buffer 8)],
     pools := few_pools 3 2 0,
     pcbs := (\<lambda>_. zero_pcb)
       (Addr Pcb_buffer 0 := demo_pcb 0 Waiting None DSOS_CALL_WAIT (\<lambda>_. 0),
        Addr Pcb_buffer 8 := demo_pcb 1 Running (Some (Addr Pcb_buffer 0)) n args,
        Addr Pcb_buffer 16 := demo_pcb 2 Ready (Some (Addr Pcb_buffer 8)) 0 (\<lambda>_. 0)),
     pcb_ptrs := (\<lambda>_. Addr Pcb_buffer 8)(Addr Pcb_ptr_buffer 8 := Addr Pcb_buffer 16),
     init_pcb := Some (Addr Pcb_buffer 0), running := Some (Addr Pcb_buffer 8), last_pid := 3\<rparr>"

text \<open>Nothing runs and the initial process sleeps.\<close>

definition idle :: kernel where
  "idle = zero_kernel\<lparr>
     lists := mem_of [(Waiting_list, Addr Pcb_buffer 0), (Timer_list, Addr Timer_item_buffer 0)],
     pools := few_pools 1 0 1,
     pcbs := (\<lambda>_. zero_pcb)(Addr Pcb_buffer 0 := demo_pcb 0 Waiting None DSOS_CALL_SLEEP (\<lambda>_. 0)),
     timer_items := (\<lambda>_. \<lparr>awakening_time = 5, timer_pcb = Addr Pcb_buffer 0\<rparr>),
     init_pcb := Some (Addr Pcb_buffer 0), last_pid := 1, disastrOS_time := 4\<rparr>"

lemma small_lists [simp]:
  "lst (lone n args) h = on_list h [(Waiting_list, Addr Pcb_buffer 8), (Children (Addr Pcb_buffer 0), Addr Pcb_ptr_buffer 0),
       (Timer_list, Addr Timer_item_buffer 0)]"
  "lst (lineage n args) h = on_list h [(Waiting_list, Addr Pcb_buffer 0), (Ready_list, Addr Pcb_buffer 16),
       (Children (Addr Pcb_buffer 0), Addr Pcb_ptr_buffer 0), (Children (Addr Pcb_buffer 8), Addr Pcb_ptr_buffer 8)]"
  "lst idle h = on_list h [(Waiting_list, Addr Pcb_buffer 0), (Timer_list, Addr Timer_item_buffer 0)]"
  unfolding lone_def lineage_def idle_def by (simp_all add: mem_of_ok del: on_list_simps)

lemma small_pools:
  "pools (lone n args) = few_pools 2 1 1" "pools (lineage n args) = few_pools 3 2 0" "pools idle = few_pools 1 0 1"
  by (simp_all add: lone_def lineage_def idle_def)

lemma small_fields [simp]:
  "running (lone n args) = Some (Addr Pcb_buffer 0)" "running (lineage n args) = Some (Addr Pcb_buffer 8)" "running idle = None"
  "init_pcb (lone n args) = Some (Addr Pcb_buffer 0)" "init_pcb (lineage n args) = Some (Addr Pcb_buffer 0)"
  "init_pcb idle = Some (Addr Pcb_buffer 0)" "disastrOS_time idle = 4" "disastrOS_time (lone n args) = 4"
  "shutdown_now idle = 0" "last_pid idle = 1" "last_pid (lone n args) = 2" "last_pid (lineage n args) = 3"
  by (simp_all add: lone_def lineage_def idle_def zero_kernel_def)

lemma few_room [simp]:
  "room (lone n args) r = 4" "room (lineage n args) r = 4" "room idle r = 4"
  by (simp_all add: small_pools few_pools)

lemma few_live:
  "in_use (lone n args) r = (\<lambda>i. Addr r (8 * int i)) ` {..<if r = Pcb_buffer then 2 else if r = Pcb_ptr_buffer then 1
     else if r = Timer_item_buffer then 1 else 0}"
  "in_use (lineage n args) r = (\<lambda>i. Addr r (8 * int i)) ` {..<if r = Pcb_buffer then 3 else if r = Pcb_ptr_buffer then 2 else 0}"
  "in_use idle r = (\<lambda>i. Addr r (8 * int i)) ` {..<if r = Pcb_buffer then 1 else if r = Timer_item_buffer then 1 else 0}"
  by (simp_all add: small_pools few_pools(4))

lemmas few_sets = few_live lessThan_Suc lessThan_nat_numeral

lemma idle_ok: "kernel_ok idle"
proof (rule kernel_okI)
  show "struct_inv (lists idle) (pools idle)"
    by (rule family_struct [where procs = 1 and links = 0 and timers = 1])
      (auto simp: idle_def few_pools(4) blk_in)
  have B: "blocked c idle = (if c = DSOS_CALL_SLEEP then {Addr Pcb_buffer 0} else {})" for c
    by (auto simp: blocked_def) (simp_all add: idle_def demo_pcb_def)
  show "sched_ok idle" by (auto simp: sched_ok_def few_sets) (simp add: idle_def demo_pcb_def)
  show "family_ok idle" by (auto simp: family_ok_def few_sets) (simp_all add: idle_def demo_pcb_def)
  show "pids_ok idle" by (auto simp: pids_ok_def few_sets) (simp_all add: idle_def demo_pcb_def)
  show "timers_ok idle" by (auto simp: timers_ok_def few_sets B) (simp_all add: idle_def demo_pcb_def zero_pcb_def)
  show "waiters_ok Wait_getters DSOS_CALL_BQ_GET idle" "waiters_ok Wait_putters DSOS_CALL_BQ_PUT idle"
    by (auto simp: waiters_ok_def B DSOS_CALL_SLEEP_def DSOS_CALL_BQ_GET_def DSOS_CALL_BQ_PUT_def)
  show "calls_ok idle" by (auto simp: calls_ok_def) (simp add: idle_def demo_pcb_def)
  show "queues_ok idle" by (simp add: queues_ok_def)
  show "descriptors_ok idle" by (simp add: descriptors_ok_def)
  show "leak_free idle" by (simp add: leak_free_def few_sets)
qed

lemma lone_ok: "kernel_ok (lone n args)"
proof (rule kernel_okI)
  let ?k = "lone n args"
  show "struct_inv (lists ?k) (pools ?k)"
    by (rule family_struct [where procs = 2 and links = 1 and timers = 1])
      (auto simp: lone_def few_pools(4) blk_in)
  have B: "blocked c ?k = (if c = DSOS_CALL_SLEEP then {Addr Pcb_buffer 8} else {})" for c
    by (auto simp: blocked_def) (simp_all add: lone_def demo_pcb_def)
  have "loose (lists ?k) (Addr Pcb_buffer 0)" unfolding lone_def by (simp add: mem_of_ok(3))
  then show "sched_ok ?k" by (auto simp: sched_ok_def few_sets) (simp_all add: lone_def demo_pcb_def)
  show "family_ok ?k" by (auto simp: family_ok_def few_sets) (simp_all add: lone_def demo_pcb_def)
  show "pids_ok ?k" by (auto simp: pids_ok_def few_sets) (simp_all add: lone_def demo_pcb_def)
  show "timers_ok ?k" by (auto simp: timers_ok_def few_sets B) (simp_all add: lone_def demo_pcb_def zero_pcb_def)
  show "waiters_ok Wait_getters DSOS_CALL_BQ_GET ?k" "waiters_ok Wait_putters DSOS_CALL_BQ_PUT ?k"
    by (auto simp: waiters_ok_def B DSOS_CALL_SLEEP_def DSOS_CALL_BQ_GET_def DSOS_CALL_BQ_PUT_def)
  show "calls_ok ?k" by (auto simp: calls_ok_def) (simp add: lone_def demo_pcb_def)
  show "queues_ok ?k" by (simp add: queues_ok_def)
  show "descriptors_ok ?k" by (simp add: descriptors_ok_def)
  show "leak_free ?k" by (auto simp: leak_free_def few_sets)
qed

lemma lineage_ok: "kernel_ok (lineage n args)"
proof (rule kernel_okI)
  let ?k = "lineage n args"
  show "struct_inv (lists ?k) (pools ?k)"
    by (rule family_struct [where procs = 3 and links = 2 and timers = 0])
      (auto simp: lineage_def few_pools(4) blk_in)
  have B: "blocked c ?k = (if c = DSOS_CALL_WAIT then {Addr Pcb_buffer 0} else {})" for c
    by (auto simp: blocked_def) (simp_all add: lineage_def demo_pcb_def)
  have "loose (lists ?k) (Addr Pcb_buffer 8)" unfolding lineage_def by (simp add: mem_of_ok(3))
  then show "sched_ok ?k" by (auto simp: sched_ok_def few_sets) (simp_all add: lineage_def demo_pcb_def)
  show "family_ok ?k" by (auto simp: family_ok_def few_sets) (simp_all add: lineage_def demo_pcb_def)
  show "pids_ok ?k" by (auto simp: pids_ok_def few_sets) (simp_all add: lineage_def demo_pcb_def)
  show "timers_ok ?k" by (auto simp: timers_ok_def few_sets B DSOS_CALL_SLEEP_def DSOS_CALL_WAIT_def)
      (simp_all add: lineage_def demo_pcb_def zero_pcb_def)
  show "waiters_ok Wait_getters DSOS_CALL_BQ_GET ?k" "waiters_ok Wait_putters DSOS_CALL_BQ_PUT ?k"
    by (auto simp: waiters_ok_def B DSOS_CALL_WAIT_def DSOS_CALL_BQ_GET_def DSOS_CALL_BQ_PUT_def)
  show "calls_ok ?k" by (auto simp: calls_ok_def) (simp add: lineage_def demo_pcb_def)
  show "queues_ok ?k" by (simp add: queues_ok_def)
  show "descriptors_ok ?k" by (simp add: descriptors_ok_def)
  show "leak_free ?k" by (auto simp: leak_free_def few_sets)
qed

text \<open>What the processes of these states are and asked for.\<close>

lemma caller_fields [simp]:
  "pcbs (lone n args) (Addr Pcb_buffer 0) = demo_pcb 0 Running None n args"
  "pcbs (lineage n args) (Addr Pcb_buffer 8) = demo_pcb 1 Running (Some (Addr Pcb_buffer 0)) n args"
  "pcbs (lineage n args) (Addr Pcb_buffer 0) = demo_pcb 0 Waiting None DSOS_CALL_WAIT (\<lambda>_. 0)"
  "pcb_ptrs (lineage n args) (Addr Pcb_ptr_buffer 8) = Addr Pcb_buffer 16"
  by (simp_all add: lone_def lineage_def)

lemma demo_pcb_fields [simp]:
  "pid (demo_pcb p st par n args) = p" "status (demo_pcb p st par n args) = st" "parent (demo_pcb p st par n args) = par"
  "syscall_num (demo_pcb p st par n args) = n" "syscall_args (demo_pcb p st par n args) = args"
  "last_fd (demo_pcb p st par n args) = 0" "timer (demo_pcb p st par n args) = None"
  by (simp_all add: demo_pcb_def zero_pcb_def)

lemma busy_zombie [simp]:
  "pid (pcbs (busy free n args) (Addr Pcb_buffer 16)) = 2" "return_value (pcbs (busy free n args) (Addr Pcb_buffer 16)) = 42"
  "parent (pcbs (busy free n args) (Addr Pcb_buffer 16)) = Some (Addr Pcb_buffer 0)"
  by (simp_all add: busy_def demo_pcb_def)

text \<open>A child runs while its parent waits for it, with a place for its exit value.\<close>

definition awaiting :: "int \<Rightarrow> (nat \<Rightarrow> int) \<Rightarrow> kernel" where
  "awaiting n args = zero_kernel\<lparr>
     lists := mem_of [(Waiting_list, Addr Pcb_buffer 0), (Children (Addr Pcb_buffer 0), Addr Pcb_ptr_buffer 0)],
     pools := few_pools 2 1 0,
     pcbs := (\<lambda>_. zero_pcb)
       (Addr Pcb_buffer 0 := demo_pcb 0 Waiting None DSOS_CALL_WAIT ((\<lambda>_. 0)(1 := 100)),
        Addr Pcb_buffer 8 := demo_pcb 1 Running (Some (Addr Pcb_buffer 0)) n args),
     pcb_ptrs := (\<lambda>_. Addr Pcb_buffer 8),
     init_pcb := Some (Addr Pcb_buffer 0), running := Some (Addr Pcb_buffer 8), last_pid := 2\<rparr>"

lemma awaiting_fields [simp]:
  "lst (awaiting n args) h = on_list h [(Waiting_list, Addr Pcb_buffer 0), (Children (Addr Pcb_buffer 0), Addr Pcb_ptr_buffer 0)]"
  "pools (awaiting n args) = few_pools 2 1 0" "running (awaiting n args) = Some (Addr Pcb_buffer 8)"
  "init_pcb (awaiting n args) = Some (Addr Pcb_buffer 0)" "last_pid (awaiting n args) = 2"
  "pcbs (awaiting n args) (Addr Pcb_buffer 0) = demo_pcb 0 Waiting None DSOS_CALL_WAIT ((\<lambda>_. 0)(1 := 100))"
  "pcbs (awaiting n args) (Addr Pcb_buffer 8) = demo_pcb 1 Running (Some (Addr Pcb_buffer 0)) n args"
  "pcb_ptrs (awaiting n args) w = Addr Pcb_buffer 8"
  unfolding awaiting_def by (simp_all add: mem_of_ok del: on_list_simps)

lemma awaiting_ok: "kernel_ok (awaiting n args)"
proof (rule kernel_okI)
  let ?k = "awaiting n args"
  note sets = few_pools(4) lessThan_Suc lessThan_nat_numeral
  show "struct_inv (lists ?k) (pools ?k)"
    by (rule family_struct [where procs = 2 and links = 1 and timers = 0])
      (auto simp: awaiting_def few_pools(4) blk_in)
  have B: "blocked c ?k = (if c = DSOS_CALL_WAIT then {Addr Pcb_buffer 0} else {})" for c
    by (auto simp: blocked_def)
  have "loose (lists ?k) (Addr Pcb_buffer 8)" unfolding awaiting_def by (simp add: mem_of_ok(3))
  then show "sched_ok ?k" by (auto simp: sched_ok_def sets)
  show "family_ok ?k" by (auto simp: family_ok_def sets)
  show "pids_ok ?k" by (auto simp: pids_ok_def sets)
  show "timers_ok ?k" by (auto simp: timers_ok_def sets B DSOS_CALL_SLEEP_def DSOS_CALL_WAIT_def)
  show "waiters_ok Wait_getters DSOS_CALL_BQ_GET ?k" "waiters_ok Wait_putters DSOS_CALL_BQ_PUT ?k"
    by (auto simp: waiters_ok_def B DSOS_CALL_WAIT_def DSOS_CALL_BQ_GET_def DSOS_CALL_BQ_PUT_def)
  show "calls_ok ?k" by (auto simp: calls_ok_def)
  show "queues_ok ?k" by (simp add: queues_ok_def)
  show "descriptors_ok ?k" by (simp add: descriptors_ok_def few_pools)
  show "leak_free ?k" by (auto simp: leak_free_def sets)
qed

text \<open>The idle system, some time before its timer is due.\<close>

definition sleepy :: kernel where "sleepy = idle\<lparr>disastrOS_time := 0\<rparr>"

lemma sleepy_ok: "kernel_ok sleepy"
  by (simp add: sleepy_def idle_ok)

lemma sleepy_fields:
  "running sleepy = None" "lst sleepy Ready_list = []" "room sleepy r = 4" "last_pid sleepy = 1" "shutdown_now sleepy = 0"
  "init_pcb sleepy = Some (Addr Pcb_buffer 0)"
  by (simp_all add: sleepy_def)

end
