(* ===== verification/Storage_Properties.thy ===== *)
theory Storage_Properties
  imports Demo
begin

text \<open>
  The properties of the linked lists and of the pool allocator.  Each is a consequence of the component's
  lemmas or of the interface it interprets, and is followed by its application to a concrete memory.
\<close>

section \<open>Linked lists\<close>

text \<open>
  C21: a list is a first-in first-out queue: pushing any distinct spare items onto an empty list and popping
  as many returns them in their order, whatever the other lists hold, and leaves every list as it was.
\<close>

theorem list_first_in_first_out:
  assumes "lists_ok m" and "contents m h = []" and "distinct ps" and "\<forall>p \<in> set ps. spare m p"
  shows "\<exists>m1 m2. push_many (\<lambda>p. List_pushBack h (Some p)) ps m = Inr m1 \<and>
    get_many (List_popFront h) (length ps) m1 = Inr (map Some ps, m2) \<and> lists_ok m2 \<and> contents m2 = contents m"
  using queue.fifo [OF assms] by blast

theorem list_first_in_first_out_witness:
  "\<exists>m1 m2. push_many (\<lambda>p. List_pushBack Ready_list (Some p)) [blk Pcb_buffer 3, blk Pcb_buffer 1, blk Pcb_buffer 2]
      (mem_of [(Waiting_list, blk Pcb_buffer 0)]) = Inr m1 \<and>
    get_many (List_popFront Ready_list) 3 m1 = Inr ([Some (blk Pcb_buffer 3), Some (blk Pcb_buffer 1), Some (blk Pcb_buffer 2)], m2) \<and>
    contents m2 Waiting_list = [blk Pcb_buffer 0]"
  using list_first_in_first_out [of "mem_of [(Waiting_list, blk Pcb_buffer 0)]" Ready_list
      "[blk Pcb_buffer 3, blk Pcb_buffer 1, blk Pcb_buffer 2]"]
  by (force simp: mem_of_ok spare_def loose_def [symmetric] numeral_3_eq_3)

lemma remove1_insert_after: "i \<notin> set xs \<Longrightarrow> case q of None \<Rightarrow> True | Some p \<Rightarrow> p \<in> set xs \<Longrightarrow> remove1 i (insert_after q i xs) = xs"
  by (induction q i xs rule: insert_after.induct) auto

text \<open>
  C22: \<open>List_insert\<close> puts a clean item after any element of the list, or at its front, and \<open>List_detach\<close> takes it out
  again from wherever it is: all lists are as they were, and the item can be inserted again.  The insertion of an item
  whose links are set is refused without a change.
\<close>

theorem List_insert_detach:
  assumes "lists_ok m" and "unlisted m i" and "case prv of None \<Rightarrow> True | Some p \<Rightarrow> p \<in> set (contents m h)"
  shows "if clean m i
    then \<exists>m1 m2. List_insert h prv (Some i) m = Inr (Some i, m1) \<and> lists_ok m1 \<and>
      contents m1 = (contents m)(h := insert_after prv i (contents m h)) \<and>
      List_detach h (Some i) m1 = Inr (i, m2) \<and> lists_ok m2 \<and> contents m2 = contents m \<and> clean m2 i
    else List_insert h prv (Some i) m = Inr (None, m)"
proof (cases "clean m i")
  case True
  let ?m1 = "list_link h prv i m" and ?m2 = "list_unlink h i (list_link h prv i m)"
  note L = list_link_ok [OF assms(1,2) True assms(3)]
  have "i \<in> set (contents ?m1 h)" using L by simp
  note U = list_unlink_ok [OF conjunct1 [OF L] this]
  have "i \<notin> set (contents m h)" using assms(2) by (simp add: unlisted_def)
  then have "contents ?m2 = contents m" using U L remove1_insert_after [OF _ assms(3)] by simp
  then show ?thesis
    using True L U by (simp add: List_insert_clean List_detach_Some list_unlink_clean_self)
qed (simp add: List_insert_refused)

theorem List_insert_detach_witness:
  "\<exists>m1 m2. List_insert Ready_list (Some (blk Pcb_buffer 1)) (Some (blk Pcb_buffer 7))
      (mem_of [(Ready_list, blk Pcb_buffer 1), (Ready_list, blk Pcb_buffer 2)]) = Inr (Some (blk Pcb_buffer 7), m1) \<and>
    contents m1 Ready_list = [blk Pcb_buffer 1, blk Pcb_buffer 7, blk Pcb_buffer 2] \<and>
    List_detach Ready_list (Some (blk Pcb_buffer 7)) m1 = Inr (blk Pcb_buffer 7, m2) \<and>
    contents m2 Ready_list = [blk Pcb_buffer 1, blk Pcb_buffer 2]"
  using List_insert_detach [of "mem_of [(Ready_list, blk Pcb_buffer 1), (Ready_list, blk Pcb_buffer 2)]"
      "blk Pcb_buffer 7" Ready_list "Some (blk Pcb_buffer 1)"]
    mem_of_ok(3) [of "[(Ready_list, blk Pcb_buffer 1), (Ready_list, blk Pcb_buffer 2)]" "blk Pcb_buffer 7"]
  by (auto simp: mem_of_ok loose_def)

section \<open>The pool allocator\<close>

text \<open>
  C19: a pool initialised for \<open>n\<close> blocks hands out \<open>n\<close> different blocks of its buffer and then refuses, without
  an access outside its bookkeeping array; with too little memory the initialisation refuses.
\<close>

theorem pool_hands_out_all:
  fixes a :: "region PoolAllocator"
  assumes "0 < item" and "0 < n" and "n * (item + sizeof_int) < 2 ^ 31"
  shows "if n * (item + sizeof_int) \<le> memory
    then \<exists>a1 ps a2. PoolAllocator_init a item n block memory = Inr (Success, a1) \<and>
      get_many PoolAllocator_getBlock (nat n) a1 = Inr (map Some ps, a2) \<and> length ps = nat n \<and> distinct ps \<and>
      set ps \<subseteq> {addr_plus block (int i * item) |i. int i < n} \<and> PoolAllocator_getBlock a2 = Inr (None, a2)
    else PoolAllocator_init a item n block memory = Inr (NotEnoughMemory, a)"
proof (cases "n * (item + sizeof_int) \<le> memory")
  case True
  with assms have P: "pool_params item n memory" by (simp add: pool_params_def)
  from pool_init_rep [OF P, of a block] obtain a1 where
    a1: "PoolAllocator_init a item n block memory = Inr (Success, a1)" "pool_rep a1 [0..<nat n]"
      "pa_buffer a1 = block" "pa_item_size a1 = item" "pa_size_max a1 = n" by blast
  have ok: "pool_ok a1" "pa_size a1 = int (nat n)" using pool_rep_ok [OF a1(2)] a1(2) by (auto simp: pool_rep_def)
  from pool.get_many_ok [OF ok(1), of "nat n"] ok(2) obtain ps a2 where
    g: "get_many PoolAllocator_getBlock (nat n) a1 = Inr (map Some ps, a2)" "length ps = nat n" "distinct ps"
      "live a2 = live a1 \<union> set ps" "pool_ok a2" "pa_size a2 = 0" by auto
  have "set ps \<subseteq> live a2" using g(4) by simp
  also have "live a2 \<subseteq> block_addr a2 ` {i. i < nat (pa_size_max a2)}" by (auto simp: live_def pool_cap_def)
  finally have "set ps \<subseteq> block_addr a2 ` {i. i < nat (pa_size_max a2)}" .
  moreover have "pa_buffer a2 = block \<and> pa_item_size a2 = item \<and> pa_size_max a2 = n"
    using get_many_static [OF g(1)] a1 by simp
  ultimately have "set ps \<subseteq> {addr_plus block (int i * item) |i. int i < n}"
    by (auto simp: block_addr_def image_def dest!: subsetD)
  with True a1(1) g pool.get_empty [OF g(5)] show ?thesis by auto
next
  case False
  with assms requested_size_exact [of item n "n * (item + sizeof_int)"] show ?thesis
    by (simp add: PoolAllocator_init_def pool_params_def)
qed

theorem pool_hands_out_all_witness:
  "(\<exists>a1 p1 p2 a2. PoolAllocator_init (zero_pool Pcb_buffer) 8 2 (Addr Pcb_buffer 0) 24 = Inr (Success, a1) \<and>
      get_many PoolAllocator_getBlock 2 a1 = Inr ([Some p1, Some p2], a2) \<and> p1 \<noteq> p2 \<and>
      PoolAllocator_getBlock a2 = Inr (None, a2)) \<and>
    PoolAllocator_init (zero_pool Pcb_buffer) 8 2 (Addr Pcb_buffer 0) 23 = Inr (NotEnoughMemory, zero_pool Pcb_buffer)"
  using pool_hands_out_all [of 8 2 24 "zero_pool Pcb_buffer" "Addr Pcb_buffer 0"]
    pool_hands_out_all [of 8 2 23 "zero_pool Pcb_buffer" "Addr Pcb_buffer 0"]
  by (auto simp: sizeof_int_def numeral_2_eq_2 length_Suc_conv)

text \<open>
  C18: a block is taken and given back: a pool with a free block returns one that was not in use, giving it back
  succeeds and restores the blocks in use and the number of free ones, and giving it back a second time is
  refused as a double free without a change.
\<close>

theorem pool_block_round_trip:
  assumes "pool_ok a" and "0 < pa_size a"
  shows "\<exists>b a1 a2. PoolAllocator_getBlock a = Inr (Some b, a1) \<and> b \<notin> live a \<and> live a1 = insert b (live a) \<and>
    PoolAllocator_releaseBlock a1 b = Inr (Success, a2) \<and> live a2 = live a \<and> pa_size a2 = pa_size a \<and> pool_ok a2 \<and>
    PoolAllocator_releaseBlock a2 b = Inr (DoubleFree, a2)"
proof -
  from pool.get_ok [OF assms] obtain b a1 where g: "PoolAllocator_getBlock a = Inr (Some b, a1)" "pool_ok a1" "b \<notin> live a"
    "live a1 = insert b (live a)" "pa_size a1 = pa_size a - 1" by blast
  then have b: "b \<in> live a1" by simp
  from pool.release_twice [OF g(2) b] obtain a2 where
    r: "PoolAllocator_releaseBlock a1 b = Inr (Success, a2)" "pool_ok a2" "PoolAllocator_releaseBlock a2 b = Inr (DoubleFree, a2)"
    by blast
  from pool.release_ok [OF g(2) b] r(1) g have "live a2 = live a" "pa_size a2 = pa_size a" by auto
  with g r show ?thesis by auto
qed

theorem pool_block_round_trip_witness:
  "\<exists>b a1 a2. PoolAllocator_getBlock (used_pool 2 5 Bq_buffer) = Inr (Some b, a1) \<and> b \<notin> {blk Bq_buffer 0, blk Bq_buffer 1} \<and>
    PoolAllocator_releaseBlock a1 b = Inr (Success, a2) \<and> PoolAllocator_releaseBlock a2 b = Inr (DoubleFree, a2)"
  using pool_block_round_trip [of "used_pool 2 5 Bq_buffer"]
  by (fastforce simp: used_pool_ok lessThan_Suc numeral_2_eq_2)

text \<open>
  C20: \<open>PoolAllocator_releaseBlock\<close> classifies every address whose distance to the buffer fits an \<open>int\<close>: one that
  is not a multiple of the block size, one outside the buffer, a block in use, a free block; only the block in use
  changes the pool, and no address makes it read outside its bookkeeping array.
\<close>

theorem release_classifies:
  assumes "pool_ok a" and "region_of p = region_of (pa_buffer a)"
    and "- (2 ^ 31) \<le> offset_of p - offset_of (pa_buffer a)" and "offset_of p - offset_of (pa_buffer a) < 2 ^ 31"
  shows "\<exists>res a'. PoolAllocator_releaseBlock a p = Inr (res, a') \<and> pool_ok a' \<and>
    (res = Success \<longleftrightarrow> p \<in> live a) \<and> (res \<noteq> Success \<longrightarrow> a' = a) \<and>
    (res = DoubleFree \<longleftrightarrow> pool_block a p \<and> p \<notin> live a) \<and>
    (res = UnalignedFree \<longleftrightarrow> c_mod (offset_of p - offset_of (pa_buffer a)) (pa_item_size a) \<noteq> 0) \<and> res \<noteq> NotEnoughMemory"
proof -
  note R = releaseBlock_address [OF assms(1,2) refl assms(3,4)]
  show ?thesis
  proof (cases "pool_block a p")
    case True
    then obtain i where i: "i < pool_cap a" "p = block_addr a i" by (auto simp: pool_block_def)
    note B = block_offset [OF assms(1) i(1)]
    have "offset_of p - offset_of (pa_buffer a) = int i * pa_item_size a" by (simp add: i block_addr_def addr_plus_def)
    with B R i True pool_ok_give [OF assms(1)] assms(1) show ?thesis by (auto simp: pool_cap_def)
  next
    case False
    then have dead: "p \<notin> live a" using pool.live_block [OF assms(1)] by blast
    have "PoolAllocator_releaseBlock a p = Inr (UnalignedFree, a) \<or> PoolAllocator_releaseBlock a p = Inr (OutOfRange, a)"
      using R False dead aligned_block [OF assms(1,2)] by (auto simp: Let_def)
    with R False dead assms(1) show ?thesis by (auto split: if_splits)
  qed
qed

theorem release_classifies_witness:
  "\<exists>a'. PoolAllocator_releaseBlock (used_pool 2 5 Bq_buffer) (Addr Bq_buffer 8) = Inr (Success, a')"
  using release_classifies [of "used_pool 2 5 Bq_buffer" "Addr Bq_buffer 8"]
  by (fastforce simp: used_pool_ok lessThan_Suc numeral_2_eq_2)

end
