(* ===== verification/Calls.thy ===== *)
theory Calls
  imports Machine
begin

text \<open>
  The system calls as the processes make them: from the call through the argument registers, the trap
  and the handler to the transfer of control at the end of the trap.
\<close>

section \<open>From the call to the handler\<close>

definition numarg :: "syscall_fn \<Rightarrow> nat" where
  "numarg f = nat (syscall_numarg ! nat (code_of f))"

lemma numarg_values:
  "numarg Fn_preempt = 0" "numarg Fn_fork = 0" "numarg Fn_spawn = 2" "numarg Fn_wait = 2" "numarg Fn_exit = 1"
  "numarg Fn_sleep = 1" "numarg Fn_openResource = 3" "numarg Fn_closeResource = 1" "numarg Fn_destroyResource = 1"
  "numarg Fn_shutdown = 0" "numarg Fn_bq_create = 2" "numarg Fn_bq_delete = 1" "numarg Fn_bq_put = 2"
  "numarg Fn_bq_get = 2" "numarg Fn_bq_dump = 1"
  by code_simp+

lemma numarg_table:
  "list_all (\<lambda>n. 0 \<le> syscall_numarg ! n) [0..<32] \<and> length syscall_numarg = 32"
  by code_simp

lemma code_range: "0 \<le> code_of f \<and> code_of f < 32"
  by (cases f) (simp_all add: dsos_consts)

lemma numarg_read: "arr_read syscall_numarg (code_of f) = Inr (int (numarg f))"
proof -
  have "nat (code_of f) < 32" using code_range [of f] by (simp add: nat_less_iff)
  then have "0 \<le> syscall_numarg ! nat (code_of f)" using numarg_table by (simp add: list_all_iff)
  then show ?thesis using code_range [of f] numarg_table by (simp add: arr_read_def numarg_def)
qed

text \<open>The state in which the handler starts: the arguments stored and the entry logged.\<close>

definition trapped :: "ptr \<Rightarrow> int \<Rightarrow> (nat \<Rightarrow> int) \<Rightarrow> kernel \<Rightarrow> kernel" where
  "trapped r n regs k =
     log_out (log_line (disastrOS_time k) (pid (pcbs k r)) (''SYSCALL_IN '' @ show_int n))
       (upd_pcb r (\<lambda>b. b\<lparr>syscall_args := regs, syscall_num := n, cpu_state := Ctx_saved\<rparr>) k)"

lemma trapped_simps [simp]:
  "running (trapped r n regs k) = running k" "lists (trapped r n regs k) = lists k" "pools (trapped r n regs k) = pools k"
  "bqueues (trapped r n regs k) = bqueues k" "bq_items (trapped r n regs k) = bq_items k"
  "pcb_ptrs (trapped r n regs k) = pcb_ptrs k" "user_mem (trapped r n regs k) = user_mem k"
  "resources (trapped r n regs k) = resources k" "disastrOS_time (trapped r n regs k) = disastrOS_time k"
  "syscall_args (pcbs (trapped r n regs k) r) = regs" "cpu_state (pcbs (trapped r n regs k) r) = Ctx_saved" "syscall_num (pcbs (trapped r n regs k) r) = n"
  "x \<noteq> r \<Longrightarrow> pcbs (trapped r n regs k) x = pcbs k x"
  "parent (pcbs (trapped r n regs k) x) = parent (pcbs k x)" "pid (pcbs (trapped r n regs k) x) = pid (pcbs k x)"
  "log_file k = None \<Longrightarrow> log_file (trapped r n regs k) = None"
  by (simp_all add: trapped_def upd_pcb_at) (simp_all add: log_out_def)

lemma trapped_ok: "kernel_ok k \<Longrightarrow> running k = Some r \<Longrightarrow> kernel_ok (trapped r n regs k)"
  using running_notin [of k r] by (auto simp: trapped_def intro!: upd_ok)

lemma syscall_eq:
  assumes run: "running k = Some r" and f: "f \<noteq> Fn_shutdown"
    and args: "copy_args (numarg f) 0 va (syscall_args (pcbs k r)) = Inr regs"
  shows "disastrOS_syscall (code_of f) va k =
    and_then (run_handler f (trapped r (code_of f) regs k)) (\<lambda>(_, k2).
      and_then (return_to_process (code_of f) k2) (\<lambda>ck. Inr (Inr ck)))"
proof -
  have n: "\<not> (code_of f < 0 \<or> DSOS_MAX_SYSCALLS < code_of f)" using code_range [of f] by (simp add: DSOS_MAX_SYSCALLS_def)
  have none: "and_then (run_handler f k') (\<lambda>(jump, k2). case jump of Some c \<Rightarrow> Inr (c, k2) | None \<Rightarrow> g k2) =
    and_then (run_handler f k') (\<lambda>(_, k2). g k2)" for k' and g :: "kernel \<Rightarrow> fault + control \<times> kernel"
    using f by (cases f) (simp_all add: returning_def and_then_assoc)
  have "disastrOS_trap (upd_pcb r (\<lambda>b. b\<lparr>syscall_args := regs, syscall_num := code_of f, cpu_state := Ctx_saved\<rparr>) k) =
    and_then (run_handler f (trapped r (code_of f) regs k)) (\<lambda>(_, k2). return_to_process (code_of f) k2)"
    using n by (simp add: disastrOS_trap_def run Let_def vector_complete none trapped_def del: run_handler.simps)
  then show ?thesis
    using n args
    by (simp add: disastrOS_syscall_def run numarg_read Let_def and_then_assoc case_prod_unfold del: run_handler.simps)
qed

text \<open>Without a log file the end of the trap only decides who runs.\<close>

definition next_control :: "kernel \<Rightarrow> control" where
  "next_control k = (case running k of Some r \<Rightarrow> To_process r | None \<Rightarrow> To_interrupt)"

lemma return_quiet: "log_file k = None \<Longrightarrow> return_to_process n k = Inr (next_control k, k)"
  by (simp add: return_to_process_def next_control_def split: option.split)


section \<open>Put and get\<close>

lemma trapped_view:
  assumes ok: "kernel_ok k" and run: "running k = Some r"
  shows "queue_view (trapped r n regs k) q = queue_view k q"
proof -
  note S = kernel_okD [OF ok]
  have "pcb_ptrs k w \<noteq> r" if "w \<in> set (lst k (Wait_getters q)) \<or> w \<in> set (lst k (Wait_putters q))" for w
    using that waiters_blocked [OF S(6), of w q] waiters_blocked [OF S(7), of w q] running_notin [OF ok run]
    by (auto simp: blocked_def)
  then show ?thesis by (simp add: queue_view_def)
qed

lemma bqueue_named_trapped [simp]: "bqueue_named qid (trapped r n regs k) = bqueue_named qid k"
  by (simp add: bqueue_named_def)

lemma refines_trapped:
  assumes ok: "kernel_ok k" and run: "running k = Some r" and quiet: "log_file k = None"
    and s: "bq_refines q r step (trapped r n regs k) k'"
  shows "bq_refines q r step k k'"
proof -
  have "cpu_state (pcbs k' x) = cpu_state (pcbs k x) \<or> x = r \<and> cpu_state (pcbs k' x) = Ctx_saved" for x
    using s trapped_simps(11) [of r n regs k] trapped_simps(13) [of _ r n regs k] unfolding bq_refines_def by metis
  then show ?thesis
    using s by (cases "snd step") (simp_all add: bq_refines_def bq_effect_def trapped_view [OF ok run] quiet)
qed

text \<open>The last part of such a call: the handler has done its step and control goes to whoever runs.\<close>

lemma refined_returns:
  assumes "log_file k = None"
    and "ok_with h (\<lambda>k'. kernel_ok k' \<and> bq_refines q r step k k')"
  shows "ok_with (and_then h (\<lambda>k2. and_then (return_to_process n k2) (\<lambda>ck. Inr (Inr ck))))
    (\<lambda>res. \<exists>k'. res = Inr (next_control k', k') \<and> kernel_ok k' \<and> bq_refines q r step k k')"
proof -
  from assms(2) obtain k' where h: "h = Inr k'" and k': "kernel_ok k'" "bq_refines q r step k k'"
    by (auto simp: ok_with_iff)
  from k'(2) assms(1) have "log_file k' = None" by (simp add: bq_refines_def)
  with h k' show ?thesis by (simp add: return_quiet)
qed

lemma bqPut_refines:
  assumes ok: "kernel_ok k" and run: "running k = Some r" and quiet: "log_file k = None"
    and qid: "- (2 ^ 31) \<le> qid" "qid < 2 ^ 31" and q: "bqueue_named qid k = Some q"
    and room: "0 < room k Bqitem_buffer" "0 < room k Pcb_ptr_buffer"
  shows "ok_with (disastrOS_bqPut qid v k) (\<lambda>res. \<exists>k'. res = Inr (next_control k', k') \<and> kernel_ok k' \<and>
    bq_refines q r (bq_put r v (queue_view k q)) k k')"
proof -
  let ?regs = "(syscall_args (pcbs k r))(0 := qid, 1 := v)" and ?n = "code_of Fn_bq_put"
  let ?k = "trapped r ?n ?regs k"
  have "copy_args (numarg Fn_bq_put) 0 [qid, v] (syscall_args (pcbs k r)) = Inr ?regs"
    by (simp add: numarg_values numeral_2_eq_2)
  from syscall_eq [OF run _ this]
  have eq: "disastrOS_bqPut qid v k = and_then (internal_bq_put ?k) (\<lambda>k2. and_then (return_to_process ?n k2) (\<lambda>ck. Inr (Inr ck)))"
    by (simp add: disastrOS_bqPut_def returning_def and_then_assoc)
  have "ok_with (internal_bq_put ?k) (\<lambda>k'. kernel_ok k' \<and> bq_refines q r (bq_put r v (queue_view ?k q)) ?k k')"
    using put_refines [OF trapped_ok [OF ok run, of ?n ?regs], of r q] run q room qid by (simp add: to_int_id)
  then show ?thesis
    unfolding eq trapped_view [OF ok run]
    by (intro refined_returns [OF quiet]) (erule ok_with_mono, blast intro: refines_trapped [OF ok run quiet])
qed

lemma bqGet_refines:
  assumes ok: "kernel_ok k" and run: "running k = Some r" and quiet: "log_file k = None"
    and qid: "- (2 ^ 31) \<le> qid" "qid < 2 ^ 31" and q: "bqueue_named qid k = Some q"
    and room: "0 < room k Pcb_ptr_buffer"
  shows "ok_with (disastrOS_bqGet qid out k) (\<lambda>res. \<exists>k'. res = Inr (next_control k', k') \<and> kernel_ok k' \<and>
    bq_refines q r (bq_get r out (queue_view k q)) k k')"
proof -
  let ?regs = "(syscall_args (pcbs k r))(0 := qid, 1 := out)" and ?n = "code_of Fn_bq_get"
  let ?k = "trapped r ?n ?regs k"
  have "copy_args (numarg Fn_bq_get) 0 [qid, out] (syscall_args (pcbs k r)) = Inr ?regs"
    by (simp add: numarg_values numeral_2_eq_2)
  from syscall_eq [OF run _ this]
  have eq: "disastrOS_bqGet qid out k = and_then (internal_bq_get ?k) (\<lambda>k2. and_then (return_to_process ?n k2) (\<lambda>ck. Inr (Inr ck)))"
    by (simp add: disastrOS_bqGet_def returning_def and_then_assoc)
  have "ok_with (internal_bq_get ?k) (\<lambda>k'. kernel_ok k' \<and> bq_refines q r (bq_get r out (queue_view ?k q)) ?k k')"
    using get_refines [OF trapped_ok [OF ok run, of ?n ?regs], of r q] run q room qid by (simp add: to_int_id)
  then show ?thesis
    unfolding eq trapped_view [OF ok run]
    by (intro refined_returns [OF quiet]) (erule ok_with_mono, blast intro: refines_trapped [OF ok run quiet])
qed

section \<open>Calls that return to the caller\<close>

text \<open>The handler leaves the caller running: so does the call.\<close>

lemma syscall_returns:
  assumes run: "running k = Some r" and quiet: "log_file k = None" and f: "f \<noteq> Fn_shutdown"
    and args: "copy_args (numarg f) 0 va (syscall_args (pcbs k r)) = Inr regs"
    and h: "ok_with (run_handler f (trapped r (code_of f) regs k)) (\<lambda>(_, k'). log_file k' = None \<and> running k' = Some r \<and> Q k')"
  shows "ok_with (disastrOS_syscall (code_of f) va k) (\<lambda>res. \<exists>k'. res = Inr (To_process r, k') \<and> Q k')"
  using h unfolding syscall_eq [OF run f args] by (auto simp: ok_with_iff return_quiet next_control_def)

lemma created_queue:
  assumes ok: "kernel_ok k" and new: "bqueue_named qid k = None" and c: "created r qid cap k k'"
  shows "\<exists>q. q \<notin> set (lst k Bq_registry) \<and> lst k' Bq_registry = lst k Bq_registry @ [q] \<and> bqueue_named qid k' = Some q \<and> queue_view k' q = bq_new cap"
proof -
  from c obtain q m P where q: "q \<notin> set (lst k Bq_registry)"
    and m: "contents m = (lst k)(Bq_registry := lst k Bq_registry @ [q])"
    and k': "k' = set_retvalue r 0 ((print_out (bq_create_msg r k) k)\<lparr>pools := P,
       bqueues := (bqueues k)(q := \<lparr>bq_id = qid, bq_capacity = cap, bq_size = 0\<rparr>), lists := m\<rparr>)"
    unfolding created_def by blast
  have "bqueue_named qid k' = Some q"
    unfolding bqueue_named_def
    by (simp add: k' m, rule find_append_new) (use q new in \<open>auto simp: bqueue_named_def find_None_all\<close>)
  moreover have "queue_view k' q = bq_new cap"
    using q kernel_okD(9) [OF ok] by (simp add: k' m queue_view_def bq_new_def queues_ok_def)
  moreover have "lst k' Bq_registry = lst k Bq_registry @ [q]" by (simp add: k' m)
  ultimately show ?thesis using q by blast
qed

lemma bqCreate_ok:
  assumes ok: "kernel_ok k" and run: "running k = Some r" and quiet: "log_file k = None"
    and qid: "- (2 ^ 31) \<le> qid" "qid < 2 ^ 31" and cap: "0 < cap" "cap < 2 ^ 31"
    and new: "bqueue_named qid k = None" and room: "0 < room k Bq_buffer"
  shows "ok_with (disastrOS_bqCreate qid cap k) (\<lambda>res. \<exists>k'. res = Inr (To_process r, k') \<and> kernel_ok k' \<and>
    (\<exists>q. q \<notin> set (lst k Bq_registry) \<and> lst k' Bq_registry = lst k Bq_registry @ [q] \<and> bqueue_named qid k' = Some q \<and> queue_view k' q = bq_new cap) \<and>
    syscall_retvalue (pcbs k' r) = 0 \<and> cpu_state (pcbs k' r) = Ctx_saved \<and> running k' = Some r \<and> log_file k' = None \<and>
    (\<forall>h. h \<noteq> Bq_registry \<longrightarrow> lst k' h = lst k h) \<and> (\<forall>r'. r' \<noteq> Bq_buffer \<longrightarrow> room k' r' = room k r'))"
proof -
  let ?regs = "(syscall_args (pcbs k r))(0 := qid, 1 := cap)" and ?n = "code_of Fn_bq_create"
  let ?k = "trapped r ?n ?regs k"
  have args: "copy_args (numarg Fn_bq_create) 0 [qid, cap] (syscall_args (pcbs k r)) = Inr ?regs"
    by (simp add: numarg_values numeral_2_eq_2)
  have "ok_with (internal_bq_create ?k) (\<lambda>k'. kernel_ok k' \<and> created r qid cap ?k k')"
    using bq_create_ok [OF trapped_ok [OF ok run, of ?n ?regs], of r] run qid cap new room by (simp add: to_int_id)
  moreover have "created r qid cap ?k k' \<Longrightarrow> log_file k' = None \<and> running k' = Some r \<and> syscall_retvalue (pcbs k' r) = 0 \<and>
    cpu_state (pcbs k' r) = Ctx_saved \<and>
    (\<forall>h. h \<noteq> Bq_registry \<longrightarrow> lst k' h = lst k h) \<and> (\<forall>r'. r' \<noteq> Bq_buffer \<longrightarrow> room k' r' = room k r') \<and> (\<exists>q. q \<notin> set (lst k Bq_registry) \<and> lst k' Bq_registry = lst k Bq_registry @ [q] \<and> bqueue_named qid k' = Some q \<and> queue_view k' q = bq_new cap)" for k'
    using run quiet created_queue [OF trapped_ok [OF ok run, of ?n ?regs], of qid r cap k'] new
    by (auto simp: created_def)
  ultimately have "ok_with (run_handler Fn_bq_create ?k) (\<lambda>(_, k'). log_file k' = None \<and> running k' = Some r \<and>
    (kernel_ok k' \<and> (\<exists>q. q \<notin> set (lst k Bq_registry) \<and> lst k' Bq_registry = lst k Bq_registry @ [q] \<and> bqueue_named qid k' = Some q \<and>
      queue_view k' q = bq_new cap) \<and> syscall_retvalue (pcbs k' r) = 0 \<and> cpu_state (pcbs k' r) = Ctx_saved \<and> running k' = Some r \<and> log_file k' = None \<and>
      (\<forall>h. h \<noteq> Bq_registry \<longrightarrow> lst k' h = lst k h) \<and> (\<forall>r'. r' \<noteq> Bq_buffer \<longrightarrow> room k' r' = room k r')))"
    by (simp add: returning_def ok_with_and_then) (erule ok_with_mono, simp)
  from syscall_returns [OF run quiet _ args this] show ?thesis by (simp add: disastrOS_bqCreate_def)
qed

end
