(* ===== verification/Hazards.thy ===== *)
theory Hazards
  imports Calls
begin

text \<open>
  What the kernel does at its edges: system call numbers without a handler, a log file with nothing to
  log for, an idle machine, a process that returns, a forked child.  These lemmas state what the code
  does there, faults included.
\<close>

section \<open>The machine keeps its invariant\<close>

interpretation machine: invariant_machine "\<lambda>s. sizes_ok sizeof \<and> booted sizeof s" "sys_step f f_args logging" machine_ok
  for sizeof f f_args logging
  by unfold_locales (auto intro: booted_ok step_ok)

lemma machine_reachable: "sizes_ok sizeof \<Longrightarrow> reachable sizeof f f_args logging s \<Longrightarrow> machine_ok s"
  unfolding reachable_def by (blast intro: machine.inv_reach)

text \<open>The machine gets going: the first process of a system that has just been started.\<close>

lemma first_process:
  assumes "sizes_ok sizeof"
  obtains k p where "reachable sizeof f f_args False (In_process, k)" "kernel_ok k" "running k = Some p" "log_file k = None"
    "room k Bq_buffer = MAX_NUM_BQUEUES" "lst k Bq_registry = []" "pid (pcbs k p) = 0" "init_pcb k = Some p"
    "room k Bqitem_buffer = MAX_NUM_BQITEMS" "room k Pcb_ptr_buffer = MAX_NUM_PROCESSES"
    "disastrOS_start sizeof f f_args False zero_kernel = Inr (Some (To_process p, k))"
proof -
  obtain k0 p k where b: "start_init sizeof (zero_kernel\<lparr>stdout := []\<rparr>) = Inr k0"
    "start_resume f f_args False k0 = Inr (Some (To_process p, k))" and k: "kernel_ok k" "running k = Some p" "log_file k = None"
    "\<forall>h. lst k h = []" "room k Bq_buffer = MAX_NUM_BQUEUES" "room k Bqitem_buffer = MAX_NUM_BQITEMS"
    "room k Pcb_ptr_buffer = MAX_NUM_PROCESSES" "pid (pcbs k p) = 0" "init_pcb k = Some p" "cpu_state (pcbs k p) = Ctx_entry f f_args"
    by (rule boots_first [OF assms, of "[]" f f_args]) blast
  have "sys_step f f_args False (In_main, k0) (outcome k0 (Inr (To_process p, k)))" by (rule Resume [OF b(2)])
  then have "sys_step f f_args False (In_main, k0) (In_process, k)" by (simp add: outcome_def k)
  moreover have "booted sizeof (In_main, k0)" using b(1) unfolding booted_def by (metis fst_conv snd_conv)
  ultimately have "reachable sizeof f f_args False (In_process, k)" unfolding reachable_def by blast
  moreover have "zero_kernel\<lparr>stdout := []\<rparr> = zero_kernel" by (simp add: zero_kernel_def)
  then have "disastrOS_start sizeof f f_args False zero_kernel = Inr (Some (To_process p, k))"
    using b by (simp add: disastrOS_start_def)
  ultimately show thesis using k that by auto
qed

section \<open>Start and shutdown\<close>

lemma start_ok:
  assumes "sizes_ok sizeof"
  shows "ok_with (disastrOS_start sizeof f f_args logging zero_kernel) (\<lambda>res. \<exists>p k. res = Some (To_process p, k) \<and>
    kernel_ok k \<and> running k = Some p \<and> init_pcb k = Some p \<and> in_use k Pcb_buffer = {p} \<and> pid (pcbs k p) = 0 \<and>
    status (pcbs k p) = Running \<and> parent (pcbs k p) = None \<and> cpu_state (pcbs k p) = Ctx_entry f f_args)"
  unfolding disastrOS_start_def ok_with_and_then
proof (rule ok_with_mono [OF start_init_ok [OF assms]])
  fix k0
  assume k0: "fresh_kernel k0 \<and> shutdown_now k0 = shutdown_now zero_kernel \<and> disastrOS_time k0 = disastrOS_time zero_kernel \<and>
    log_file k0 = log_file zero_kernel \<and> room k0 Pcb_buffer = MAX_NUM_PROCESSES \<and> room k0 Bq_buffer = MAX_NUM_BQUEUES \<and>
    room k0 Bqitem_buffer = MAX_NUM_BQITEMS \<and> room k0 Resources_buffer = MAX_NUM_RESOURCES \<and>
    room k0 Pcb_ptr_buffer = MAX_NUM_PROCESSES \<and> pcbs k0 = pcbs zero_kernel \<and> user_mem k0 = user_mem zero_kernel"
  have live: "in_use k0 Pcb_buffer = {}" using k0 by (auto simp: fresh_kernel_def dest!: spec [of _ Pcb_buffer] dest: pool_fresh_live)
  show "ok_with (start_resume f f_args logging k0) (\<lambda>res. \<exists>p k. res = Some (To_process p, k) \<and>
    kernel_ok k \<and> running k = Some p \<and> init_pcb k = Some p \<and> in_use k Pcb_buffer = {p} \<and> pid (pcbs k p) = 0 \<and>
    status (pcbs k p) = Running \<and> parent (pcbs k p) = None \<and> cpu_state (pcbs k p) = Ctx_entry f f_args)"
    by (rule ok_with_mono [OF start_resume_ok [OF fresh_kernel_ok]])
      (use k0 live in \<open>auto simp: fresh_kernel_def zero_kernel_def MAX_NUM_PROCESSES_def\<close>)
qed (simp_all add: zero_kernel_def)

lemma shutdown_call_exits:
  assumes "running k = Some r"
  shows "\<exists>k'. disastrOS_syscall DSOS_CALL_SHUTDOWN va k = Inr (Inr (To_main, k')) \<and> shutdown_now k' = 1 \<and>
    start_resume f f_args logging k' = Inr None"
proof -
  have n: "arr_read syscall_numarg DSOS_CALL_SHUTDOWN = Inr 0"
    using numarg_read [of Fn_shutdown] by (simp add: numarg_values)
  have v: "arr_read syscall_vector DSOS_CALL_SHUTDOWN = Inr (Some Fn_shutdown)"
    using vector_complete [of Fn_shutdown] by simp
  have "DSOS_CALL_SHUTDOWN = 10" "DSOS_MAX_SYSCALLS = 32" by (simp_all add: dsos_consts)
  then show ?thesis
    using assms
    by (simp add: disastrOS_syscall_def disastrOS_trap_def n v Let_def internal_shutdown_def start_resume_def)
qed

lemma shutdown_exits:
  assumes "running k = Some r"
  shows "\<exists>k'. disastrOS_shutdown k = Inr (Inr (To_main, k')) \<and> shutdown_now k' = 1 \<and>
    start_resume f f_args logging k' = Inr None"
  unfolding disastrOS_shutdown_def by (rule shutdown_call_exits [OF assms])

section \<open>System call numbers\<close>

lemma syscall_refused:
  assumes "running k = Some r" and "n < 0 \<or> 32 < n"
  shows "disastrOS_syscall n va k = Inr (Inl DSOS_ESYSCALL_OUT_OF_RANGE)"
  using assms by (auto simp: disastrOS_syscall_def DSOS_MAX_SYSCALLS_def)

text \<open>The guards admit the number 32, one past the end of both tables.\<close>

lemma syscall_32:
  assumes "running k = Some r"
  shows "disastrOS_syscall 32 va k = Inl Out_of_bounds"
  using assms numarg_table by (simp add: disastrOS_syscall_def DSOS_MAX_SYSCALLS_def arr_read_def)

lemma vector_holes:
  "list_all (\<lambda>n. syscall_vector ! n = None \<and> syscall_numarg ! n = 0) (0 # [16..<32])"
  by code_simp

lemma syscall_hole:
  assumes run: "running k = Some r" and quiet: "log_file k = None" and n: "n = 0 \<or> 16 \<le> n \<and> n < 32"
  shows "disastrOS_syscall n va k = Inr (Inr (To_process r,
    set_retvalue r DSOS_ESYSCALL_NOT_IMPLEMENTED (trapped r n (syscall_args (pcbs k r)) k)))"
proof -
  let ?n = "nat n"
  have "?n \<in> set (0 # [16..<32])" using n by (simp only: set_simps set_upt) auto
  then have hole: "syscall_vector ! ?n = None" "syscall_numarg ! ?n = 0" using vector_holes by (auto simp: list_all_iff)
  then have t: "arr_read syscall_numarg n = Inr 0" "arr_read syscall_vector n = Inr None"
    using n numarg_table length_vector by (auto simp: arr_read_def)
  have "disastrOS_trap (upd_pcb r (\<lambda>b. b\<lparr>syscall_args := syscall_args (pcbs k r), syscall_num := n, cpu_state := Ctx_saved\<rparr>) k) =
    return_to_process n (set_retvalue r DSOS_ESYSCALL_NOT_IMPLEMENTED (trapped r n (syscall_args (pcbs k r)) k))"
    using n by (auto simp: disastrOS_trap_def run Let_def t trapped_def DSOS_MAX_SYSCALLS_def)
  then show ?thesis
    using n quiet by (auto simp: disastrOS_syscall_def run t Let_def DSOS_MAX_SYSCALLS_def return_quiet next_control_def
        set_retvalue_def)
qed

section \<open>The log file\<close>

text \<open>
  With a log file the end of the trap reads the running process although the handler may have left
  none, so the last process that is not blocked crashes the system when it blocks.
\<close>

lemma syscall_log_fault:
  assumes run: "running k = Some r" and f: "f \<noteq> Fn_shutdown"
    and args: "copy_args (numarg f) 0 va (syscall_args (pcbs k r)) = Inr regs"
    and h: "ok_with (run_handler f (trapped r (code_of f) regs k)) (\<lambda>(_, k2). running k2 = None \<and> log_file k2 \<noteq> None)"
  shows "disastrOS_syscall (code_of f) va k = Inl Null_deref"
  using h unfolding syscall_eq [OF run f args] by (auto simp: ok_with_iff return_to_process_def)

lemma trapped_log: "log_file (trapped r n regs k) = None \<longleftrightarrow> log_file k = None"
  by (simp add: trapped_def log_out_def)

text \<open>The getter that finds an empty queue when nothing else is ready.\<close>

lemma bqGet_log_fault:
  assumes ok: "kernel_ok k" and run: "running k = Some r" and log: "log_file k \<noteq> None"
    and qid: "- (2 ^ 31) \<le> qid" "qid < 2 ^ 31" and q: "bqueue_named qid k = Some q"
    and room: "0 < room k Pcb_ptr_buffer" and empty: "lst k (Items q) = []" "lst k Ready_list = []"
  shows "disastrOS_bqGet qid out k = Inl Null_deref"
proof -
  let ?regs = "(syscall_args (pcbs k r))(0 := qid, 1 := out)" and ?n = "code_of Fn_bq_get"
  let ?k = "trapped r ?n ?regs k"
  have args: "copy_args (numarg Fn_bq_get) 0 [qid, out] (syscall_args (pcbs k r)) = Inr ?regs"
    by (simp add: numarg_values numeral_2_eq_2)
  have "ok_with (internal_bq_get ?k) (\<lambda>k'. kernel_ok k' \<and> bq_refines q r (bq_get r out (queue_view ?k q)) ?k k')"
    using get_refines [OF trapped_ok [OF ok run, of ?n ?regs], of r q] run q room qid by (simp add: to_int_id)
  moreover have "snd (bq_get r out (queue_view ?k q)) = Blocks" using empty by (simp add: bq_get_def)
  ultimately have "ok_with (internal_bq_get ?k) (\<lambda>k'. running k' = None \<and> log_file k' \<noteq> None)"
    by (rule_tac ok_with_mono) (auto simp: bq_refines_def bq_effect_def empty trapped_log log simp del: not_None_eq)
  then show ?thesis
    using syscall_log_fault [OF run _ args] by (simp add: disastrOS_bqGet_def returning_def ok_with_and_then)
qed

section \<open>The idle machine\<close>

text \<open>
  A tick that finds nothing to run ends in \<open>main_context\<close>, where the code creates another first
  process.
\<close>

definition ticked :: "kernel \<Rightarrow> kernel" where
  "ticked k =
     (let k1 = (log_out (log_line (disastrOS_time k) (-1) ''TIMER_OUT'') k)\<lparr>disastrOS_time := disastrOS_time k + 1\<rparr>
      in log_out (log_line (disastrOS_time k1) (-1) ''TIMER_IN'') k1)"

lemma idle_tick:
  assumes ok: "kernel_ok k" and idle: "running k = None" "lst k Ready_list = []"
    and none: "expired (k\<lparr>disastrOS_time := disastrOS_time k + 1\<rparr>) = []"
    and time: "- (2 ^ 31) \<le> disastrOS_time k + 1" "disastrOS_time k + 1 < 2 ^ 31"
  shows "timerInterrupt k = Inr (To_main, ticked k)"
proof -
  note inv = kernel_okD(1) [OF ok]
  let ?k1 = "log_out (log_line (disastrOS_time k) (-1) ''TIMER_OUT'') k"
  let ?k = "?k1\<lparr>disastrOS_time := disastrOS_time k + 1\<rparr>"
  have inv': "struct_inv (lists ?k) (pools ?k)" using inv by simp
  have "TimerList_current Timer_list (disastrOS_time ?k) ?k = None"
    using none by (cases "lst k Timer_list")
      (auto simp: TimerList_current_def list_first_lst [OF inv'] expired_def split: if_splits)
  then have "wake_all_expired ?k = Inr ?k" unfolding wake_all_expired_def by (simp add: c_while_stop)
  moreover have "timer_dispatch ?k = Inr ?k" using idle by (simp add: timer_dispatch_def list_first_lst [OF inv'])
  ultimately show ?thesis
    using idle time by (simp add: timerInterrupt_def ticked_def running_pid_def add_int_def Let_def)
qed

lemma ticked_simps [simp]:
  "lists (ticked k) = lists k" "pools (ticked k) = pools k" "running (ticked k) = running k" "init_pcb (ticked k) = init_pcb k"
  "last_pid (ticked k) = last_pid k" "shutdown_now (ticked k) = shutdown_now k" "disastrOS_time (ticked k) = disastrOS_time k + 1"
  by (simp_all add: ticked_def Let_def)

lemma ticked_ok: "kernel_ok k \<Longrightarrow> kernel_ok (ticked k)"
  by (simp add: ticked_def Let_def)

lemma idle_second_init:
  assumes ok: "kernel_ok k" and idle: "running k = None" "lst k Ready_list = []"
    and none: "expired (k\<lparr>disastrOS_time := disastrOS_time k + 1\<rparr>) = []"
    and time: "- (2 ^ 31) \<le> disastrOS_time k + 1" "disastrOS_time k + 1 < 2 ^ 31"
    and room: "0 < room k Pcb_buffer" and lp: "last_pid k < 2 ^ 31 - 1" and go: "shutdown_now k = 0"
    and i: "init_pcb k = Some i"
  shows "ok_with (and_then (timerInterrupt k) (\<lambda>(c, k1). start_resume f f_args logging k1)) (\<lambda>res. \<exists>p k'.
    res = Some (To_process p, k') \<and> kernel_ok k' \<and> running k' = Some p \<and> init_pcb k' = Some p \<and> p \<noteq> i \<and>
    i \<in> in_use k' Pcb_buffer \<and> pid (pcbs k' p) = last_pid k)"
proof -
  have i': "i \<in> in_use k Pcb_buffer" using kernel_okD(3) [OF ok] i by (auto simp: family_ok_def)
  show ?thesis
    unfolding idle_tick [OF ok idle none time]
    by (simp, rule ok_with_mono [OF start_resume_ok [OF ticked_ok [OF ok]]]) (use idle room lp go i' in auto)
qed

section \<open>A process that returns\<close>

text \<open>
  The context of a process is linked to \<open>main_context\<close>: when its function returns without
  \<open>disastrOS_exit\<close>, the code creates another first process and its PCB is in use but neither running
  nor on a list.
\<close>

definition orphaned :: "ptr \<Rightarrow> kernel \<Rightarrow> bool" where
  "orphaned r k \<longleftrightarrow> r \<in> in_use k Pcb_buffer \<and> running k \<noteq> Some r \<and>
     (\<forall>h \<in> {Ready_list, Waiting_list, Zombie_list}. r \<notin> set (lst k h))"

lemma return_orphans:
  assumes ok: "kernel_ok k" and run: "running k = Some r" and go: "shutdown_now k = 0"
    and room: "0 < room k Pcb_buffer" and lp: "last_pid k < 2 ^ 31 - 1"
  shows "ok_with (start_resume f f_args logging k) (\<lambda>res. \<exists>p k'. res = Some (To_process p, k') \<and> orphaned r k' \<and>
    \<not> kernel_ok k')"
proof -
  note S = kernel_okD [OF ok]
  have r: "r \<in> in_use k Pcb_buffer" "r \<notin> set (lst k h)" for h
    using S(2) run running_notin [OF ok run] by (auto simp: sched_ok_def)
  have "\<not> kernel_ok k'" if "orphaned r k'" for k'
    using that kernel_okD(2) [of k'] by (auto simp: sched_ok_def orphaned_def)
  moreover have "ok_with (start_resume f f_args logging k) (\<lambda>res. \<exists>p k'. res = Some (To_process p, k') \<and> orphaned r k')"
    unfolding start_resume_def
    apply (simp add: go ok_with_and_then)
    apply (rule PCB_alloc_rule [OF S(1) room _ lp])
    using r S(4) by (auto simp: pids_ok_def orphaned_def pools_take_def Let_def)
  ultimately show ?thesis by (auto simp: ok_with_iff)
qed

section \<open>A forked child\<close>

text \<open>\<open>internal_fork\<close> never sets the context of the child: it is what the block held before.\<close>

lemma fork_context:
  assumes ok: "kernel_ok k" and run: "running k = Some r" and room: "0 < room k Pcb_buffer" "0 < room k Pcb_ptr_buffer"
    and lp: "last_pid k < 2 ^ 31 - 1"
  shows "ok_with (internal_fork k) (\<lambda>k'. kernel_ok k' \<and> (\<exists>p. p \<notin> in_use k Pcb_buffer \<and>
    lst k' Ready_list = lst k Ready_list @ [p] \<and> cpu_state (pcbs k' p) = cpu_state (pcbs k p)))"
proof -
  have "ok_with (new_child r k) (\<lambda>(p, k'). p \<notin> in_use k Pcb_buffer \<and>
      lst k' Ready_list = lst k Ready_list @ [p] \<and> cpu_state (pcbs k' p) = cpu_state (pcbs k p))"
    by (rule new_child_rule [OF ok run room lp]) auto
  from ok_with_conj [OF new_child_ok [OF ok run room lp] this] show ?thesis
    by (auto simp: internal_fork_def run ok_with_and_then elim!: ok_with_mono)
qed

end
