(* ===== verification/Fairness.thy ===== *)
theory Fairness
  imports Machine
begin

text \<open>
  Round robin: the running process and the ready list form a cycle that every preemption turns by one
  place, so each of its processes runs again after as many preemptions as the cycle is long.
\<close>

definition cycle :: "kernel \<Rightarrow> ptr list" where
  "cycle k = (case running k of None \<Rightarrow> [] | Some r \<Rightarrow> [r]) @ lst k Ready_list"

fun preempts :: "nat \<Rightarrow> kernel \<Rightarrow> fault + kernel" where
  "preempts 0 k = Inr k"
| "preempts (Suc n) k = and_then (internal_preempt k) (preempts n)"

lemma preempt_cycle:
  assumes ok: "kernel_ok k" and run: "running k = Some r"
  shows "ok_with (internal_preempt k) (\<lambda>k'. kernel_ok k' \<and> (\<exists>p. running k' = Some p) \<and> cycle k' = rotate1 (cycle k) \<and>
    lst k' Waiting_list = lst k Waiting_list \<and> lst k' Zombie_list = lst k Zombie_list)"
proof -
  have "ok_with (internal_schedule k) (\<lambda>k'. (\<exists>p. running k' = Some p) \<and> cycle k' = rotate1 (cycle k) \<and>
    lst k' Waiting_list = lst k Waiting_list \<and> lst k' Zombie_list = lst k Zombie_list)"
    by (rule schedule_rule) (use kernel_okD(1) [OF ok] running_loose [OF ok] run in \<open>auto simp: cycle_def\<close>)
  with schedule_ok [OF ok] show ?thesis by (auto simp: internal_preempt_def ok_with_iff)
qed

lemma preempts_cycle:
  assumes "kernel_ok k" and "running k = Some r"
  shows "ok_with (preempts n k) (\<lambda>k'. kernel_ok k' \<and> (\<exists>p. running k' = Some p) \<and> cycle k' = rotate n (cycle k))"
  using assms
proof (induction n arbitrary: k r)
  case (Suc n)
  show ?case
    unfolding preempts.simps ok_with_and_then
  proof (rule ok_with_mono [OF preempt_cycle [OF Suc.prems]], elim conjE exE)
    fix k1 p
    assume k1: "kernel_ok k1" "running k1 = Some p" "cycle k1 = rotate1 (cycle k)"
    from Suc.IH [OF k1(1,2)] show "ok_with (preempts n k1)
        (\<lambda>k'. kernel_ok k' \<and> (\<exists>p. running k' = Some p) \<and> cycle k' = rotate (Suc n) (cycle k))"
      by (simp add: k1(3) rotate1_rotate_swap rotate_Suc)
  qed
qed simp

lemma running_cycle: "running k = Some p \<Longrightarrow> cycle k ! 0 = p \<and> cycle k \<noteq> []"
  by (simp add: cycle_def)

lemma preempts_run:
  assumes ok: "kernel_ok k" and run: "running k = Some r" and i: "i < length (cycle k)"
  shows "ok_with (preempts i k) (\<lambda>k'. running k' = Some (cycle k ! i))"
proof (rule ok_with_mono [OF preempts_cycle [OF ok run]], elim conjE exE)
  fix k' p
  assume k': "running k' = Some p" "cycle k' = rotate i (cycle k)"
  have "0 < length (cycle k)" using i by linarith
  then have "cycle k' ! 0 = cycle k ! i" using i nth_rotate [of 0 "cycle k" i] by (simp add: k'(2))
  with running_cycle [OF k'(1)] show "running k' = Some (cycle k ! i)" using k'(1) by simp
qed

end
