(* ===== verification/Process_Properties.thy ===== *)
theory Process_Properties
  imports Hazards Fairness Demo
begin

text \<open>
  The properties of the processes: scheduling, creation, exit and wait, sleeping and the timer interrupt.  The
  witnesses apply them to the states of \<open>Demo\<close>.
\<close>

section \<open>Scheduling\<close>

text \<open>
  C12: preemption is a round robin: after \<open>n\<close> preemptions the ready processes with the running one in front have
  turned \<open>n\<close> times, so the running process is the one that was \<open>n\<close> places away and each runs again after as many
  preemptions as there are processes.
\<close>

theorem preemption_is_round_robin:
  assumes "kernel_ok k" and "running k = Some r"
  shows "ok_with (preempts n k) (\<lambda>k'. kernel_ok k' \<and> cycle k' = rotate n (cycle k) \<and>
    running k' = Some (cycle k ! (n mod length (cycle k))))"
proof (rule ok_with_mono [OF preempts_cycle [OF assms, of n]])
  fix k'
  assume "kernel_ok k' \<and> (\<exists>p. running k' = Some p) \<and> cycle k' = rotate n (cycle k)"
  moreover from this obtain p where "running k' = Some p" by blast
  moreover have "cycle k ! (n mod length (cycle k)) = rotate n (cycle k) ! 0"
    using running_cycle [OF assms(2)] nth_rotate [of 0 "cycle k" n] by simp
  ultimately show "kernel_ok k' \<and> cycle k' = rotate n (cycle k) \<and> running k' = Some (cycle k ! (n mod length (cycle k)))"
    using running_cycle [of k' p] by simp
qed

theorem preemption_is_round_robin_witness:
  "ok_with (preempts 5 (busy (\<lambda>_. 4) DSOS_CALL_PREEMPT (\<lambda>_. 0))) (\<lambda>k'. running k' = Some (blk Pcb_buffer 1))"
  by (rule ok_with_mono [OF preemption_is_round_robin [of "busy (\<lambda>_. 4) DSOS_CALL_PREEMPT (\<lambda>_. 0)" "blk Pcb_buffer 0" 5]])
    (simp_all add: cycle_def busy_lists_def numeral_2_eq_2 [symmetric])

section \<open>Creation\<close>

text \<open>
  C15: \<open>internal_spawn\<close> creates one process: a fresh PCB at the end of the ready queue, a child of the caller with a
  pid of its own that the caller receives, started at the given function and argument; every queue and family is
  kept.  Without a free PCB or link it faults instead of returning an error.
\<close>

theorem spawn_creates_child:
  assumes "kernel_ok k" and "running k = Some r" and "last_pid k < 2 ^ 31 - 1"
  shows "if 0 < room k Pcb_buffer \<and> 0 < room k Pcb_ptr_buffer
    then ok_with (internal_spawn k) (\<lambda>k'. kernel_ok k' \<and> running k' = Some r \<and>
      (\<exists>p. p \<notin> in_use k Pcb_buffer \<and> in_use k' Pcb_buffer = insert p (in_use k Pcb_buffer) \<and>
        lst k' Ready_list = lst k Ready_list @ [p] \<and> parent (pcbs k' p) = Some r \<and>
        pid (pcbs k' p) = last_pid k \<and> syscall_retvalue (pcbs k' r) = last_pid k \<and> last_pid k' = last_pid k + 1 \<and>
        lst k' Waiting_list = lst k Waiting_list \<and> (\<forall>x. x \<noteq> p \<longrightarrow> parent (pcbs k' x) = parent (pcbs k x)) \<and>
        cpu_state (pcbs k' p) = Ctx_entry (syscall_args (pcbs k' r) 0) (syscall_args (pcbs k' r) 1)))
    else internal_spawn k = Inl Null_deref"
  using spawn_ok [OF assms(1,2) _ _ assms(3)] spawn_full [OF assms] by simp

theorem spawn_creates_child_witness:
  "ok_with (internal_spawn (busy (\<lambda>_. 4) DSOS_CALL_SPAWN (\<lambda>_. 0))) (\<lambda>k'.
    \<exists>p. lst k' Ready_list = [blk Pcb_buffer 1, p] \<and> pid (pcbs k' p) = 6)"
proof -
  have "ok_with (internal_spawn (busy (\<lambda>_. 4) DSOS_CALL_SPAWN (\<lambda>_. 0))) (\<lambda>k'.
      (\<exists>p. lst k' Ready_list = lst (busy (\<lambda>_. 4) DSOS_CALL_SPAWN (\<lambda>_. 0)) Ready_list @ [p] \<and> pid (pcbs k' p) = 6))"
    using spawn_creates_child [of "busy (\<lambda>_. 4) DSOS_CALL_SPAWN (\<lambda>_. 0)" "blk Pcb_buffer 0"]
    by (simp del: busy_fields(1)) (erule ok_with_mono, auto)
  then show ?thesis by (simp add: busy_lists_def)
qed

text \<open>
  C40: a forked child gets a PCB, a parent and a place in the ready queue like a spawned one, but its context is
  never set: it is what the block held before, so a child in a block that was never used crashes the machine when the
  dispatcher enters it.
\<close>

theorem fork_leaves_context_unset:
  assumes "kernel_ok k" and "running k = Some r" and "0 < room k Pcb_buffer" and "0 < room k Pcb_ptr_buffer"
    and "last_pid k < 2 ^ 31 - 1" and unused: "\<forall>p. p \<notin> in_use k Pcb_buffer \<longrightarrow> cpu_state (pcbs k p) = Ctx_unset"
  shows "ok_with (internal_fork k) (\<lambda>k'. kernel_ok k' \<and> (\<exists>p. lst k' Ready_list = lst k Ready_list @ [p] \<and>
    enter (To_process p) k' = Crashed Bad_pointer))"
  by (rule ok_with_mono [OF fork_context [OF assms(1-5)]]) (use unused in auto)

theorem fork_leaves_context_unset_witness:
  "ok_with (internal_fork (lone DSOS_CALL_FORK (\<lambda>_. 0))) (\<lambda>k'. \<exists>p. lst k' Ready_list = [p] \<and>
    enter (To_process p) k' = Crashed Bad_pointer)"
proof -
  have "\<forall>p. p \<notin> in_use (lone DSOS_CALL_FORK (\<lambda>_. 0)) Pcb_buffer \<longrightarrow>
      cpu_state (pcbs (lone DSOS_CALL_FORK (\<lambda>_. 0)) p) = Ctx_unset"
    by (auto simp: few_sets) (simp_all add: lone_def zero_pcb_def)
  with fork_leaves_context_unset [OF lone_ok, of DSOS_CALL_FORK "\<lambda>_. 0" "blk Pcb_buffer 0"] show ?thesis
    by (simp del: enter.simps) (erule ok_with_mono, auto)
qed

section \<open>Exit and wait\<close>

text \<open>
  C10: \<open>internal_exit\<close> of a process other than the initial one, or without children, makes it a zombie with its exit
  value, gives its children to the initial process, makes a parent that waits for it ready and dispatches the next
  process; every invariant is kept.  No return value and no memory of a process changes: a woken parent is not told
  who exited, against the purpose of \<open>disastrOS_wait\<close>.
\<close>

theorem exit_effect:
  assumes "kernel_ok k" and "running k = Some r" and "init_pcb k \<noteq> Some r \<or> lst k (Children r) = []"
  shows "ok_with (internal_exit k) (\<lambda>k'. kernel_ok k' \<and> lst k' Zombie_list = lst k Zombie_list @ [r] \<and>
    return_value (pcbs k' r) = to_int (syscall_args (pcbs k r) 0) \<and> lst k' (Children r) = [] \<and>
    (\<forall>w. w \<in> set (lst k (Children r)) \<longrightarrow> parent (pcbs k' (pcb_ptrs k w)) = init_pcb k) \<and>
    running k' = hd_opt (lst k Ready_list @ woken_parent r k) \<and> same_results k k')"
  by (rule ok_with_mono [OF exit_ok [OF assms]]) (simp add: exited_def)

theorem exit_effect_witness:
  "ok_with (internal_exit (lineage DSOS_CALL_EXIT (\<lambda>_. 7))) (\<lambda>k'. lst k' Zombie_list = [blk Pcb_buffer 1] \<and>
    return_value (pcbs k' (blk Pcb_buffer 1)) = 7 \<and> parent (pcbs k' (blk Pcb_buffer 2)) = Some (blk Pcb_buffer 0))"
  by (rule ok_with_mono [OF exit_effect [OF lineage_ok, of DSOS_CALL_EXIT "\<lambda>_. 7" "blk Pcb_buffer 1"]])
    (auto simp: to_int_id)

text \<open>
  C38: the initial process cannot exit while it has children: the loop that gives them to the initial process moves
  each child back to the end of the list it takes it from, and \<open>internal_exit\<close> never returns.
\<close>

theorem init_exit_never_returns:
  assumes "kernel_ok k" and "running k = Some r" and "init_pcb k = Some r" and "lst k (Children r) \<noteq> []"
  shows "internal_exit k = Inl Diverges"
  by (rule exit_diverges [OF assms])

theorem init_exit_never_returns_witness: "internal_exit (lone DSOS_CALL_EXIT (\<lambda>_. 0)) = Inl Diverges"
  using init_exit_never_returns [OF lone_ok, of DSOS_CALL_EXIT "\<lambda>_. 0"] by simp

text \<open>
  C11: every branch of \<open>internal_wait\<close>: no children is an error; a zombie child that matches is taken off its lists and
  freed, its exit value stored and its pid returned; otherwise the caller is blocked and the first ready process
  runs, and if there is none the code dereferences a null pointer, although its comment says that \<open>running\<close> stays 0
  until the timer wakes somebody.
\<close>

theorem wait_every_branch:
  assumes "kernel_ok k" and "running k = Some r" and "syscall_num (pcbs k r) = DSOS_CALL_WAIT"
  shows "if lst k (Children r) = [] then internal_wait k = Inr (set_retvalue r DSOS_EWAIT k)
    else case awaited r k of
      Some z \<Rightarrow> ok_with (internal_wait k) (\<lambda>k'. kernel_ok k' \<and> running k' = Some r \<and>
        in_use k' Pcb_buffer = in_use k Pcb_buffer - {z} \<and> lst k' Zombie_list = remove1 z (lst k Zombie_list) \<and>
        syscall_retvalue (pcbs k' r) = pid (pcbs k z) \<and>
        user_mem k' = write_user (Some (syscall_args (pcbs k r) 1, return_value (pcbs k z))) (user_mem k))
    | None \<Rightarrow> (case lst k Ready_list of
        [] \<Rightarrow> internal_wait k = Inl Null_deref
      | p # ps \<Rightarrow> ok_with (internal_wait k) (\<lambda>k'. kernel_ok k' \<and> running k' = Some p \<and>
          lst k' = (lst k)(Ready_list := ps, Waiting_list := lst k Waiting_list @ [r])))"
proof (cases "lst k (Children r)")
  case Nil
  with wait_no_child [OF assms(1,2)] show ?thesis by simp
next
  case (Cons w ws)
  then have kids: "lst k (Children r) \<noteq> []" by simp
  have mem: "user_mem (store_result a v k) = write_user (Some (a, v)) (user_mem k)" for a v
    by (simp add: store_result_def write_user_def)
  from kids show ?thesis
    using wait_reaps [OF assms(1,2)] wait_fault [OF assms(1,2) kids] wait_blocks [OF assms(1,2) kids _ _ assms(3)]
    by (auto simp: mem split: option.split list.split elim: ok_with_mono)
qed

theorem wait_every_branch_witness:
  "ok_with (internal_wait (busy (\<lambda>_. 4) DSOS_CALL_WAIT ((\<lambda>_. 0)(1 := 100)))) (\<lambda>k'. running k' = Some (blk Pcb_buffer 0) \<and>
      syscall_retvalue (pcbs k' (blk Pcb_buffer 0)) = 2 \<and> user_mem k' 100 = 42) \<and>
    internal_wait (lone DSOS_CALL_WAIT (\<lambda>_. 0)) = Inl Null_deref"
proof
  have a: "awaited (blk Pcb_buffer 0) (busy (\<lambda>_. 4) DSOS_CALL_WAIT ((\<lambda>_. 0)(1 := 100))) = Some (blk Pcb_buffer 2)"
    by (simp add: awaited_def busy_lists_def)
  have kids: "lst (busy (\<lambda>_. 4) n args) (Children (blk Pcb_buffer 0)) \<noteq> []" for n args by (simp add: busy_lists_def)
  show "ok_with (internal_wait (busy (\<lambda>_. 4) DSOS_CALL_WAIT ((\<lambda>_. 0)(1 := 100)))) (\<lambda>k'. running k' = Some (blk Pcb_buffer 0) \<and>
      syscall_retvalue (pcbs k' (blk Pcb_buffer 0)) = 2 \<and> user_mem k' 100 = 42)"
    using wait_every_branch [of "busy (\<lambda>_. 4) DSOS_CALL_WAIT ((\<lambda>_. 0)(1 := 100))" "blk Pcb_buffer 0"] a kids
    by (simp del: busy_fields(1)) (erule ok_with_mono, simp add: write_user_def)
  have "awaited (blk Pcb_buffer 0) (lone DSOS_CALL_WAIT (\<lambda>_. 0)) = None" by (simp add: awaited_def)
  then show "internal_wait (lone DSOS_CALL_WAIT (\<lambda>_. 0)) = Inl Null_deref"
    using wait_every_branch [OF lone_ok, of DSOS_CALL_WAIT "\<lambda>_. 0" "blk Pcb_buffer 0"]
    by simp
qed



section \<open>Sleep and time\<close>

text \<open>
  C14: every branch of \<open>internal_sleep\<close>: a wake-up time outside \<open>int\<close> is a signed overflow, an exhausted timer pool is
  an error that changes nothing else; otherwise the caller is blocked, a timer for it is placed behind those that are
  due before or at its time, and the first ready process runs, or none.
\<close>

theorem sleep_every_branch:
  assumes "kernel_ok k" and "running k = Some r" and "syscall_num (pcbs k r) = DSOS_CALL_SLEEP"
    and "time = disastrOS_time k + arg_int k r 0"
  shows "if time < - (2 ^ 31) \<or> 2 ^ 31 \<le> time then internal_sleep k = Inl Signed_overflow
    else if room k Timer_item_buffer \<le> 0 then
      internal_sleep k = Inr (set_retvalue r DSOS_ESLEEP (print_out (''no new timer!!!'' @ newline) k))
    else ok_with (internal_sleep k) (\<lambda>k'. kernel_ok k' \<and> status (pcbs k' r) = Waiting \<and>
      lst k' Waiting_list = lst k Waiting_list @ [r] \<and>
      running k' = hd_opt (lst k Ready_list) \<and> lst k' Ready_list = tl (lst k Ready_list) \<and>
      (\<exists>t. timer_items k' = (timer_items k)(t := \<lparr>awakening_time = time, timer_pcb = r\<rparr>) \<and>
        lst k' Timer_list = timer_insert (timer_items k) time t (lst k Timer_list)))"
proof -
  have "ok_with (internal_sleep k) (\<lambda>k'. kernel_ok k' \<and> slept r time k k') \<Longrightarrow> ok_with (internal_sleep k) (\<lambda>k'.
      kernel_ok k' \<and> status (pcbs k' r) = Waiting \<and> lst k' Waiting_list = lst k Waiting_list @ [r] \<and>
      running k' = hd_opt (lst k Ready_list) \<and> lst k' Ready_list = tl (lst k Ready_list) \<and>
      (\<exists>t. timer_items k' = (timer_items k)(t := \<lparr>awakening_time = time, timer_pcb = r\<rparr>) \<and>
        lst k' Timer_list = timer_insert (timer_items k) time t (lst k Timer_list)))"
    by (erule ok_with_mono) (auto simp: slept_def)
  with sleep_overflow [OF assms(1,2)] sleep_full [OF assms(1,2)] sleep_ok [OF assms] assms(4) show ?thesis
    by (auto simp: not_less not_le)
qed

theorem sleep_every_branch_witness:
  "ok_with (internal_sleep (busy (\<lambda>_. 4) DSOS_CALL_SLEEP (\<lambda>_. 6))) (\<lambda>k'. running k' = Some (blk Pcb_buffer 1) \<and>
    status (pcbs k' (blk Pcb_buffer 0)) = Waiting)"
  using sleep_every_branch [of "busy (\<lambda>_. 4) DSOS_CALL_SLEEP (\<lambda>_. 6)" "blk Pcb_buffer 0" 10]
  by (simp add: to_int_id) (erule ok_with_mono, simp add: busy_lists_def)



end
