(* ===== verification/Resource_Properties.thy ===== *)
theory Resource_Properties
  imports Hazards Demo
begin

text \<open>
  The properties of the resources and their descriptors: opening, closing and destroying, on every branch.
\<close>

lemma busy_resources [simp]:
  "resource_named 3 (busy free n args) = Some (Addr Resources_buffer 0)"
  "resource_named 4 (busy free n args) = Some (Addr Resources_buffer 8)" "resource_named 9 (busy free n args) = None"
  "res_type (resources (busy free n args) (Addr Resources_buffer 0)) = 0"
  "res_type (resources (busy free n args) (Addr Resources_buffer 8)) = 1"
  by (simp_all add: resource_named_def busy_lists_def) (simp_all add: busy_def)

lemma modes [simp]:
  "has_flag DSOS_CREATE DSOS_CREATE" "\<not> has_flag DSOS_READ DSOS_CREATE" "\<not> has_flag DSOS_READ DSOS_EXCL"
  "has_flag DSOS_EXCL DSOS_EXCL" "\<not> has_flag DSOS_EXCL DSOS_CREATE"
  by (simp_all add: has_flag_def DSOS_CREATE_def DSOS_READ_def DSOS_EXCL_def)

lemma mode_values [simp]: "to_int DSOS_CREATE = DSOS_CREATE" "to_int DSOS_READ = DSOS_READ" "to_int DSOS_EXCL = DSOS_EXCL"
  by (simp_all add: to_int_id DSOS_CREATE_def DSOS_READ_def DSOS_EXCL_def)

lemma opened_returns: "opened r res k k' \<Longrightarrow> syscall_retvalue (pcbs k' r) = last_fd (pcbs k r)"
  by (auto simp: opened_def)

text \<open>
  C23: opening in \<open>DSOS_CREATE\<close> mode a resource that does not exist registers it with the given identifier and type and
  gives the caller a descriptor for it with the next descriptor number; an existing identifier is an error; with no
  free resource block the code inserts a null pointer into the list of resources before it checks it.
\<close>

theorem open_creates:
  assumes "kernel_ok k" and "running k = Some r" and "has_flag (arg_int k r 2) DSOS_CREATE"
    and "- (2 ^ 31) \<le> last_fd (pcbs k r) + 1" and "last_fd (pcbs k r) + 1 < 2 ^ 31"
  shows "if resource_named (arg_int k r 0) k \<noteq> None then internal_openResource k = Inr (set_retvalue r DSOS_ERESOURCECREATE k)
    else if room k Resources_buffer \<le> 0 then internal_openResource k = Inl Null_deref
    else ok_with (internal_openResource k) (\<lambda>k'. kernel_ok k' \<and> running k' = Some r \<and>
      (\<exists>res. lst k' Resources_list = lst k Resources_list @ [res] \<and>
         resources k' res = \<lparr>res_id = arg_int k r 0, res_type = arg_int k r 1\<rparr> \<and>
         (if room k Descriptor_buffer \<le> 0 then syscall_retvalue (pcbs k' r) = DSOS_ERESOURCENOFD
          else syscall_retvalue (pcbs k' r) = last_fd (pcbs k r) \<and> opened r res k k')))"
proof -
  have "\<lbrakk>resource_named (arg_int k r 0) k = None; 0 < room k Resources_buffer\<rbrakk> \<Longrightarrow>
    ok_with (internal_openResource k) (\<lambda>k'. kernel_ok k' \<and> running k' = Some r \<and>
      (\<exists>res. lst k' Resources_list = lst k Resources_list @ [res] \<and>
         resources k' res = \<lparr>res_id = arg_int k r 0, res_type = arg_int k r 1\<rparr> \<and>
         (if room k Descriptor_buffer \<le> 0 then syscall_retvalue (pcbs k' r) = DSOS_ERESOURCENOFD
          else syscall_retvalue (pcbs k' r) = last_fd (pcbs k r) \<and> opened r res k k')))"
    by (rule ok_with_mono [OF open_create_ok [OF assms(1,2) refl refl refl assms(3) _ _ assms(4,5)]])
      (auto simp: opened_returns split: if_splits)
  with open_exists [OF assms(1-3)] open_full [OF assms(1-3)] show ?thesis by simp
qed

theorem open_creates_witness:
  "ok_with (internal_openResource (busy (\<lambda>_. 4) DSOS_CALL_OPEN_RESOURCE ((\<lambda>_. 0)(0 := 9, 1 := 2, 2 := DSOS_CREATE)))) (\<lambda>k'.
    \<exists>res. lst k' Resources_list = [blk Resources_buffer 0, blk Resources_buffer 1, res] \<and>
      resources k' res = \<lparr>res_id = 9, res_type = 2\<rparr> \<and> syscall_retvalue (pcbs k' (blk Pcb_buffer 0)) = 1)"
proof -
  let ?k = "busy (\<lambda>_. 4) DSOS_CALL_OPEN_RESOURCE ((\<lambda>_. 0)(0 := 9, 1 := 2, 2 := DSOS_CREATE))"
  have l: "lst ?k Resources_list = [blk Resources_buffer 0, blk Resources_buffer 1]" by (simp add: busy_lists_def)
  show ?thesis
    using open_creates [of ?k "Addr Pcb_buffer 0"] l
    by (simp add: to_int_id del: busy_fields(1)) (erule ok_with_mono, auto)
qed

text \<open>
  C24: opening without \<open>DSOS_CREATE\<close> checks that the resource exists and has the given type, then in \<open>DSOS_EXCL\<close> mode that
  nobody has it open, then that a descriptor is free; each failure sets its own code and changes nothing else, and
  success gives the caller a descriptor with the next descriptor number.
\<close>

theorem open_existing:
  assumes "kernel_ok k" and "running k = Some r" and "\<not> has_flag (arg_int k r 2) DSOS_CREATE"
    and "- (2 ^ 31) \<le> last_fd (pcbs k r) + 1" and "last_fd (pcbs k r) + 1 < 2 ^ 31"
  shows "case resource_named (arg_int k r 0) k of
      None \<Rightarrow> internal_openResource k = Inr (set_retvalue r DSOS_ERESOURCEOPEN k)
    | Some res \<Rightarrow> ok_with (internal_openResource k) (\<lambda>k'. kernel_ok k' \<and> running k' = Some r \<and> resources k' = resources k \<and>
        (if res_type (resources k res) \<noteq> arg_int k r 1 then k' = set_retvalue r DSOS_ERESOURCEOPEN k
         else if has_flag (arg_int k r 2) DSOS_EXCL \<and> lst k (Descriptors_ptrs res) \<noteq> [] then
           k' = set_retvalue r DSOS_ERESOURCENOEXCL k
         else if room k Descriptor_buffer \<le> 0 then k' = set_retvalue r DSOS_ERESOURCENOFD k
         else syscall_retvalue (pcbs k' r) = last_fd (pcbs k r) \<and> opened r res k k'))"
proof (cases "resource_named (arg_int k r 0) k")
  case None
  with open_existing_eq [OF assms(1,2) refl refl refl assms(3)] show ?thesis by simp
next
  case (Some res)
  then have res: "res \<in> set (lst k Resources_list)" using resource_named_Some by blast
  from open_checked_ok [OF assms(1,2) res assms(4,5), of "arg_int k r 1" "arg_int k r 2"]
  show ?thesis
    unfolding open_existing_eq [OF assms(1,2) refl refl refl assms(3)] Some option.case
    by (rule ok_with_mono) (auto simp: opened_returns split: if_splits)
qed

theorem open_existing_witness:
  "ok_with (internal_openResource (busy (\<lambda>_. 4) DSOS_CALL_OPEN_RESOURCE ((\<lambda>_. 0)(0 := 4, 1 := 1, 2 := DSOS_READ)))) (\<lambda>k'.
      syscall_retvalue (pcbs k' (blk Pcb_buffer 0)) = 1) \<and>
    ok_with (internal_openResource (busy (\<lambda>_. 4) DSOS_CALL_OPEN_RESOURCE ((\<lambda>_. 0)(0 := 3, 1 := 0, 2 := DSOS_EXCL)))) (\<lambda>k'.
      syscall_retvalue (pcbs k' (blk Pcb_buffer 0)) = DSOS_ERESOURCENOEXCL)"
proof
  let ?k1 = "busy (\<lambda>_. 4) DSOS_CALL_OPEN_RESOURCE ((\<lambda>_. 0)(0 := 4, 1 := 1, 2 := DSOS_READ))"
  let ?k2 = "busy (\<lambda>_. 4) DSOS_CALL_OPEN_RESOURCE ((\<lambda>_. 0)(0 := 3, 1 := 0, 2 := DSOS_EXCL))"
  show "ok_with (internal_openResource ?k1) (\<lambda>k'. syscall_retvalue (pcbs k' (blk Pcb_buffer 0)) = 1)"
    using open_existing [of ?k1 "Addr Pcb_buffer 0"] by (simp add: to_int_id) (erule ok_with_mono, simp)
  have "lst ?k2 (Descriptors_ptrs (Addr Resources_buffer 0)) \<noteq> []" by (simp add: busy_lists_def)
  then show "ok_with (internal_openResource ?k2) (\<lambda>k'. syscall_retvalue (pcbs k' (blk Pcb_buffer 0)) = DSOS_ERESOURCENOEXCL)"
    using open_existing [of ?k2 "Addr Pcb_buffer 0"]
    by (simp add: to_int_id del: busy_fields(1)) (erule ok_with_mono, simp)
qed

text \<open>
  C25: closing a descriptor number that the caller has takes the descriptor off the caller's list and its entry off the
  resource's, frees both and returns 0; any other number is an error that changes nothing else.
\<close>

theorem close_every_branch:
  assumes "kernel_ok k" and "running k = Some r"
  shows "case List.find (\<lambda>d. des_fd (descriptors k d) = arg_int k r 0) (lst k (Descriptors r)) of
      None \<Rightarrow> internal_closeResource k = Inr (set_retvalue r DSOS_ERESOURCECLOSE k)
    | Some d \<Rightarrow> ok_with (internal_closeResource k) (\<lambda>k'. kernel_ok k' \<and> running k' = Some r \<and>
        lst k' (Descriptors r) = remove1 d (lst k (Descriptors r)) \<and> d \<notin> in_use k' Descriptor_buffer \<and>
        length (lst k' (Descriptors_ptrs (des_resource (descriptors k d)))) + 1 =
          length (lst k (Descriptors_ptrs (des_resource (descriptors k d)))) \<and>
        syscall_retvalue (pcbs k' r) = 0)"
  using close_ok [OF assms] close_unknown [OF assms] by (auto split: option.split)

theorem close_every_branch_witness:
  "ok_with (internal_closeResource (busy (\<lambda>_. 4) DSOS_CALL_CLOSE_RESOURCE (\<lambda>_. 0))) (\<lambda>k'.
    lst k' (Descriptors (blk Pcb_buffer 0)) = [] \<and> lst k' (Descriptors_ptrs (blk Resources_buffer 0)) = [])"
proof -
  let ?k = "busy (\<lambda>_. 4) DSOS_CALL_CLOSE_RESOURCE (\<lambda>_. 0)"
  have d: "List.find (\<lambda>d. des_fd (descriptors ?k d) = 0) (lst ?k (Descriptors (Addr Pcb_buffer 0))) = Some (Addr Descriptor_buffer 0)"
    "des_resource (descriptors ?k (Addr Descriptor_buffer 0)) = Addr Resources_buffer 0"
    "lst ?k (Descriptors (Addr Pcb_buffer 0)) = [Addr Descriptor_buffer 0]"
    "lst ?k (Descriptors_ptrs (Addr Resources_buffer 0)) = [Addr Descriptor_ptr_buffer 0]"
    by (simp_all add: busy_lists_def) (simp_all add: busy_def)
  show ?thesis
    using close_every_branch [of ?k "Addr Pcb_buffer 0"] d
    by (simp del: busy_fields(1)) (erule ok_with_mono, simp)
qed

text \<open>
  C26: destroying refuses an unknown resource and one that is open, and otherwise takes the resource off the list and
  frees its block.
\<close>

theorem destroy_every_branch:
  assumes "kernel_ok k" and "running k = Some r"
  shows "case resource_named (arg_int k r 0) k of
      None \<Rightarrow> internal_destroyResource k = Inr (set_retvalue r DSOS_ERESOURCECLOSE k)
    | Some res \<Rightarrow>
        if lst k (Descriptors_ptrs res) \<noteq> [] then internal_destroyResource k = Inr (set_retvalue r DSOS_ERESOURCEINUSE k)
        else ok_with (internal_destroyResource k) (\<lambda>k'. kernel_ok k' \<and> running k' = Some r \<and>
          lst k' Resources_list = remove1 res (lst k Resources_list) \<and> res \<notin> in_use k' Resources_buffer \<and>
          syscall_retvalue (pcbs k' r) = 0)"
  using destroy_ok [OF assms] destroy_refused [OF assms] by (auto split: option.split)

theorem destroy_every_branch_witness:
  "ok_with (internal_destroyResource (busy (\<lambda>_. 4) DSOS_CALL_DESTROY_RESOURCE (\<lambda>_. 4))) (\<lambda>k'.
      lst k' Resources_list = [blk Resources_buffer 0]) \<and>
    internal_destroyResource (busy (\<lambda>_. 4) DSOS_CALL_DESTROY_RESOURCE (\<lambda>_. 3)) =
      Inr (set_retvalue (blk Pcb_buffer 0) DSOS_ERESOURCEINUSE (busy (\<lambda>_. 4) DSOS_CALL_DESTROY_RESOURCE (\<lambda>_. 3)))"
proof
  have l: "lst (busy (\<lambda>_. 4) n args) (Descriptors_ptrs (Addr Resources_buffer 0)) \<noteq> []"
    "lst (busy (\<lambda>_. 4) n args) (Descriptors_ptrs (Addr Resources_buffer 8)) = []"
    "lst (busy (\<lambda>_. 4) n args) Resources_list = [Addr Resources_buffer 0, Addr Resources_buffer 8]" for n args
    by (simp_all add: busy_lists_def)
  show "ok_with (internal_destroyResource (busy (\<lambda>_. 4) DSOS_CALL_DESTROY_RESOURCE (\<lambda>_. 4))) (\<lambda>k'.
      lst k' Resources_list = [blk Resources_buffer 0])"
    using destroy_every_branch [of "busy (\<lambda>_. 4) DSOS_CALL_DESTROY_RESOURCE (\<lambda>_. 4)" "Addr Pcb_buffer 0"] l
    by (simp add: to_int_id del: busy_fields(1)) (erule ok_with_mono, simp)
  show "internal_destroyResource (busy (\<lambda>_. 4) DSOS_CALL_DESTROY_RESOURCE (\<lambda>_. 3)) =
      Inr (set_retvalue (blk Pcb_buffer 0) DSOS_ERESOURCEINUSE (busy (\<lambda>_. 4) DSOS_CALL_DESTROY_RESOURCE (\<lambda>_. 3)))"
    using destroy_every_branch [of "busy (\<lambda>_. 4) DSOS_CALL_DESTROY_RESOURCE (\<lambda>_. 3)" "Addr Pcb_buffer 0"] l
    by (simp add: to_int_id del: busy_fields(1))
qed

end
