(* ===== verification/Queue_Frame.thy ===== *)
theory Queue_Frame
  imports Calls
begin

text \<open>
  What leaves the queues alone: every system call that is not on a queue, the timer and the start of a
  process change neither the values, the waiters, the capacity nor the registry of any queue.  Most of them
  leave the processes and their memory alone too: nobody is born or dies, and no saved context changes.
  Handlers that fault have no state to compare.
\<close>

section \<open>States with the same queues\<close>

definition same_queues :: "kernel \<Rightarrow> kernel \<Rightarrow> bool" where
  "same_queues k k' \<longleftrightarrow> (\<forall>q. queue_view k' q = queue_view k q) \<and> lst k' Bq_registry = lst k Bq_registry \<and>
     (\<forall>q. bq_id (bqueues k' q) = bq_id (bqueues k q))"

lemma same_queues_refl [simp]: "same_queues k k"
  by (simp add: same_queues_def)

lemma same_queues_trans: "same_queues k k1 \<Longrightarrow> same_queues k1 k2 \<Longrightarrow> same_queues k k2"
  by (simp add: same_queues_def)

text \<open>The links of waiting processes; a new link is none of them.\<close>

definition wait_links :: "kernel \<Rightarrow> ptr set" where
  "wait_links k = (\<Union>q. set (lst k (Wait_getters q)) \<union> set (lst k (Wait_putters q)))"

lemma same_queuesI:
  assumes "bqueues k' = bqueues k" and "bq_items k' = bq_items k"
    and "\<And>q. lst k' (Items q) = lst k (Items q)" and "\<And>q. lst k' (Wait_getters q) = lst k (Wait_getters q)"
    and "\<And>q. lst k' (Wait_putters q) = lst k (Wait_putters q)" and "lst k' Bq_registry = lst k Bq_registry"
    and "\<And>w. w \<in> wait_links k \<Longrightarrow> pcb_ptrs k' w = pcb_ptrs k w"
    and "\<And>x. syscall_args (pcbs k' x) = syscall_args (pcbs k x)"
  shows "same_queues k k'"
proof -
  have g: "\<And>q w. w \<in> set (lst k (Wait_getters q)) \<Longrightarrow> pcb_ptrs k' w = pcb_ptrs k w"
    and p: "\<And>q w. w \<in> set (lst k (Wait_putters q)) \<Longrightarrow> pcb_ptrs k' w = pcb_ptrs k w"
    by (rule assms(7), auto simp: wait_links_def)+
  show ?thesis by (simp add: same_queues_def queue_view_def assms(1-6,8) g p)
qed

lemma new_link: "unlisted (lists k) w \<Longrightarrow> x \<in> wait_links k \<Longrightarrow> x \<noteq> w"
  by (auto simp: wait_links_def unlisted_def)

lemma same_queues_pcb [simp]:
  assumes "\<And>b. syscall_args (f b) = syscall_args b"
  shows "same_queues k (upd_pcb p f k1) = same_queues k k1" and "same_queues (upd_pcb p f k1) k = same_queues k1 k"
  using assms by (simp_all add: same_queues_def queue_view_def)

lemma same_queues_fields [simp]:
  "same_queues k (print_out s k1) = same_queues k k1"
  "same_queues k (log_out s k1) = same_queues k k1" "same_queues k (store_result a v k1) = same_queues k k1"
  by (simp_all add: same_queues_def queue_view_def)

text \<open>The processes that can still run, with their contexts, and the memory of all.\<close>

definition alive :: "kernel \<Rightarrow> ptr set" where
  "alive k = in_use k Pcb_buffer - set (lst k Zombie_list)"

definition same_processes :: "kernel \<Rightarrow> kernel \<Rightarrow> bool" where
  "same_processes k k' \<longleftrightarrow> alive k' = alive k \<and> (\<forall>x. cpu_state (pcbs k' x) = cpu_state (pcbs k x))"

lemma same_processesI:
  assumes "in_use k' Pcb_buffer = in_use k Pcb_buffer" and "lst k' Zombie_list = lst k Zombie_list"
    and "\<And>x. cpu_state (pcbs k' x) = cpu_state (pcbs k x)"
  shows "same_processes k k'"
  using assms by (simp add: same_processes_def alive_def)

lemma same_processes_refl [simp]: "same_processes k k"
  by (simp add: same_processes_def)

lemma same_processes_pcb [simp]:
  assumes "\<And>b. cpu_state (f b) = cpu_state b"
  shows "same_processes k (upd_pcb p f k1) = same_processes k k1" and "same_processes (upd_pcb p f k1) k = same_processes k1 k"
  using assms by (simp_all add: same_processes_def alive_def)

lemma same_processes_fields [simp]:
  "same_processes k (print_out s k1) = same_processes k k1"
  "same_processes k (log_out s k1) = same_processes k k1" "same_processes k (store_result a v k1) = same_processes k k1"
  "same_processes k (k1\<lparr>shutdown_now := n\<rparr>) = same_processes k k1"
  by (simp_all add: same_processes_def alive_def)

definition untouched :: "kernel \<Rightarrow> kernel \<Rightarrow> bool" where
  "untouched k k' \<longleftrightarrow> same_queues k k' \<and> same_processes k k' \<and> user_mem k' = user_mem k"

lemma untouched_refl [simp]: "untouched k k"
  by (simp add: untouched_def)

lemma untouched_trans: "untouched k k1 \<Longrightarrow> untouched k1 k2 \<Longrightarrow> untouched k k2"
  by (simp add: untouched_def same_queues_def same_processes_def)

lemma untouchedI:
  assumes "bqueues k' = bqueues k" and "bq_items k' = bq_items k"
    and "\<And>q. lst k' (Items q) = lst k (Items q)" and "\<And>q. lst k' (Wait_getters q) = lst k (Wait_getters q)"
    and "\<And>q. lst k' (Wait_putters q) = lst k (Wait_putters q)" and "lst k' Bq_registry = lst k Bq_registry"
    and "\<And>w. w \<in> wait_links k \<Longrightarrow> pcb_ptrs k' w = pcb_ptrs k w"
    and "\<And>x. syscall_args (pcbs k' x) = syscall_args (pcbs k x)"
    and "in_use k' Pcb_buffer = in_use k Pcb_buffer" and "lst k' Zombie_list = lst k Zombie_list"
    and "\<And>x. cpu_state (pcbs k' x) = cpu_state (pcbs k x)" and "user_mem k' = user_mem k"
  shows "untouched k k'"
  unfolding untouched_def by (intro conjI same_queuesI same_processesI assms)

lemma untouched_pcb [simp]:
  assumes "\<And>b. syscall_args (f b) = syscall_args b" and "\<And>b. cpu_state (f b) = cpu_state b"
  shows "untouched k (upd_pcb p f k1) = untouched k k1" and "untouched (upd_pcb p f k1) k = untouched k1 k"
  using assms by (simp_all add: untouched_def)

lemma untouched_fields [simp]:
  "untouched k (print_out s k1) = untouched k k1" "untouched k (log_out s k1) = untouched k k1"
  by (simp_all add: untouched_def)

text \<open>A handler leaves alone what the relation \<open>R\<close> compares.\<close>

definition leaves :: "(kernel \<Rightarrow> kernel \<Rightarrow> bool) \<Rightarrow> kernel \<Rightarrow> (fault + kernel) \<Rightarrow> bool" where
  "leaves R k h \<longleftrightarrow> keeps h (R k)"

lemma leaves_simps [simp]: "leaves R k (Inl e)" "leaves R k (Inr k') = R k k'"
  by (simp_all add: leaves_def)

lemma leaves_rule: "ok_with h (R k) \<Longrightarrow> leaves R k h"
  by (auto simp: leaves_def ok_with_iff)

lemma leaves_mono: "leaves R k h \<Longrightarrow> (\<And>k'. R k k' \<Longrightarrow> S k k') \<Longrightarrow> leaves S k h"
  by (cases h) simp_all

section \<open>Processes\<close>

lemma schedule_untouched:
  assumes "struct_inv (lists k) (pools k)" and "\<And>r. running k = Some r \<Longrightarrow> loose (lists k) r \<and> r \<in> in_use k Pcb_buffer"
  shows "ok_with (internal_schedule k) (untouched k)"
  by (rule schedule_rule [OF assms]) (auto intro!: untouchedI)

lemma preempt_untouched: "kernel_ok k \<Longrightarrow> leaves untouched k (internal_preempt k)"
  unfolding internal_preempt_def
  by (rule leaves_rule, rule schedule_untouched) (use kernel_okD(1) running_loose in auto)

text \<open>
  The calls that do change something: a process is born, the caller dies, a result is written to the
  address \<open>a\<close>.
\<close>

definition births :: "ptr \<Rightarrow> kernel \<Rightarrow> kernel \<Rightarrow> bool" where
  "births p k k' \<longleftrightarrow> same_queues k k' \<and> alive k' = insert p (alive k) \<and> p \<notin> alive k \<and>
     (\<forall>x. x \<noteq> p \<longrightarrow> cpu_state (pcbs k' x) = cpu_state (pcbs k x)) \<and> user_mem k' = user_mem k \<and>
     (\<forall>x. syscall_args (pcbs k' x) = syscall_args (pcbs k x))"

definition dies :: "ptr \<Rightarrow> kernel \<Rightarrow> kernel \<Rightarrow> bool" where
  "dies r k k' \<longleftrightarrow> same_queues k k' \<and> alive k' = alive k - {r} \<and>
     (\<forall>x. cpu_state (pcbs k' x) = cpu_state (pcbs k x)) \<and> user_mem k' = user_mem k"

definition touches :: "int \<Rightarrow> kernel \<Rightarrow> kernel \<Rightarrow> bool" where
  "touches a k k' \<longleftrightarrow> same_queues k k' \<and> same_processes k k' \<and> (\<forall>x. x \<noteq> a \<longrightarrow> user_mem k' x = user_mem k x)"

lemma dies_trans: "untouched k k1 \<Longrightarrow> dies r k1 k2 \<Longrightarrow> untouched k2 k3 \<Longrightarrow> dies r k k3"
  by (simp add: dies_def untouched_def same_queues_def same_processes_def)

lemma new_child_births:
  assumes ok: "kernel_ok k" and run: "running k = Some r"
  shows "keeps (new_child r k) (\<lambda>(p, k'). births p k k')"
proof (rule new_child_cases [OF ok, of r])
  fix e assume "new_child r k = Inl e"
  then show ?thesis by simp
next
  assume room: "0 < room k Pcb_buffer" "0 < room k Pcb_ptr_buffer" "last_pid k < 2 ^ 31 - 1"
  have zombies: "set (lst k Zombie_list) \<subseteq> in_use k Pcb_buffer" using struct_live [OF kernel_okD(1) [OF ok]] by fastforce
  have "ok_with (new_child r k) (\<lambda>(p, k'). births p k k')"
    by (rule new_child_rule [OF ok run room])
      (use zombies in \<open>auto simp: births_def alive_def upd_pcb_at intro!: same_queuesI dest: new_link\<close>)
  then show ?thesis by (rule keeps_ok)
qed

text \<open>The child of \<open>fork\<close> has the context of its block, that of \<open>spawn\<close> enters the given function.\<close>

lemma fork_births:
  assumes "kernel_ok k" and "running k = Some r"
  shows "leaves (\<lambda>k k'. \<exists>p. births p k k') k (internal_fork k)"
  using new_child_births [OF assms] assms(2)
  by (cases "new_child r k") (auto simp: internal_fork_def)

lemma births_entered: "births p k k1 \<Longrightarrow> births p k (upd_pcb p (\<lambda>b. b\<lparr>cpu_state := c\<rparr>) k1)"
  by (simp add: births_def alive_def upd_pcb_at)

lemma spawn_births:
  assumes "kernel_ok k" and "running k = Some r"
  shows "leaves (\<lambda>k k'. \<exists>p. births p k k' \<and>
    cpu_state (pcbs k' p) = Ctx_entry (syscall_args (pcbs k r) 0) (syscall_args (pcbs k r) 1)) k (internal_spawn k)"
proof (cases "new_child r k")
  case (Inr pk)
  obtain p k1 where pk: "pk = (p, k1)" by (cases pk)
  have b: "births p k k1" using new_child_births [OF assms] by (simp add: Inr pk)
  then have "syscall_args (pcbs k1 r) = syscall_args (pcbs k r)" by (simp add: births_def)
  with births_entered [OF b] show ?thesis
    by (auto simp: internal_spawn_def assms(2) Inr pk intro!: exI [of _ p])
qed (simp add: internal_spawn_def assms(2))

lemma reaped_alive:
  assumes "struct_inv (lists k) (pools k)" and "z \<in> set (lst k Zombie_list)"
    and "in_use k' Pcb_buffer = in_use k Pcb_buffer - {z}" and "lst k' Zombie_list = remove1 z (lst k Zombie_list)"
  shows "alive k' = alive k"
  using assms struct_distinct [OF assms(1), of Zombie_list] by (auto simp: alive_def)

lemma wait_touches:
  assumes ok: "kernel_ok k" and run: "running k = Some r"
  shows "leaves (touches (syscall_args (pcbs k r) 1)) k (internal_wait k)"
proof (cases "lst k (Children r) = []")
  case True
  then show ?thesis by (simp add: wait_no_child [OF ok run] touches_def)
next
  case kids: False
  note S = kernel_okD [OF ok]
  show ?thesis
  proof (cases "awaited r k")
    case (Some z)
    with find_Some_iff_first have z: "z \<in> set (lst k Zombie_list)" "parent (pcbs k z) = Some r"
      by (fastforce simp: awaited_def Let_def)+
    let ?k = "\<lambda>m P. (store_result (syscall_args (pcbs k r) 1) (return_value (pcbs k z)) k)\<lparr>lists := m, pools := P\<rparr>"
    obtain w m P where reap: "reap_child r z (syscall_args (pcbs k r) 1) k = Inr (pid (pcbs k z), ?k m P)"
      "contents m = (lst k)(Zombie_list := remove1 z (lst k Zombie_list), Children r := remove1 w (lst k (Children r)))"
      and P: "live (P Pcb_buffer) = in_use k Pcb_buffer - {z}"
      using reap_eq [OF ok z, of "syscall_args (pcbs k r) 1"] by (metis (full_types) region.distinct(1))
    then have "same_queues k (?k m P)" by (intro same_queuesI) simp_all
    moreover have "alive (?k m P) = alive k" by (rule reaped_alive [OF S(1) z(1)]) (simp_all add: reap P)
    ultimately have "touches (syscall_args (pcbs k r) 1) k (?k m P)"
      by (simp add: touches_def same_processes_def store_result_def)
    with reap(1) Some kids show ?thesis
      by (simp add: internal_wait_def Let_def run list_first_lst [OF S(1)] scan_lst [OF S(1)] awaited_def touches_def)
  next
    case None
    show ?thesis
    proof (cases "lst k Ready_list")
      case Nil
      then show ?thesis by (simp add: wait_fault [OF ok run kids None])
    next
      case (Cons p ps)
      note R = running_loose [OF ok run]
      have "leaves untouched k (internal_wait k)"
        unfolding wait_block_eq [OF ok run kids None]
        apply (rule leaves_rule, simp add: ok_with_and_then)
        apply (rule append_rule)
        subgoal using S(1) by simp
        subgoal using R by simp
        subgoal using R by simp
        subgoal for m
          using Cons by (simp, intro detach_first_rule) (auto simp: untouchedI)
        done
      then show ?thesis by (rule leaves_mono) (simp add: touches_def untouched_def)
    qed
  qed
qed

lemma exit_dies:
  assumes ok: "kernel_ok k" and run: "running k = Some r"
  shows "leaves (dies r) k (internal_exit k)"
proof (cases "init_pcb k \<noteq> Some r \<or> lst k (Children r) = []")
  case False
  then show ?thesis by (simp add: exit_diverges [OF ok run])
next
  case pre: True
  let ?k1 = "upd_pcb r (\<lambda>b. b\<lparr>return_value := to_int (syscall_args b 0)\<rparr>) k"
  have ok1: "kernel_ok ?k1" and run1: "running ?k1 = Some r" using run by (auto intro: upd_ok [OF ok])
  have pre1: "init_pcb ?k1 \<noteq> Some r \<or> lst ?k1 (Children r) = []" using pre by simp
  have "ok_with (internal_exit k) (dies r ?k1)"
    unfolding internal_exit_def run deref.simps and_then.simps Let_def ok_with_and_then
  proof (rule ok_with_mono [OF exit_handover [OF ok1 run1 pre1]], elim conjE exE)
    fix k2 i
    assume k2: "kernel_ok k2" "lst k2 (Children r) = []" and h: "handed_over r i ?k1 (lst ?k1 (Children r)) [] k2"
    then have s2: "untouched ?k1 k2" and run2: "running k2 = Some r"
      using run1 by (auto simp: effects intro!: untouchedI)
    show "ok_with (k_append Zombie_list r (set_status r Zombie k2)) (\<lambda>k3. ok_with (wake_waiting_parent r k3)
      (\<lambda>k4. ok_with (internal_schedule (k4\<lparr>running := None\<rparr>)) (dies r ?k1)))"
    proof (rule ok_with_mono [OF zombie_ok [OF k2(1) run2 k2(2)]], elim conjE exE)
      fix k3 m3
      assume ok3: "kernel_ok (k3\<lparr>running := None\<rparr>)" and m3: "contents m3 = (lst k2)(Zombie_list := lst k2 Zombie_list @ [r])"
        "k3 = set_status r Zombie (k2\<lparr>lists := m3\<rparr>)"
      then have "same_queues k2 k3" by (auto intro!: same_queuesI)
      then have s3: "dies r k2 k3" using m3 by (auto simp: dies_def alive_def)
      have r: "r \<in> in_use k3 Pcb_buffer" using running_loose [OF k2(1) run2] by (simp add: m3(2))
      show "ok_with (wake_waiting_parent r k3) (\<lambda>k4. ok_with (internal_schedule (k4\<lparr>running := None\<rparr>)) (dies r ?k1))"
      proof (rule ok_with_mono [OF wake_parent_ok [OF ok3 r]], elim conjE exE)
        fix k4 m4
        assume ok4: "kernel_ok (k4\<lparr>running := None\<rparr>)" and m4: "contents m4 = (lst k3)
            (Waiting_list := [p \<leftarrow> lst k3 Waiting_list. p \<notin> set (woken_parent r k3)],
             Ready_list := lst k3 Ready_list @ woken_parent r k3)"
          "k4 = k3\<lparr>lists := m4, pcbs := (\<lambda>p. if p \<in> set (woken_parent r k3) then (pcbs k3 p)\<lparr>status := Ready\<rparr> else pcbs k3 p)\<rparr>"
        then have "untouched k3 (k4\<lparr>running := None\<rparr>)" by (auto intro!: untouchedI)
        from dies_trans [OF s2 s3 this] have "dies r ?k1 (k4\<lparr>running := None\<rparr>)" .
        then have "untouched (k4\<lparr>running := None\<rparr>) k5 \<Longrightarrow> dies r ?k1 k5" for k5
          by (rule dies_trans [OF untouched_refl])
        then show "ok_with (internal_schedule (k4\<lparr>running := None\<rparr>)) (dies r ?k1)"
          by (intro ok_with_mono [OF schedule_untouched]) (use kernel_okD(1) [OF ok4] in auto)
      qed
    qed
  qed
  then show ?thesis by (intro leaves_rule, elim ok_with_mono) (simp add: dies_def alive_def)
qed

section \<open>Timers\<close>

lemma sleep_untouched:
  assumes ok: "kernel_ok k" and run: "running k = Some r"
  shows "leaves untouched k (internal_sleep k)"
proof (cases "- (2 ^ 31) \<le> disastrOS_time k + arg_int k r 0 \<and> disastrOS_time k + arg_int k r 0 < 2 ^ 31")
  case False
  then show ?thesis by (simp add: sleep_overflow [OF ok run])
next
  case t: True
  note S = kernel_okD [OF ok]
  note R = running_loose [OF ok run]
  have tm: "timer (pcbs k r) = None" using S(5) R by (simp add: timers_ok_def)
  have add: "add_int (disastrOS_time k) (arg_int k r 0) = Inr (disastrOS_time k + arg_int k r 0)"
    by (rule add_int_ok) (use t in simp_all)
  show ?thesis
  proof (rule leaves_rule)
    show "ok_with (internal_sleep k) (untouched k)"
      unfolding internal_sleep_def run
      apply (simp add: tm add Let_def ok_with_and_then)
      apply (rule TimerList_add_rule [OF S(1)])
      subgoal by simp
      subgoal for t m P
        apply (cases "t = r")
        subgoal using R struct_region [OF S(1), of r Pcb_buffer] by (simp add: pools_take_def)
        apply (simp add: ok_with_and_then)
        apply (rule append_rule)
        subgoal by simp
        subgoal using R by simp
        subgoal using R by (simp add: pools_take_def)
        apply (rule sleep_tail_rule)
        subgoal by simp
        subgoal by (simp, rule untouchedI) (simp_all add: pools_take_def)
        done
      done
  qed
qed

lemma wake_all_untouched:
  "kernel_ok k \<Longrightarrow> ok_with (wake_all_expired k) (\<lambda>k'. kernel_ok k' \<and> untouched k k')"
proof (induction "lst k Timer_list" arbitrary: k)
  case Nil
  note S = kernel_okD [OF Nil(2)]
  from Nil(1) have "TimerList_current Timer_list (disastrOS_time k) k = None"
    by (simp add: TimerList_current_def list_first_lst [OF S(1)])
  then show ?case using Nil by (simp add: wake_all_expired_def c_while_stop)
next
  case (Cons t ts)
  note S = kernel_okD [OF Cons(3)]
  note ts = Cons(2) [symmetric]
  show ?case
  proof (cases "TimerList_current Timer_list (disastrOS_time k) k")
    case None
    then show ?thesis using Cons(3) by (simp add: wake_all_expired_def c_while_stop)
  next
    case (Some t')
    then have cur: "TimerList_current Timer_list (disastrOS_time k) k \<noteq> None"
      and exp: "awakening_time (timer_items k t) \<le> disastrOS_time k"
      by (simp_all add: TimerList_current_def list_first_lst [OF S(1)] ts split: if_splits)
    have "ok_with (wake_expired k) (\<lambda>k1. ok_with (wake_all_expired k1) (\<lambda>k'. kernel_ok k' \<and> untouched k k'))"
    proof (rule ok_with_mono [OF wake_expired_ok [OF Cons(3) ts exp refl]], elim conjE exE)
      fix k1 m P
      assume k1: "kernel_ok k1" "live (P Pcb_buffer) = in_use k Pcb_buffer" "contents m = (lst k)(Timer_list := ts,
         Waiting_list := remove1 (timer_pcb (timer_items k t)) (lst k Waiting_list),
         Ready_list := lst k Ready_list @ [timer_pcb (timer_items k t)])"
        "k1 = upd_pcb (timer_pcb (timer_items k t)) (\<lambda>b. b\<lparr>timer := None, status := Ready\<rparr>) (k\<lparr>pools := P, lists := m\<rparr>)"
      then have s: "untouched k k1" by (simp, intro untouchedI) simp_all
      have "ts = lst k1 Timer_list" by (simp add: k1)
      then show "ok_with (wake_all_expired k1) (\<lambda>k'. kernel_ok k' \<and> untouched k k')"
        by (intro ok_with_mono [OF Cons(1) [OF _ k1(1)]]) (auto intro: untouched_trans [OF s])
    qed
    then show ?thesis
      unfolding wake_all_expired_def
      by (subst c_while_step [where s = k and b = "\<lambda>k. TimerList_current Timer_list (disastrOS_time k) k \<noteq> None", OF cur])
        (simp add: ok_with_and_then)
  qed
qed

lemma interrupt_untouched:
  assumes ok: "kernel_ok k"
  shows "keeps (timerInterrupt k) (\<lambda>(c, k'). untouched k k')"
proof (cases "add_int (disastrOS_time k) 1")
  case (Inl e)
  then show ?thesis by (simp add: timerInterrupt_def Let_def)
next
  case (Inr now)
  let ?k2 = "(log_out (log_line (disastrOS_time k) (running_pid k) ''TIMER_OUT'') k)\<lparr>disastrOS_time := now\<rparr>"
  have k2: "kernel_ok ?k2" "untouched k ?k2" using ok by (auto intro!: untouchedI)
  have "ok_with (wake_all_expired ?k2) (\<lambda>k3. ok_with (timer_dispatch k3) (untouched k))"
    unfolding timer_dispatch_eq
    by (rule ok_with_mono [OF wake_all_untouched [OF k2(1)]], rule ok_with_mono [OF schedule_untouched])
      (use kernel_okD(1) running_loose k2(2) in \<open>auto intro: untouched_trans\<close>)
  with Inr show ?thesis
    by (auto simp: timerInterrupt_def Let_def ok_with_iff split: option.split)
qed

text \<open>The handler of the signal saves the running process first.\<close>

definition saved :: "kernel \<Rightarrow> kernel" where
  "saved k = (case running k of None \<Rightarrow> k | Some r \<Rightarrow> upd_pcb r (\<lambda>b. b\<lparr>cpu_state := Ctx_saved\<rparr>) k)"

lemma saved_simps [simp]:
  "kernel_ok k \<Longrightarrow> kernel_ok (saved k)" "same_queues k (saved k)" "user_mem (saved k) = user_mem k"
  "alive (saved k) = alive k" "lists (saved k) = lists k" "shutdown_now (saved k) = shutdown_now k"
  by (auto simp: saved_def upd_ok alive_def split: option.split)

lemma handler_tick_untouched:
  assumes ok: "kernel_ok k"
  shows "keeps (timerHandler k) (\<lambda>(c, k'). untouched (saved k) k')"
  using interrupt_untouched [of "saved k"] ok unfolding timerHandler_def saved_def [symmetric] by simp

lemma handler_tick_queues:
  assumes ok: "kernel_ok k"
  shows "keeps (timerHandler k) (\<lambda>(c, k'). same_queues k k')"
  by (rule keeps_mono [OF handler_tick_untouched [OF ok]])
    (auto simp: untouched_def intro: same_queues_trans [OF saved_simps(2)])

section \<open>Resources\<close>

lemma open_descriptor_untouched:
  assumes ok: "kernel_ok k" and run: "running k = Some r"
  shows "leaves untouched k (open_descriptor r res k)"
proof -
  note S = kernel_okD [OF ok]
  consider "room k Descriptor_buffer \<le> 0"
    | "0 < room k Descriptor_buffer" "\<not> (- (2 ^ 31) \<le> last_fd (pcbs k r) + 1 \<and> last_fd (pcbs k r) + 1 < 2 ^ 31)"
    | "0 < room k Descriptor_buffer" "- (2 ^ 31) \<le> last_fd (pcbs k r) + 1" "last_fd (pcbs k r) + 1 < 2 ^ 31"
    by linarith
  then show ?thesis
  proof cases
    case 1
    then show ?thesis by (simp add: open_descriptor_full [OF S(1)])
  next
    case 2
    then show ?thesis by (simp add: open_descriptor_overflow [OF S(1)])
  next
    case 3
    show ?thesis
      by (rule leaves_rule, rule open_descriptor_rule [OF S(1)])
        (use 3 running_loose [OF ok run] descriptor_rooms [OF S(10)] in \<open>auto intro!: untouchedI\<close>)
  qed
qed

lemma open_untouched:
  assumes ok: "kernel_ok k" and run: "running k = Some r"
  shows "leaves untouched k (internal_openResource k)"
proof -
  have checked: "leaves untouched k (if res_type (resources k1 res) \<noteq> ty then Inr (set_retvalue r DSOS_ERESOURCEOPEN k1)
         else if has_flag mode DSOS_EXCL \<and> list_size (Descriptors_ptrs res) k1 \<noteq> 0 then
           Inr (set_retvalue r DSOS_ERESOURCENOEXCL k1)
         else open_descriptor r res k1)"
    if "kernel_ok k1" "running k1 = Some r" "untouched k k1" for k1 res ty mode
    using open_descriptor_untouched [OF that(1,2), of res] that(3)
    by (cases "open_descriptor r res k1") (auto intro: untouched_trans)
  show ?thesis
  proof (cases "has_flag (arg_int k r 2) DSOS_CREATE")
    case False
    then show ?thesis
      using open_descriptor_untouched [OF ok run]
      by (auto simp: open_existing_eq [OF ok run refl refl refl] open_checked_def split: option.split)
  next
    case flag: True
    show ?thesis
    proof (cases "resource_named (arg_int k r 0) k = None \<and> 0 < room k Resources_buffer")
      case True
      have "ok_with (open_lookup (arg_int k r 0) (arg_int k r 1) (arg_int k r 2) None k) (\<lambda>(res', k1). kernel_ok k1 \<and>
          running k1 = Some r \<and> untouched k k1 \<and> res' \<noteq> None)"
        by (rule create_rule [OF ok _ _ flag]) (use True run in \<open>auto simp: untouchedI\<close>)
      then obtain res k1 where "open_lookup (arg_int k r 0) (arg_int k r 1) (arg_int k r 2) None k = Inr (Some res, k1)"
        "kernel_ok k1" "running k1 = Some r" "untouched k k1"
        by (auto simp: ok_with_iff)
      with checked True show ?thesis
        unfolding open_eq [OF ok run refl refl refl] by (simp del: One_nat_def)
    next
      case False
      then show ?thesis
        using open_exists [OF ok run flag] open_full [OF ok run flag]
        by (cases "resource_named (arg_int k r 0) k") simp_all
    qed
  qed
qed

lemma close_untouched:
  assumes ok: "kernel_ok k" and run: "running k = Some r"
  shows "leaves untouched k (internal_closeResource k)"
proof (cases "List.find (\<lambda>d. des_fd (descriptors k d) = arg_int k r 0) (lst k (Descriptors r))")
  case None
  then show ?thesis by (simp add: close_unknown [OF ok run])
next
  case (Some d)
  note S = kernel_okD [OF ok]
  have d: "d \<in> set (lst k (Descriptors r))" using find_Some_iff_first [OF Some] by simp
  from descriptor_link [OF S(10) d] obtain w where w: "des_ptr (descriptors k d) = Some w"
    "descriptor_ptrs k w = d" "w \<in> set (lst k (Descriptors_ptrs (des_resource (descriptors k d))))" by blast
  show ?thesis
    by (rule leaves_rule, rule close_rule [OF S(1) d w(1,3) Some run refl]) (auto intro!: untouchedI)
qed

lemma destroy_untouched:
  assumes ok: "kernel_ok k" and run: "running k = Some r"
  shows "leaves untouched k (internal_destroyResource k)"
proof (cases "resource_named (arg_int k r 0) k")
  case None
  then show ?thesis by (simp add: destroy_refused [OF ok run])
next
  case (Some res)
  note S = kernel_okD [OF ok]
  have res: "res \<in> set (lst k Resources_list)" using resource_named_Some [OF Some] by simp
  have live: "res \<in> in_use k Resources_buffer" using struct_live [OF S(1) res] by simp
  show ?thesis
  proof (cases "lst k (Descriptors_ptrs res) = []")
    case False
    then show ?thesis by (simp add: destroy_refused(2) [OF ok run Some])
  next
    case True
    show ?thesis
      unfolding internal_destroyResource_def run
      apply (rule leaves_rule)
      apply (simp add: Let_def byId_lst [OF S(1)] Some list_size_lst [OF S(1)] True ok_with_and_then)
      apply (rule detach_rule [OF S(1) res])
      apply (simp add: Resource_free_def list_lst True ok_with_and_then)
      apply (rule release_rule)
      subgoal by simp
      subgoal using live by simp
      subgoal by (simp add: loose_def)
      subgoal by (simp, rule untouchedI) (simp_all add: pools_give_def)
      done
  qed
qed

section \<open>The queues themselves\<close>

text \<open>A call on one queue leaves the others alone; \<open>bq_others\<close> says so of the queues that exist.\<close>

definition bq_others :: "ptr option \<Rightarrow> kernel \<Rightarrow> kernel \<Rightarrow> bool" where
  "bq_others q k k' \<longleftrightarrow>
     (\<forall>q' \<in> set (lst k Bq_registry). q \<noteq> Some q' \<longrightarrow> queue_view k' q' = queue_view k q' \<and> q' \<in> set (lst k' Bq_registry))"

lemma same_others: "same_queues k k' \<Longrightarrow> bq_others q k k'"
  by (simp add: same_queues_def bq_others_def)

lemma leaves_others: "leaves same_queues k h \<Longrightarrow> keeps h (bq_others q k)"
  by (cases h) (simp_all add: same_others)

lemma create_others:
  assumes ok: "kernel_ok k" and run: "running k = Some r"
  shows "keeps (internal_bq_create k) (bq_others q k)"
proof (cases "0 < arg_int k r 1 \<and> bqueue_named (arg_int k r 0) k = None \<and> 0 < room k Bq_buffer")
  case False
  then show ?thesis
    using bq_create_refused [OF ok run]
    by (cases "0 < arg_int k r 1"; cases "bqueue_named (arg_int k r 0) k") (auto simp: bq_others_def queue_view_def)
next
  case True
  have "bq_others q k k'" if "created r (arg_int k r 0) (arg_int k r 1) k k'" for k'
    using that by (auto simp: effects bq_others_def queue_view_def)
  with True bq_create_ok [OF ok run] show ?thesis by (intro keeps_ok [of _ "\<lambda>k'. kernel_ok k' \<and> created r (arg_int k r 0) (arg_int k r 1) k k'"]) auto
qed

lemma delete_others:
  assumes ok: "kernel_ok k" and run: "running k = Some r"
  shows "keeps (internal_bq_delete k) (bq_others (bqueue_named (arg_int k r 0) k) k)"
proof (cases "bqueue_named (arg_int k r 0) k")
  case None
  then show ?thesis by (simp add: bq_delete_refused(1) [OF ok run] same_others)
next
  case (Some q)
  show ?thesis
  proof (cases "lst k (Wait_getters q) = [] \<and> lst k (Wait_putters q) = []")
    case False
    with bq_delete_refused(2) [OF ok run Some] show ?thesis by (auto simp: same_others)
  next
    case True
    have "bq_others (Some q) k k'" if "deleted q r k k'" for k'
      using that by (auto simp: effects bq_others_def queue_view_def)
    with bq_delete_ok [OF ok run Some] True Some show ?thesis by (auto intro: keeps_ok)
  qed
qed


lemma refined_others: "bq_refines q r step k k' \<Longrightarrow> bq_others (Some q) k k'"
  by (auto simp: bq_refines_def bq_others_def)

lemma bq_dump_untouched:
  "kernel_ok k \<Longrightarrow> running k = Some r \<Longrightarrow> leaves untouched k (internal_bq_dump k)"
  by (simp add: bq_dump_eq split: option.split)


lemma put_others:
  assumes ok: "kernel_ok k" and run: "running k = Some r" and call: "syscall_num (pcbs k r) = DSOS_CALL_BQ_PUT"
  shows "keeps (internal_bq_put k) (bq_others (bqueue_named (arg_int k r 0) k) k)"
proof (cases "bqueue_named (arg_int k r 0) k")
  case None
  then show ?thesis by (simp add: put_unknown [OF ok run] same_others)
next
  case q: (Some q)
  show ?thesis
  proof (cases "lst k (Wait_getters q) = []")
    case False
    show ?thesis
      by (rule keeps_ok [OF put_deliver_ok [OF ok run q False]])
        (auto simp: q intro: refined_others delivered_refines run)
  next
    case none: True
    consider "int (length (lst k (Items q))) < bq_capacity (bqueues k q)" "0 < room k Bqitem_buffer"
      | "int (length (lst k (Items q))) < bq_capacity (bqueues k q)" "room k Bqitem_buffer \<le> 0"
      | "bq_capacity (bqueues k q) \<le> int (length (lst k (Items q)))" "0 < room k Pcb_ptr_buffer"
      | "bq_capacity (bqueues k q) \<le> int (length (lst k (Items q)))" "room k Pcb_ptr_buffer \<le> 0"
      by linarith
    then show ?thesis
    proof cases
      case 1
      show ?thesis
        by (rule keeps_ok [OF put_buffer_ok [OF ok run q none 1]])
          (auto simp: q intro: refined_others buffered_refines [OF _ run none 1(1)])
    next
      case 2
      then show ?thesis by (simp add: put_pool_full [OF ok run q none 2] same_others)
    next
      case 3
      show ?thesis
        by (rule keeps_ok [OF put_blocks [OF ok run call q 3]])
          (auto simp: q intro!: refined_others blocked_refines [OF ok _ run] blocked_waits)
    next
      case 4
      then show ?thesis by (simp add: put_cases [OF ok run q none] block_on_full [OF ok])
    qed
  qed
qed

lemma get_others:
  assumes ok: "kernel_ok k" and run: "running k = Some r" and call: "syscall_num (pcbs k r) = DSOS_CALL_BQ_GET"
  shows "keeps (internal_bq_get k) (bq_others (bqueue_named (arg_int k r 0) k) k)"
proof (cases "bqueue_named (arg_int k r 0) k")
  case None
  then show ?thesis by (simp add: get_unknown [OF ok run] same_others)
next
  case q: (Some q)
  show ?thesis
  proof (cases "lst k (Items q)")
    case Nil
    show ?thesis
    proof (cases "0 < room k Pcb_ptr_buffer")
      case True
      show ?thesis
        by (rule keeps_ok [OF get_blocks [OF ok run call q Nil True]])
          (auto simp: q intro!: refined_others blocked_refines [OF ok _ run] blocked_waits)
    next
      case False
      then show ?thesis using Nil by (simp add: get_eq [OF ok run q] block_on_full [OF ok])
    qed
  next
    case (Cons it its)
    show ?thesis
    proof (cases "lst k (Wait_putters q) = []")
      case True
      show ?thesis
        by (rule keeps_ok [OF get_takes [OF ok run q Cons True]])
          (auto simp: q intro: refined_others taken_refines [OF _ run True])
    next
      case False
      show ?thesis
        by (rule keeps_ok [OF get_refills [OF ok run q Cons False]])
          (auto simp: q intro: refined_others refilled_refines [OF _ _ run])
    qed
  qed
qed

section \<open>System calls\<close>

text \<open>The queue that a call works on.\<close>

definition queue_of_call :: "syscall_fn \<Rightarrow> (nat \<Rightarrow> int) \<Rightarrow> kernel \<Rightarrow> ptr option" where
  "queue_of_call f regs k =
     (if f \<in> {Fn_bq_put, Fn_bq_get, Fn_bq_delete} then bqueue_named (to_int (regs 0)) k else None)"

lemma handler_others:
  assumes ok: "kernel_ok k" and run: "running k = Some r" and call: "syscall_num (pcbs k r) = code_of f"
  shows "keeps (run_handler f k) (\<lambda>(c, k'). bq_others (queue_of_call f (syscall_args (pcbs k r)) k) k k')"
proof -
  have others: "keeps (returning h) (\<lambda>(c, k'). bq_others q k k')" if "keeps h (bq_others q k)" for h q
    using that by (cases h) (auto simp: returning_def)
  note queues = leaves_mono [where S = same_queues]
  have un: "untouched k k' \<Longrightarrow> same_queues k k'" "touches a k k' \<Longrightarrow> same_queues k k'" "births p k k' \<Longrightarrow> same_queues k k'"
    "dies p k k' \<Longrightarrow> same_queues k k'" for a p k'
    by (simp_all add: untouched_def touches_def births_def dies_def)
  have "same_queues k (internal_shutdown k)" by (simp add: internal_shutdown_def same_queues_def queue_view_def)
  then show ?thesis
    using call
    by (cases f)
      (auto simp: queue_of_call_def intro!: others intro: same_others leaves_others queues [OF fork_births [OF ok run]]
        queues [OF spawn_births [OF ok run]] queues [OF wait_touches [OF ok run]] queues [OF exit_dies [OF ok run]]
        queues [OF sleep_untouched [OF ok run]] queues [OF preempt_untouched [OF ok]] queues [OF open_untouched [OF ok run]]
        queues [OF close_untouched [OF ok run]] queues [OF destroy_untouched [OF ok run]] queues [OF bq_dump_untouched [OF ok run]]
        un create_others [OF ok run] delete_others [OF ok run] put_others [OF ok run] get_others [OF ok run])
qed

text \<open>From the call to the end of its trap.\<close>

lemma log_others [simp]: "bq_others q (log_out s k) k' = bq_others q k k'"
  by (simp add: bq_others_def queue_view_def)

lemma return_others:
  "bq_others q k k1 \<Longrightarrow> keeps (return_to_process n k1) (\<lambda>(c, k'). bq_others q k k')"
  by (auto simp: return_to_process_def keeps_def bq_others_def queue_view_def split: option.splits)

lemma trap_others:
  assumes ok: "kernel_ok k" and run: "running k = Some r"
    and q: "\<And>f. syscall_num (pcbs k r) = code_of f \<Longrightarrow> queue_of_call f (syscall_args (pcbs k r)) k = q"
  shows "keeps (disastrOS_trap k) (\<lambda>(c, k'). bq_others q k k')"
proof -
  let ?n = "syscall_num (pcbs k r)"
  let ?k = "log_out (log_line (disastrOS_time k) (pid (pcbs k r)) (''SYSCALL_IN '' @ show_int ?n)) k"
  have ok': "kernel_ok ?k" and run': "running ?k = Some r" using ok run by simp_all
  have err: "keeps (return_to_process ?n (set_retvalue r v ?k)) (\<lambda>(c, k'). bq_others q k k')" for v
    by (rule return_others) (simp add: same_others)
  have "keeps (and_then (run_handler f ?k) (\<lambda>(jump, k2). case jump of
      Some c \<Rightarrow> Inr (c, k2) | None \<Rightarrow> return_to_process ?n k2)) (\<lambda>(c, k'). bq_others q k k')"
    if "arr_read syscall_vector ?n = Inr (Some f)" for f
  proof -
    have "queue_of_call f (syscall_args (pcbs ?k r)) ?k = q"
      using q [OF vector_code [OF that]] by (auto simp: queue_of_call_def bqueue_named_def split: if_splits)
    with handler_others [OF ok' run', of f] vector_code [OF that]
    have "keeps (run_handler f ?k) (\<lambda>(c, k'). bq_others q k k')" by simp
    then show ?thesis
      by (intro keeps_then, elim keeps_mono) (auto split: option.split intro: return_others)
  qed
  with err show ?thesis
    by (auto simp: disastrOS_trap_def run Let_def simp del: run_handler.simps intro!: keeps_then split: option.split)
      (auto simp: keeps_def split: sum.split option.split)
qed

text \<open>The queue that the number and the first argument of a call name.\<close>

definition queue_of_syscall :: "int \<Rightarrow> int list \<Rightarrow> kernel \<Rightarrow> ptr option" where
  "queue_of_syscall n va k =
     (if n \<in> {DSOS_CALL_BQ_PUT, DSOS_CALL_BQ_GET, DSOS_CALL_BQ_DELETE} then bqueue_named (to_int (hd va)) k else None)"

lemma copy_args_low: "copy_args m i va regs = Inr regs' \<Longrightarrow> j < i \<Longrightarrow> regs' j = regs j"
proof (induction m arbitrary: i va regs)
  case (Suc m)
  then show ?case by (cases va) force+
qed simp

lemma copy_args_first: "copy_args m 0 va regs = Inr regs' \<Longrightarrow> 0 < m \<Longrightarrow> regs' 0 = hd va"
  by (cases m; cases va) (auto dest: copy_args_low)

lemma code_of_bq:
  "code_of f = DSOS_CALL_BQ_PUT \<longleftrightarrow> f = Fn_bq_put" "code_of f = DSOS_CALL_BQ_GET \<longleftrightarrow> f = Fn_bq_get"
  "code_of f = DSOS_CALL_BQ_DELETE \<longleftrightarrow> f = Fn_bq_delete"
  by (cases f; simp add: dsos_consts)+

lemma queue_of_code:
  assumes "copy_args (numarg f) 0 va regs0 = Inr regs" and "\<And>qid. bqueue_named qid k1 = bqueue_named qid k"
  shows "queue_of_call f regs k1 = queue_of_syscall (code_of f) va k"
  using assms copy_args_first [of "numarg f" va regs0 regs]
  by (auto simp: queue_of_call_def queue_of_syscall_def code_of_bq numarg_values)

lemma syscall_others:
  assumes ok: "kernel_ok k" and call: "disastrOS_syscall n va k = Inr (Inr (c, k'))"
  shows "bq_others (queue_of_syscall n va k) k k'"
proof -
  from call obtain r m regs where run: "running k = Some r" and m: "arr_read syscall_numarg n = Inr m"
    and regs: "copy_args (nat m) 0 va (syscall_args (pcbs k r)) = Inr regs"
    and trap: "disastrOS_trap (upd_pcb r (\<lambda>b. b\<lparr>syscall_args := regs, syscall_num := n, cpu_state := Ctx_saved\<rparr>) k) = Inr (c, k')"
    by (cases "running k") (auto simp: disastrOS_syscall_def Let_def and_then_Inr_iff split: if_splits)
  let ?k = "upd_pcb r (\<lambda>b. b\<lparr>syscall_args := regs, syscall_num := n, cpu_state := Ctx_saved\<rparr>) k"
  have k: "kernel_ok ?k" "running ?k = Some r" "syscall_num (pcbs ?k r) = n" "syscall_args (pcbs ?k r) = regs"
    using running_notin [OF ok run] run by (auto intro!: upd_ok [OF ok])
  have q: "queue_of_call f (syscall_args (pcbs ?k r)) ?k = queue_of_syscall n va k" if "n = code_of f" for f
  proof -
    have "copy_args (numarg f) 0 va (syscall_args (pcbs k r)) = Inr regs" using regs m that by (auto simp: numarg_read)
    then have "queue_of_call f regs ?k = queue_of_syscall (code_of f) va k" by (rule queue_of_code) (simp add: bqueue_named_def)
    with that k(4) show ?thesis by simp
  qed
  have "bq_others (queue_of_syscall n va k) ?k k'"
    using trap_others [OF k(1,2), unfolded k(3), OF q] by (simp add: trap)
  moreover have "same_queues ?k (trapped r n regs k)" by (simp add: trapped_def)
  ultimately show ?thesis
    using trapped_view [OF ok run] by (simp add: bq_others_def same_queues_def)
qed


section \<open>Steps of the machine\<close>

lemma resume_queues:
  assumes ok: "kernel_ok k" and main: "control_ok To_main k" and go: "start_resume f f_args logging k = Inr (Some (c, k'))"
  shows "same_queues k k'"
proof -
  note S = kernel_okD [OF ok]
  have n: "shutdown_now k = 0" using go by (auto simp: start_resume_def split: if_splits)
  then have room: "0 < room k Pcb_buffer" and lp: "last_pid k < 2 ^ 31 - 1"
    using go start_resume_full [OF ok n, of f f_args logging] start_resume_overflow [OF ok n, of f f_args logging]
    by fastforce+
  have lp0: "0 \<le> last_pid k" using S(4) by (simp add: pids_ok_def)
  have "ok_with (start_resume f f_args logging k) (\<lambda>res. \<forall>c k'. res = Some (c, k') \<longrightarrow> same_queues k k')"
    unfolding start_resume_def
    apply (simp add: n ok_with_and_then)
    apply (rule PCB_alloc_rule [OF S(1) room lp0 lp])
    subgoal by (auto simp: Let_def intro!: same_queuesI)
    done
  with go show ?thesis by simp
qed

lemma status_queues:
  assumes "kernel_ok k" and "disastrOS_printStatus k = Inr k'"
  shows "same_queues k k'"
  using printStatus_total [OF kernel_okD(1) [OF assms(1)]] assms(2) by auto

text \<open>The steps of the machine that are not a call of put, get or delete on the queue \<open>q\<close>.\<close>

inductive elsewhere :: "ptr \<Rightarrow> int \<Rightarrow> int \<Rightarrow> bool \<Rightarrow> machine \<Rightarrow> machine \<Rightarrow> bool"
  for q :: ptr and f :: int and f_args :: int and logging :: bool
where
  Call: "disastrOS_syscall n va k = Inr (Inr (c, k')) \<Longrightarrow> queue_of_syscall n va k \<noteq> Some q \<Longrightarrow>
    elsewhere q f f_args logging (In_process, k) (enter c k', k')"
| Refuse: "disastrOS_syscall n va k = Inr (Inl v) \<Longrightarrow>
    elsewhere q f f_args logging (In_process, k) (In_process, k)"
| Tick: "timerHandler k = Inr (c, k') \<Longrightarrow> elsewhere q f f_args logging (In_process, k) (enter c k', k')"
| Write: "elsewhere q f f_args logging (In_process, k) (In_process, k\<lparr>user_mem := mem\<rparr>)"
| Print: "elsewhere q f f_args logging (In_process, k) (In_process, print_out s k)"
| Status: "disastrOS_printStatus k = Inr k' \<Longrightarrow> elsewhere q f f_args logging (In_process, k) (In_process, k')"
| Interrupt: "timerInterrupt k = Inr (c, k') \<Longrightarrow> elsewhere q f f_args logging (In_interrupt, k) (enter c k', k')"
| Resume: "start_resume f f_args logging k = Inr (Some (c, k')) \<Longrightarrow>
    elsewhere q f f_args logging (In_main, k) (enter c k', k')"
| Stop: "start_resume f f_args logging k = Inr None \<Longrightarrow> elsewhere q f f_args logging (In_main, k) (Finished, k)"

lemma outcome_Inr: "outcome k (Inr (c, k')) = (enter c k', k')"
  by (simp add: outcome_def)

lemma elsewhere_step: "elsewhere q f f_args logging s s' \<Longrightarrow> sys_step f f_args logging s s'"
  by (induction rule: elsewhere.induct)
    (metis outcome_Inr sys_step.Call sys_step.Refuse sys_step.Tick sys_step.Write sys_step.Print sys_step.Status sys_step.Interrupt
      sys_step.Resume sys_step.Stop)+

text \<open>Every step that does not go wrong is one of them or such a call.\<close>

lemma step_elsewhere:
  assumes "sys_step f f_args logging s s'" and "\<forall>e. fst s' \<noteq> Crashed e"
  shows "elsewhere q f f_args logging s s' \<or>
    (\<exists>n va c k'. disastrOS_syscall n va (snd s) = Inr (Inr (c, k')) \<and> s' = (enter c k', k') \<and>
      queue_of_syscall n va (snd s) = Some q)"
  using assms
proof (induction rule: sys_step.induct)
  case (Call n va k c k')
  then show ?case by (auto simp: outcome_Inr intro: elsewhere.Call)
next
  case (Tick k)
  then show ?case by (cases "timerHandler k") (auto simp: outcome_def intro: elsewhere.Tick)
next
  case (Interrupt k)
  then show ?case by (cases "timerInterrupt k") (auto simp: outcome_def intro: elsewhere.Interrupt)
next
  case (Resume k c k')
  then show ?case by (auto simp: outcome_Inr intro: elsewhere.Resume)
qed (auto intro: elsewhere.intros)

lemma elsewhere_leaves:
  assumes "elsewhere q f f_args logging s s'" and "machine_ok s" and "q \<in> set (lst (snd s) Bq_registry)"
  shows "queue_view (snd s') q = queue_view (snd s) q \<and> q \<in> set (lst (snd s') Bq_registry)"
  using assms
proof (induction rule: elsewhere.induct)
  case (Call n va k c k')
  with syscall_others [of k n va c k'] show ?case by (auto simp: bq_others_def)
next
  case (Tick k c k')
  with handler_tick_queues [of k] show ?case by (simp add: same_queues_def)
next
  case (Write k mem)
  then show ?case by (simp add: queue_view_def)
next
  case (Print k s)
  then show ?case by (simp add: queue_view_def)
next
  case (Status k k')
  with status_queues [of k k'] show ?case by (simp add: same_queues_def)
next
  case (Interrupt k c k')
  with interrupt_untouched [of k] show ?case by (simp add: untouched_def same_queues_def)
next
  case (Resume k c k')
  with resume_queues [of k f f_args logging c k'] show ?case by (simp add: same_queues_def)
qed simp_all

end
