(* ===== verification/Queue_Runs.thy ===== *)
theory Queue_Runs
  imports Queue_Frame
begin

text \<open>
  One queue over a whole run of the machine: the values offered to it, the getters that asked and what was
  written to their addresses.  A step of such a run is a call of \<open>disastrOS_bqPut\<close> or \<open>disastrOS_bqGet\<close> on
  the queue, by whichever process runs, or any other step of the machine that is not a call on it.
\<close>

section \<open>Runs\<close>

text \<open>
  In \<open>queue_run qid q f f_args logging offered asked served s\<close> the machine has come to \<open>s\<close> since the
  observation of the queue \<open>q\<close> with the identifier \<open>qid\<close> began, at a point where no getter waited.  \<open>offered\<close>
  are the values then in the queue and with its blocked putters, and those put since; \<open>asked\<close> the processes
  that called get and \<open>served\<close> those that have been given a value, with what was found at their address, in
  the order of the steps.  A getter names an address (0 is the null pointer, where nothing is stored), and
  the calls have the blocks they need and no log file, as in the refinement of \<open>Calls\<close>.
\<close>

inductive queue_run ::
  "int \<Rightarrow> ptr \<Rightarrow> int \<Rightarrow> int \<Rightarrow> bool \<Rightarrow> int list \<Rightarrow> ptr list \<Rightarrow> (ptr \<times> int) list \<Rightarrow> machine \<Rightarrow> bool"
  for qid :: int and q :: ptr and f :: int and f_args :: int and logging :: bool
where
  Start: "machine_ok (In_process, k) \<Longrightarrow> q \<in> set (lst k Bq_registry) \<Longrightarrow> v_getters (queue_view k q) = [] \<Longrightarrow>
    queue_run qid q f f_args logging (v_items (queue_view k q) @ map snd (v_putters (queue_view k q))) [] [] (In_process, k)"
| Put: "queue_run qid q f f_args logging offered asked served (In_process, k) \<Longrightarrow> bqueue_named qid k = Some q \<Longrightarrow>
    log_file k = None \<Longrightarrow> 0 < room k Bqitem_buffer \<Longrightarrow> 0 < room k Pcb_ptr_buffer \<Longrightarrow>
    disastrOS_bqPut qid v k = Inr (Inr (c, k')) \<Longrightarrow>
    queue_run qid q f f_args logging (offered @ [v]) asked
      (served @ (case v_getters (queue_view k q) of [] \<Rightarrow> [] | (g, a) # _ \<Rightarrow> [(g, user_mem k' a)])) (enter c k', k')"
| Get: "queue_run qid q f f_args logging offered asked served (In_process, k) \<Longrightarrow> bqueue_named qid k = Some q \<Longrightarrow>
    log_file k = None \<Longrightarrow> 0 < room k Pcb_ptr_buffer \<Longrightarrow> out \<noteq> 0 \<Longrightarrow> running k = Some r \<Longrightarrow>
    disastrOS_bqGet qid out k = Inr (Inr (c, k')) \<Longrightarrow>
    queue_run qid q f f_args logging offered (asked @ [r])
      (served @ (if running k' = Some r then [(r, user_mem k' out)] else [])) (enter c k', k')"
| Elsewhere: "queue_run qid q f f_args logging offered asked served s \<Longrightarrow> elsewhere q f f_args logging s s' \<Longrightarrow>
    queue_run qid q f f_args logging offered asked served s'"

section \<open>First in, first out\<close>

definition fifo :: "int list \<Rightarrow> ptr list \<Rightarrow> (ptr \<times> int) list \<Rightarrow> bq_view \<Rightarrow> bool" where
  "fifo offered asked served Q \<longleftrightarrow>
     offered = map snd served @ v_items Q @ map snd (v_putters Q) \<and>
     asked = map fst served @ map fst (v_getters Q) \<and> (\<forall>(g, a) \<in> set (v_getters Q). a \<noteq> 0)"

lemma fifo_put:
  assumes "fifo offered asked served Q" and "bq_bounded Q" and "Q' = fst (bq_put r v Q)"
    and "\<And>g a gs. v_getters Q = (g, a) # gs \<Longrightarrow> mem a = v"
  shows "fifo (offered @ [v]) asked (served @ (case v_getters Q of [] \<Rightarrow> [] | (g, a) # _ \<Rightarrow> [(g, mem a)])) Q'"
  using assms by (cases "v_getters Q") (auto simp: fifo_def bq_put_def bq_bounded_def)

lemma fifo_get:
  assumes "fifo offered asked served Q" and "bq_bounded Q" and "Q' = fst (bq_get r out Q)" and "out \<noteq> 0"
    and "if v_items Q = [] then got = [] else got = [(r, hd (v_items Q))]"
  shows "fifo offered (asked @ [r]) (served @ got) Q'"
  using assms by (cases "v_items Q"; cases "v_putters Q") (auto simp: fifo_def bq_get_def bq_bounded_def)

text \<open>Each call is the step of the abstract queue; what it writes is where the getter looks.\<close>

lemma put_step:
  assumes "kernel_ok k" and "log_file k = None" and "running k = Some r" and "bqueue_named qid k = Some q"
    and "- (2 ^ 31) \<le> qid" and "qid < 2 ^ 31" and "0 < room k Bqitem_buffer" and "0 < room k Pcb_ptr_buffer"
    and "disastrOS_bqPut qid v k = Inr (Inr (c, k'))"
  shows "kernel_ok k'" and "bq_refines q r (bq_put r v (queue_view k q)) k k'"
  using bqPut_refines [of k r qid q v] assms by (simp_all add: ok_with_iff)

lemma get_step:
  assumes "kernel_ok k" and "log_file k = None" and "running k = Some r" and "bqueue_named qid k = Some q"
    and "- (2 ^ 31) \<le> qid" and "qid < 2 ^ 31" and "0 < room k Pcb_ptr_buffer"
    and "disastrOS_bqGet qid out k = Inr (Inr (c, k'))"
  shows "kernel_ok k'" and "bq_refines q r (bq_get r out (queue_view k q)) k k'"
  using bqGet_refines [of k r qid q out] assms by (simp_all add: ok_with_iff)

lemma put_writes:
  assumes "bq_refines q r (bq_put r v (queue_view k q)) k k'" and "v_getters (queue_view k q) = (g, a) # gs" and "a \<noteq> 0"
  shows "user_mem k' a = v"
  using assms by (simp add: bq_refines_def bq_put_def bq_effect_def write_user_def del: bq_view_simps)

lemma get_writes:
  assumes "bq_refines q r (bq_get r out (queue_view k q)) k k'" and "out \<noteq> 0"
  shows "if v_items (queue_view k q) = [] then status (pcbs k' r) = Waiting
    else running k' = Some r \<and> user_mem k' out = hd (v_items (queue_view k q))"
  using assms
  by (auto simp: bq_refines_def bq_get_def bq_effect_def write_user_def simp del: bq_view_simps split: list.splits)

text \<open>A process that has just been put on the waiting list is not the one that runs.\<close>

lemma waiting_not_running:
  "kernel_ok k \<Longrightarrow> p \<in> set (lst k Waiting_list) \<Longrightarrow> running k \<noteq> Some p"
  using running_notin by blast

lemma get_blocks_caller:
  assumes "kernel_ok k'" and "bq_refines q r (bq_get r out (queue_view k q)) k k'" and "v_items (queue_view k q) = []"
  shows "running k' \<noteq> Some r"
  using assms(2,3) by (intro waiting_not_running [OF assms(1)])
    (simp add: bq_refines_def bq_get_def bq_effect_def del: bq_view_simps)


text \<open>Both are steps of the machine.\<close>

lemma queue_run_steps:
  assumes "queue_run qid q f f_args logging offered asked served s"
  shows "machine_ok s"
  using assms
proof (induction rule: queue_run.induct)
  case (Put offered asked served k v c k')
  have "sys_step f f_args logging (In_process, k) (outcome k (Inr (c, k')))"
    using sys_step.Call Put.hyps(6) unfolding disastrOS_bqPut_def .
  from step_ok [OF this Put.IH] show ?case by (simp add: outcome_Inr)
next
  case (Get offered asked served k out r c k')
  have "sys_step f f_args logging (In_process, k) (outcome k (Inr (c, k')))"
    using sys_step.Call Get.hyps(7) unfolding disastrOS_bqGet_def .
  from step_ok [OF this Get.IH] show ?case by (simp add: outcome_Inr)
next
  case (Elsewhere offered asked served s s')
  then show ?case using step_ok [OF elsewhere_step] by blast
qed

lemma queue_run_fifo:
  assumes "queue_run qid q f f_args logging offered asked served s" and qid: "- (2 ^ 31) \<le> qid" "qid < 2 ^ 31"
  shows "q \<in> set (lst (snd s) Bq_registry) \<and> fifo offered asked served (queue_view (snd s) q)"
  using assms(1)
proof (induction rule: queue_run.induct)
  case (Start k)
  then show ?case by (simp add: fifo_def)
next
  case (Put offered asked served k v c k')
  from queue_run_steps [OF Put.hyps(1)] obtain r where k: "kernel_ok k" "running k = Some r" by auto
  from Put.IH have F: "q \<in> set (lst k Bq_registry)" "fifo offered asked served (queue_view k q)" by simp_all
  note step = put_step [OF k(1) Put.hyps(3) k(2) Put.hyps(2) qid Put.hyps(4-6)]
  have "bq_bounded (queue_view k q)" using queue_view_bounded [OF k(1) F(1)] by blast
  moreover have "mem a = v" if "v_getters (queue_view k q) = (g, a) # gs" "mem = user_mem k'" for g a gs mem
    using put_writes [OF step(2) that(1)] F(2) that by (simp add: fifo_def del: bq_view_simps)
  ultimately have "fifo (offered @ [v]) asked (served @ (case v_getters (queue_view k q) of [] \<Rightarrow> [] | (g, a) # _ \<Rightarrow>
      [(g, user_mem k' a)])) (queue_view k' q)"
    using step(2) by (intro fifo_put [OF F(2)]) (simp_all add: bq_refines_def del: bq_view_simps)
  with step(2) F(1) show ?case by (simp add: bq_refines_def del: bq_view_simps)
next
  case (Get offered asked served k out r c k')
  from queue_run_steps [OF Get.hyps(1)] have k: "kernel_ok k" by simp
  from Get.IH have F: "q \<in> set (lst k Bq_registry)" "fifo offered asked served (queue_view k q)" by simp_all
  note step = get_step [OF k(1) Get.hyps(3,6,2) qid Get.hyps(4,7)]
  have "bq_bounded (queue_view k q)" using queue_view_bounded [OF k(1) F(1)] by blast
  then have "fifo offered (asked @ [r]) (served @ (if running k' = Some r then [(r, user_mem k' out)] else [])) (queue_view k' q)"
    using step(2) get_writes [OF step(2) Get.hyps(5)] get_blocks_caller [OF step] Get.hyps(5)
    by (intro fifo_get [OF F(2), of _ r out]) (auto simp: bq_refines_def simp del: bq_view_simps)
  with step(2) F(1) show ?case by (simp add: bq_refines_def del: bq_view_simps)
next
  case (Elsewhere offered asked served s s')
  from elsewhere_leaves [OF Elsewhere.hyps(2) queue_run_steps [OF Elsewhere.hyps(1)]] Elsewhere.IH show ?case by simp
qed

end
