(* ===== verification/Queue_Properties.thy ===== *)
theory Queue_Properties
  imports Hazards Demo Queue_Runs
begin

text \<open>
  The properties of the blocking queues: the calls refine the bounded buffer of \<open>BQueue_Spec\<close>, which is first-in
  first-out, their error branches, and the life of a queue.
\<close>

lemma busy_queue [simp]:
  "bqueue_named 1 (busy free n args) = Some (Addr Bq_buffer 0)" "bqueue_named 2 (busy free n args) = Some (Addr Bq_buffer 8)"
  "bqueue_named 3 (busy free n args) = Some (Addr Bq_buffer 16)" "bqueue_named 9 (busy free n args) = None"
  by (simp_all add: bqueue_named_def busy_lists_def) (simp_all add: busy_def)

lemma busy_views:
  "queue_view (busy free n args) (Addr Bq_buffer 0) = \<lparr>v_cap = 1, v_items = [10], v_getters = [], v_putters = [(Addr Pcb_buffer 32, 77)]\<rparr>"
  "queue_view (busy free n args) (Addr Bq_buffer 8) = \<lparr>v_cap = 2, v_items = [], v_getters = [(Addr Pcb_buffer 40, 500)], v_putters = []\<rparr>"
  "queue_view (busy free n args) (Addr Bq_buffer 16) = \<lparr>v_cap = 2, v_items = [33], v_getters = [], v_putters = []\<rparr>"
  by (simp_all add: queue_view_def busy_lists_def) (simp_all add: busy_def)

lemma ok_with_state_mono:
  "ok_with x (\<lambda>res. \<exists>k'. res = f k' \<and> kernel_ok k' \<and> P k') \<Longrightarrow> (\<And>k'. P k' \<Longrightarrow> Q k') \<Longrightarrow>
   ok_with x (\<lambda>res. \<exists>k'. res = f k' \<and> Q k')"
  by (auto simp: ok_with_iff)

lemmas refined = bq_refines_def bq_effect_def busy_views bq_put_def bq_get_def write_user_def

text \<open>A list of printed values, separated by commas.\<close>

fun commas :: "string list \<Rightarrow> string" where
  "commas [] = []"
| "commas [s] = s"
| "commas (s # t # ss) = s @ '', '' @ commas (t # ss)"

section \<open>Put and get\<close>

text \<open>
  C2: \<open>disastrOS_bqPut\<close>, from the call to the end of its trap, is one step of the bounded buffer: a waiting getter is
  handed the value and woken, else the value is appended if there is room, else the caller is blocked as a putter; the
  other queues do not change, every invariant of the kernel is kept and control goes to the process that then runs.
\<close>

theorem put_refines_buffer:
  assumes "kernel_ok k" and "running k = Some r" and "log_file k = None"
    and "- (2 ^ 31) \<le> qid" and "qid < 2 ^ 31" and "bqueue_named qid k = Some q"
    and "0 < room k Bqitem_buffer" and "0 < room k Pcb_ptr_buffer"
  shows "ok_with (disastrOS_bqPut qid v k) (\<lambda>res. \<exists>k'. res = Inr (next_control k', k') \<and> kernel_ok k' \<and>
    bq_refines q r (bq_put r v (queue_view k q)) k k')"
  by (rule bqPut_refines [OF assms])

theorem put_refines_buffer_witness:
  "ok_with (disastrOS_bqPut 2 99 (busy (\<lambda>_. 4) 0 (\<lambda>_. 0))) (\<lambda>res. \<exists>k'. res = Inr (next_control k', k') \<and>
      user_mem k' 500 = 99 \<and> v_getters (queue_view k' (blk Bq_buffer 1)) = []) \<and>
    ok_with (disastrOS_bqPut 3 99 (busy (\<lambda>_. 4) 0 (\<lambda>_. 0))) (\<lambda>res. \<exists>k'. res = Inr (next_control k', k') \<and>
      v_items (queue_view k' (blk Bq_buffer 2)) = [33, 99])"
proof
  let ?k = "busy (\<lambda>_. 4) 0 (\<lambda>_. 0)"
  show "ok_with (disastrOS_bqPut 2 99 ?k) (\<lambda>res. \<exists>k'. res = Inr (next_control k', k') \<and>
      user_mem k' 500 = 99 \<and> v_getters (queue_view k' (blk Bq_buffer 1)) = [])"
    by (rule ok_with_state_mono [OF put_refines_buffer [of ?k "blk Pcb_buffer 0" 2 "blk Bq_buffer 1"]])
      (simp_all add: refined del: bq_view_simps)
  show "ok_with (disastrOS_bqPut 3 99 ?k) (\<lambda>res. \<exists>k'. res = Inr (next_control k', k') \<and>
      v_items (queue_view k' (blk Bq_buffer 2)) = [33, 99])"
    by (rule ok_with_state_mono [OF put_refines_buffer [of ?k "blk Pcb_buffer 0" 3 "blk Bq_buffer 2"]])
      (simp_all add: refined del: bq_view_simps)
qed

text \<open>
  C3: \<open>disastrOS_bqGet\<close> is one step of the bounded buffer: the oldest value is stored at the caller's address and the
  oldest waiting putter, if there is one, completes its put and is woken; on an empty queue the caller is blocked.
\<close>

theorem get_refines_buffer:
  assumes "kernel_ok k" and "running k = Some r" and "log_file k = None"
    and "- (2 ^ 31) \<le> qid" and "qid < 2 ^ 31" and "bqueue_named qid k = Some q" and "0 < room k Pcb_ptr_buffer"
  shows "ok_with (disastrOS_bqGet qid out k) (\<lambda>res. \<exists>k'. res = Inr (next_control k', k') \<and> kernel_ok k' \<and>
    bq_refines q r (bq_get r out (queue_view k q)) k k')"
  by (rule bqGet_refines [OF assms])

theorem get_refines_buffer_witness:
  "ok_with (disastrOS_bqGet 1 600 (busy (\<lambda>_. 4) 0 (\<lambda>_. 0))) (\<lambda>res. \<exists>k'. res = Inr (next_control k', k') \<and>
      user_mem k' 600 = 10 \<and> v_items (queue_view k' (blk Bq_buffer 0)) = [77])"
  by (rule ok_with_state_mono [OF get_refines_buffer [of _ "blk Pcb_buffer 0" 1 "blk Bq_buffer 0"]])
    (simp_all add: refined del: bq_view_simps)

text \<open>
  C5: a queue is first-in first-out and loses nothing: at every point of a run in which processes put to it and get from
  it, with any other steps of the machine in between (calls of all kinds, ticks, writes to memory), the values found at
  the addresses of the getters that have been served, in the order they were served, then those stored and those of the
  blocked putters are the values offered, in their order; and the processes served, then those still waiting, are those
  that asked, in their order.
\<close>

theorem queue_is_first_in_first_out:
  assumes "queue_run qid q f f_args logging offered asked served (m, k)" and "- (2 ^ 31) \<le> qid" and "qid < 2 ^ 31"
  shows "map snd served @ v_items (queue_view k q) @ map snd (v_putters (queue_view k q)) = offered \<and>
    map fst served @ map fst (v_getters (queue_view k q)) = asked"
  using queue_run_fifo [OF assms] by (simp add: fifo_def)

theorem queue_is_first_in_first_out_witness:
  "\<exists>m k. queue_run 1 (blk Bq_buffer 0) 1 0 False [10, 77] [blk Pcb_buffer 0] [(blk Pcb_buffer 0, 10)] (m, k) \<and>
    v_items (queue_view k (blk Bq_buffer 0)) @ map snd (v_putters (queue_view k (blk Bq_buffer 0))) = [77]"
proof -
  let ?k = "busy (\<lambda>_. 4) 0 (\<lambda>_. 0)" and ?r = "Addr Pcb_buffer 0" and ?q = "Addr Bq_buffer 0"
  have start: "queue_run 1 ?q 1 0 False [10, 77] [] [] (In_process, ?k)"
    using queue_run.Start [of ?k ?q 1 1 0 False] bqueue_named_in [of 1 ?k ?q] by (simp add: busy_views del: bq_view_simps)
  have "ok_with (disastrOS_bqGet 1 600 ?k) (\<lambda>res. \<exists>k'. res = Inr (next_control k', k') \<and>
      running k' = Some ?r \<and> user_mem k' 600 = 10)"
    by (rule ok_with_state_mono [OF bqGet_refines [of _ ?r 1 ?q]]) (simp_all add: refined del: bq_view_simps)
  then obtain k' where k': "disastrOS_bqGet 1 600 ?k = Inr (Inr (next_control k', k'))" "running k' = Some ?r" "user_mem k' 600 = 10"
    by (auto simp: ok_with_iff)
  have "queue_run 1 ?q 1 0 False [10, 77] [?r] [(?r, 10)] (enter (next_control k') k', k')"
    using queue_run.Get [OF start _ _ _ _ _ k'(1), of ?r] k'(2,3) by simp
  with queue_is_first_in_first_out [OF this] show ?thesis by auto
qed

text \<open>
  C6: a step of the machine goes wrong, or is a call of put, get or delete that names the queue, or is a
  step elsewhere (another call, a tick, an interrupt, a write, a resumption), which leaves the queue as it is: its
  values, its waiters and its capacity, and it stays registered.
\<close>

theorem others_leave_queue_alone:
  assumes "machine_ok (m, k)" and "q \<in> set (lst k Bq_registry)" and "sys_step f f_args logging (m, k) (m', k')"
  shows "(elsewhere q f f_args logging (m, k) (m', k') \<longrightarrow> queue_view k' q = queue_view k q \<and> q \<in> set (lst k' Bq_registry)) \<and>
    ((\<exists>e. m' = Crashed e) \<or> elsewhere q f f_args logging (m, k) (m', k') \<or>
     (\<exists>n va c. disastrOS_syscall n va k = Inr (Inr (c, k')) \<and> m' = enter c k' \<and> queue_of_syscall n va k = Some q))"
  using step_elsewhere [OF assms(3), of q] elsewhere_leaves [OF _ assms(1)] assms(2) by auto

theorem others_leave_queue_alone_witness:
  "\<exists>c k'. timerHandler (busy (\<lambda>_. 4) 0 (\<lambda>_. 0)) = Inr (c, k') \<and>
    queue_view k' (blk Bq_buffer 0) = queue_view (busy (\<lambda>_. 4) 0 (\<lambda>_. 0)) (blk Bq_buffer 0)"
proof -
  let ?k = "busy (\<lambda>_. 4) 0 (\<lambda>_. 0)" and ?q = "Addr Bq_buffer 0"
  have ok: "kernel_ok (upd_pcb (Addr Pcb_buffer 0) (\<lambda>b. b\<lparr>cpu_state := Ctx_saved\<rparr>) ?k)" by (rule upd_ok) simp_all
  have "disastrOS_time ?k = 4" by (simp add: busy_def)
  with timerInterrupt_ok [OF ok] obtain c k' where t: "timerHandler ?k = Inr (c, k')"
    by (auto simp: timerHandler_def ok_with_iff)
  have q: "?q \<in> set (lst ?k Bq_registry)" using bqueue_named_in [of 1 ?k ?q] by simp
  have step: "elsewhere ?q 1 0 False (In_process, ?k) (enter c k', k')" by (rule elsewhere.Tick [OF t])
  from others_leave_queue_alone [OF _ q elsewhere_step [OF step]] step have "queue_view k' ?q = queue_view ?k ?q" by simp
  with t show ?thesis by auto
qed

text \<open>
  C8: in every state the machine reaches without a fault, each registered queue holds at most as many values as its
  capacity, its size field counts them, processes wait for values only at an empty queue and for room only at a full one.
\<close>

theorem queues_stay_bounded:
  assumes "sizes_ok sizeof" and "reachable sizeof f f_args logging (m, k)" and "\<forall>e. m \<noteq> Crashed e"
    and "q \<in> set (lst k Bq_registry)"
  shows "bq_bounded (queue_view k q) \<and> 0 < v_cap (queue_view k q) \<and>
    bq_size (bqueues k q) = int (length (v_items (queue_view k q)))"
proof -
  have "kernel_ok k" using machine_reachable [OF assms(1,2)] assms(3) by (cases m) auto
  with queue_view_bounded [OF this assms(4)] kernel_okD(9) [of k] assms(4) show ?thesis by (simp add: queues_ok_def)
qed

theorem queues_stay_bounded_witness:
  "\<exists>k q. reachable (\<lambda>_. 64) 1 0 False (In_process, k) \<and> q \<in> set (lst k Bq_registry) \<and> bq_bounded (queue_view k q)"
proof -
  have sz: "sizes_ok (\<lambda>_. 64)" by (simp add: sizes_ok_def)
  from first_process [OF this, of 1 0] obtain k p where
    k: "reachable (\<lambda>_. 64) 1 0 False (In_process, k)" "kernel_ok k" "running k = Some p" "log_file k = None"
      "room k Bq_buffer = MAX_NUM_BQUEUES" "lst k Bq_registry = []" by metis
  have "bqueue_named 7 k = None" using k(6) by (simp add: bqueue_named_def)
  with bqCreate_ok [OF k(2-4), of 7 3] k(5) obtain k' q where
    k': "disastrOS_bqCreate 7 3 k = Inr (Inr (To_process p, k'))" "kernel_ok k'" "bqueue_named 7 k' = Some q"
      "cpu_state (pcbs k' p) \<noteq> Ctx_unset"
    by (auto simp: ok_with_iff MAX_NUM_BQUEUES_def)
  have "sys_step 1 0 False (In_process, k) (outcome k (Inr (To_process p, k')))"
    using sys_step.Call k'(1) unfolding disastrOS_bqCreate_def .
  with k(1) k'(4) have "reachable (\<lambda>_. 64) 1 0 False (In_process, k')"
    by (auto simp: reachable_def outcome_def intro: rtranclp.rtrancl_into_rtrancl)
  with queues_stay_bounded [OF sz this _ bqueue_named_in [OF k'(3)]] bqueue_named_in [OF k'(3)] show ?thesis by blast
qed

section \<open>Errors\<close>

text \<open>
  C30: what put does when it cannot do its step: an unknown queue is an error; a queue with room but no free item block is
  an error (reported as a call that is not implemented) that drops the value and changes nothing else; a full queue with
  no free link is not an error but a null pointer dereference, since the code writes to the link without a check.
\<close>

theorem put_failures:
  assumes "kernel_ok k" and "running k = Some r" and "lst k (Wait_getters q) = []"
  shows "(case bqueue_named (arg_int k r 0) k of
      None \<Rightarrow> internal_bq_put k = Inr (set_retvalue r DSOS_ERESOURCENOFD k)
    | Some q' \<Rightarrow> q' = q \<longrightarrow>
        (if int (length (lst k (Items q))) < bq_capacity (bqueues k q)
         then room k Bqitem_buffer \<le> 0 \<longrightarrow> internal_bq_put k = Inr (set_retvalue r DSOS_ESYSCALL_NOT_IMPLEMENTED k)
         else room k Pcb_ptr_buffer \<le> 0 \<longrightarrow> internal_bq_put k = Inl Null_deref))"
  using put_unknown [OF assms(1,2)] put_pool_full [OF assms(1,2) _ assms(3)] put_cases [OF assms(1,2) _ assms(3)]
    block_on_full [OF assms(1)]
  by (auto split: option.split)

text \<open>No free block in the pools of links and items.\<close>

definition tight :: "region \<Rightarrow> nat" where
  "tight r = (if r = Pcb_ptr_buffer \<or> r = Bqitem_buffer then 0 else 4)"

lemma tight_ok: "kernel_ok (busy tight n args)" and tight_room: "room (busy tight n args) r = int (tight r)"
  by (auto intro!: busy_ok simp: busy_room tight_def)

theorem put_failures_witness:
  "internal_bq_put (busy tight DSOS_CALL_BQ_PUT ((\<lambda>_. 0)(0 := 1, 1 := 5))) = Inl Null_deref \<and>
    internal_bq_put (busy tight DSOS_CALL_BQ_PUT ((\<lambda>_. 0)(0 := 3, 1 := 5))) = Inr (set_retvalue (blk Pcb_buffer 0)
      DSOS_ESYSCALL_NOT_IMPLEMENTED (busy tight DSOS_CALL_BQ_PUT ((\<lambda>_. 0)(0 := 3, 1 := 5))))"
proof
  have c: "bq_capacity (bqueues (busy tight n args) (Addr Bq_buffer 0)) = 1"
    "bq_capacity (bqueues (busy tight n args) (Addr Bq_buffer 16)) = 2" for n args by (simp_all add: busy_def)
  show "internal_bq_put (busy tight DSOS_CALL_BQ_PUT ((\<lambda>_. 0)(0 := 1, 1 := 5))) = Inl Null_deref"
    using put_failures [OF tight_ok, of DSOS_CALL_BQ_PUT "(\<lambda>_. 0)(0 := 1, 1 := 5)" "Addr Pcb_buffer 0" "Addr Bq_buffer 0"] c
    by (simp add: to_int_id) (simp add: busy_lists_def tight_room tight_def)
  show "internal_bq_put (busy tight DSOS_CALL_BQ_PUT ((\<lambda>_. 0)(0 := 3, 1 := 5))) = Inr (set_retvalue (blk Pcb_buffer 0)
      DSOS_ESYSCALL_NOT_IMPLEMENTED (busy tight DSOS_CALL_BQ_PUT ((\<lambda>_. 0)(0 := 3, 1 := 5))))"
    using put_failures [OF tight_ok, of DSOS_CALL_BQ_PUT "(\<lambda>_. 0)(0 := 3, 1 := 5)" "Addr Pcb_buffer 0" "Addr Bq_buffer 16"] c
    by (simp add: to_int_id) (simp add: busy_lists_def tight_room tight_def)
qed

section \<open>The life of a queue\<close>

text \<open>
  C27: every branch of \<open>internal_bq_create\<close>: it checks the capacity, then the identifier, then the pool, and each failure
  sets its own error code and changes nothing but the output, so that a duplicate identifier never registers a second
  queue; otherwise an empty queue of the given capacity is registered under the identifier, at the end of the registry,
  and no other list changes.
\<close>

theorem create_every_branch:
  assumes "kernel_ok k" and "running k = Some r"
  shows "let k1 = print_out (bq_create_msg r k) k in
    if arg_int k r 1 \<le> 0 then internal_bq_create k = Inr (set_retvalue r DSOS_ESYSCALL_ARGUMENT_OUT_OF_BOUNDS k1)
    else if bqueue_named (arg_int k r 0) k \<noteq> None then internal_bq_create k = Inr (set_retvalue r DSOS_EEXIST k1)
    else if room k Bq_buffer \<le> 0 then internal_bq_create k = Inr (set_retvalue r DSOS_ESYSCALL_NOT_IMPLEMENTED k1)
    else ok_with (internal_bq_create k) (\<lambda>k'. kernel_ok k' \<and> running k' = Some r \<and> syscall_retvalue (pcbs k' r) = 0 \<and>
      (\<exists>q. q \<notin> set (lst k Bq_registry) \<and> lst k' = (lst k)(Bq_registry := lst k Bq_registry @ [q]) \<and>
        bqueue_named (arg_int k r 0) k' = Some q \<and> queue_view k' q = bq_new (arg_int k r 1)))"
proof -
  have "running k' = Some r \<and> syscall_retvalue (pcbs k' r) = 0 \<and> (\<exists>q. q \<notin> set (lst k Bq_registry) \<and>
      lst k' = (lst k)(Bq_registry := lst k Bq_registry @ [q]) \<and> bqueue_named (arg_int k r 0) k' = Some q \<and>
      queue_view k' q = bq_new (arg_int k r 1))"
    if "created r (arg_int k r 0) (arg_int k r 1) k k'" "bqueue_named (arg_int k r 0) k = None" for k'
  proof -
    from that(1) obtain q where q: "lst k' = (lst k)(Bq_registry := lst k Bq_registry @ [q])" by (auto simp: created_def)
    from created_queue [OF assms(1) that(2,1)] obtain q' where
      q': "q' \<notin> set (lst k Bq_registry)" "bqueue_named (arg_int k r 0) k' = Some q'" "queue_view k' q' = bq_new (arg_int k r 1)"
      by blast
    from bqueue_named_in [OF q'(2)] q q'(1) have "q' = q" by simp
    with q q' that(1) assms(2) show ?thesis by (auto simp: created_def)
  qed
  then show ?thesis
    using bq_create_refused [OF assms] by (auto simp: Let_def not_le intro!: ok_with_mono [OF bq_create_ok [OF assms]])
qed

theorem create_every_branch_witness:
  "(\<exists>s. internal_bq_create (busy (\<lambda>_. 4) DSOS_CALL_BQ_CREATE ((\<lambda>_. 0)(0 := 2, 1 := 5))) = Inr (set_retvalue (blk Pcb_buffer 0)
      DSOS_EEXIST (print_out s (busy (\<lambda>_. 4) DSOS_CALL_BQ_CREATE ((\<lambda>_. 0)(0 := 2, 1 := 5)))))) \<and>
    ok_with (internal_bq_create (busy (\<lambda>_. 4) DSOS_CALL_BQ_CREATE ((\<lambda>_. 0)(0 := 9, 1 := 5)))) (\<lambda>k'. \<exists>q.
      bqueue_named 9 k' = Some q \<and> queue_view k' q = bq_new 5)"
proof
  show "\<exists>s. internal_bq_create (busy (\<lambda>_. 4) DSOS_CALL_BQ_CREATE ((\<lambda>_. 0)(0 := 2, 1 := 5))) = Inr (set_retvalue (blk Pcb_buffer 0)
      DSOS_EEXIST (print_out s (busy (\<lambda>_. 4) DSOS_CALL_BQ_CREATE ((\<lambda>_. 0)(0 := 2, 1 := 5)))))"
    using create_every_branch [of "busy (\<lambda>_. 4) DSOS_CALL_BQ_CREATE ((\<lambda>_. 0)(0 := 2, 1 := 5))" "Addr Pcb_buffer 0"]
    by (simp add: to_int_id Let_def) blast
  show "ok_with (internal_bq_create (busy (\<lambda>_. 4) DSOS_CALL_BQ_CREATE ((\<lambda>_. 0)(0 := 9, 1 := 5)))) (\<lambda>k'. \<exists>q.
      bqueue_named 9 k' = Some q \<and> queue_view k' q = bq_new 5)"
    using create_every_branch [of "busy (\<lambda>_. 4) DSOS_CALL_BQ_CREATE ((\<lambda>_. 0)(0 := 9, 1 := 5))" "Addr Pcb_buffer 0"]
    by (simp add: to_int_id Let_def busy_room del: bq_view_simps) (erule ok_with_mono, blast)
qed

text \<open>
  C28: \<open>internal_bq_delete\<close> refuses an unknown queue and one that processes wait on, and otherwise takes the queue out of
  the registry, frees each item it holds and its own block, and changes no other list.
\<close>

theorem delete_every_branch:
  assumes "kernel_ok k" and "running k = Some r"
  shows "case bqueue_named (arg_int k r 0) k of
      None \<Rightarrow> internal_bq_delete k = Inr (set_retvalue r DSOS_ERESOURCENOFD k)
    | Some q \<Rightarrow>
        if lst k (Wait_getters q) \<noteq> [] \<or> lst k (Wait_putters q) \<noteq> []
        then internal_bq_delete k = Inr (set_retvalue r DSOS_ERESOURCEINUSE k)
        else ok_with (internal_bq_delete k) (\<lambda>k'. kernel_ok k' \<and> running k' = Some r \<and> syscall_retvalue (pcbs k' r) = 0 \<and>
          lst k' = (lst k)(Bq_registry := remove1 q (lst k Bq_registry), Items q := []) \<and>
          in_use k' Bqitem_buffer = in_use k Bqitem_buffer - set (lst k (Items q)) \<and>
          in_use k' Bq_buffer = in_use k Bq_buffer - {q})"
  using bq_delete_refused [OF assms] bq_delete_ok [OF assms] by (auto simp: deleted_def split: option.split elim: ok_with_mono)

theorem delete_every_branch_witness:
  "ok_with (internal_bq_delete (busy (\<lambda>_. 4) DSOS_CALL_BQ_DELETE ((\<lambda>_. 0)(0 := 3)))) (\<lambda>k'.
      lst k' Bq_registry = [blk Bq_buffer 0, blk Bq_buffer 1] \<and> lst k' (Items (blk Bq_buffer 2)) = []) \<and>
    internal_bq_delete (busy (\<lambda>_. 4) DSOS_CALL_BQ_DELETE ((\<lambda>_. 0)(0 := 1))) = Inr (set_retvalue (blk Pcb_buffer 0)
      DSOS_ERESOURCEINUSE (busy (\<lambda>_. 4) DSOS_CALL_BQ_DELETE ((\<lambda>_. 0)(0 := 1))))"
proof
  have w: "lst (busy (\<lambda>_. 4) n args) (Wait_putters (Addr Bq_buffer 0)) \<noteq> []"
    "lst (busy (\<lambda>_. 4) n args) (Wait_putters (Addr Bq_buffer 16)) = []"
    "lst (busy (\<lambda>_. 4) n args) (Wait_getters (Addr Bq_buffer 16)) = []" for n args by (simp_all add: busy_lists_def)
  show "ok_with (internal_bq_delete (busy (\<lambda>_. 4) DSOS_CALL_BQ_DELETE ((\<lambda>_. 0)(0 := 3)))) (\<lambda>k'.
      lst k' Bq_registry = [blk Bq_buffer 0, blk Bq_buffer 1] \<and> lst k' (Items (blk Bq_buffer 2)) = [])"
    using delete_every_branch [of "busy (\<lambda>_. 4) DSOS_CALL_BQ_DELETE ((\<lambda>_. 0)(0 := 3))" "Addr Pcb_buffer 0"] w
    by (simp add: to_int_id del: busy_fields(1)) (erule ok_with_mono, simp, simp add: busy_lists_def)
  show "internal_bq_delete (busy (\<lambda>_. 4) DSOS_CALL_BQ_DELETE ((\<lambda>_. 0)(0 := 1))) = Inr (set_retvalue (blk Pcb_buffer 0)
      DSOS_ERESOURCEINUSE (busy (\<lambda>_. 4) DSOS_CALL_BQ_DELETE ((\<lambda>_. 0)(0 := 1))))"
    using delete_every_branch [of "busy (\<lambda>_. 4) DSOS_CALL_BQ_DELETE ((\<lambda>_. 0)(0 := 1))" "Addr Pcb_buffer 0"] w
    by (simp add: to_int_id del: busy_fields(1))
qed

text \<open>
  C29: \<open>internal_bq_dump\<close> prints the identifier, the number of values, the capacity, the values in their order and the
  numbers of waiting putters and getters, and changes nothing but the output and the caller's return value.
\<close>

theorem dump_output:
  assumes "kernel_ok k" and "running k = Some r" and "bqueue_named (arg_int k r 0) k = Some q"
  shows "internal_bq_dump k = Inr (set_retvalue r 0 (print_out
    (''BQ['' @ show_int (arg_int k r 0) @ ''] size='' @ show_int (int (length (v_items (queue_view k q))))
      @ ''/'' @ show_int (v_cap (queue_view k q)) @ '' items=['' @ commas (map show_int (v_items (queue_view k q)))
      @ ''] wait_putters='' @ show_int (int (length (v_putters (queue_view k q))))
      @ '' wait_getters='' @ show_int (int (length (v_getters (queue_view k q)))) @ newline) k))"
proof -
  have "bq_id (bqueues k q) = arg_int k r 0"
    using assms(3) by (auto simp: bqueue_named_def dest: find_Some_iff_first)
  moreover have "bq_size (bqueues k q) = int (length (lst k (Items q)))"
    using kernel_okD(9) [OF assms(1)] bqueue_named_in [OF assms(3)] by (simp add: queues_ok_def)
  moreover have "print_all (\<lambda>it nxt. show_int (bq_items k it) @ comma nxt) xs = commas (map show_int (map (bq_items k) xs))" for xs
  proof (induction xs)
    case (Cons x xs)
    then show ?case by (cases xs) (simp_all add: comma_def)
  qed simp
  ultimately show ?thesis using assms(3) by (simp add: bq_dump_eq [OF assms(1,2)] del: map_map)
qed

lemma silent: "stdout (busy free n args) = []"
  by (simp add: busy_def zero_kernel_def)

lemma digits: "show_int 0 = ''0''" "show_int 1 = ''1''" "show_int 2 = ''2''" "show_int 3 = ''3''" "show_int 33 = ''33''"
  by code_simp+

theorem dump_output_witness:
  "ok_with (internal_bq_dump (busy (\<lambda>_. 4) DSOS_CALL_BQ_DUMP ((\<lambda>_. 0)(0 := 3)))) (\<lambda>k'.
    stdout k' = ''BQ[3] size=1/2 items=[33] wait_putters=0 wait_getters=0'' @ newline)"
  using dump_output [of "busy (\<lambda>_. 4) DSOS_CALL_BQ_DUMP ((\<lambda>_. 0)(0 := 3))" "Addr Pcb_buffer 0" "Addr Bq_buffer 16"]
  by (simp add: to_int_id busy_views print_out_def digits silent del: bq_view_simps)

end
