(* ===== verification/Process_Frame.thy ===== *)
theory Process_Frame
  imports Queue_Frame
begin

text \<open>
  What a system call can do to the processes, their memory and the queues, whatever branch it takes: who is
  alive afterwards and with which context, where results are written and which, and which values and getters
  the queues can have.
\<close>

section \<open>The effect of a call\<close>

text \<open>
  A process that is alive afterwards was before, with the same context, or is the child of this call; the
  process that exits is not alive any more.
\<close>

definition population :: "syscall_fn \<Rightarrow> ptr \<Rightarrow> kernel \<Rightarrow> kernel \<Rightarrow> bool" where
  "population f r k k' \<longleftrightarrow>
     (\<forall>x \<in> alive k'. x \<in> alive k \<and> cpu_state (pcbs k' x) = cpu_state (pcbs k x) \<or>
        x \<notin> alive k \<and> (f = Fn_fork \<or> f = Fn_spawn \<and>
          cpu_state (pcbs k' x) = Ctx_entry (syscall_args (pcbs k r) 0) (syscall_args (pcbs k r) 1))) \<and>
     (f = Fn_exit \<longrightarrow> r \<notin> alive k')"

text \<open>The queue that the first argument names.\<close>

abbreviation (input) on_queue :: "ptr \<Rightarrow> kernel \<Rightarrow> ptr \<Rightarrow> bool" where
  "on_queue r k q \<equiv> bqueue_named (arg_int k r 0) k = Some q"

text \<open>The memory changes where \<open>wait\<close> and \<open>get\<close> of the caller and \<open>get\<close> of a served getter write.\<close>

definition memory_step :: "syscall_fn \<Rightarrow> ptr \<Rightarrow> kernel \<Rightarrow> kernel \<Rightarrow> bool" where
  "memory_step f r k k' \<longleftrightarrow>
     (\<forall>a. user_mem k' a = user_mem k a \<or>
        f = Fn_wait \<and> a = syscall_args (pcbs k r) 1 \<or>
        f = Fn_bq_get \<and> a = syscall_args (pcbs k r) 1 \<and>
          (\<exists>q. on_queue r k q \<and> user_mem k' a \<in> set (v_items (queue_view k q))) \<or>
        f = Fn_bq_put \<and> user_mem k' a = syscall_args (pcbs k r) 1 \<and>
          (\<exists>q g. on_queue r k q \<and> (g, a) \<in> set (v_getters (queue_view k q))))"

text \<open>The values a queue holds, with those its blocked putters offer.\<close>

definition held :: "bq_view \<Rightarrow> int set" where
  "held Q = set (v_items Q) \<union> snd ` set (v_putters Q)"

definition queues_step :: "syscall_fn \<Rightarrow> ptr \<Rightarrow> kernel \<Rightarrow> kernel \<Rightarrow> bool" where
  "queues_step f r k k' \<longleftrightarrow>
     (\<forall>q \<in> set (lst k' Bq_registry).
        q \<in> set (lst k Bq_registry) \<and> bq_id (bqueues k' q) = bq_id (bqueues k q) \<and>
          held (queue_view k' q) \<subseteq> held (queue_view k q) \<union>
            (if f = Fn_bq_put \<and> on_queue r k q then {syscall_args (pcbs k r) 1} else {}) \<and>
          set (v_getters (queue_view k' q)) \<subseteq> set (v_getters (queue_view k q)) \<union>
            (if f = Fn_bq_get \<and> on_queue r k q then {(r, syscall_args (pcbs k r) 1)} else {}) \<or>
        f = Fn_bq_create \<and> held (queue_view k' q) = {} \<and> v_getters (queue_view k' q) = [])"

definition call_step :: "syscall_fn \<Rightarrow> ptr \<Rightarrow> kernel \<Rightarrow> kernel \<Rightarrow> bool" where
  "call_step f r k k' \<longleftrightarrow> population f r k k' \<and> memory_step f r k k' \<and> queues_step f r k k'"

text \<open>The relations of \<open>Queue_Frame\<close> are such effects.\<close>

lemma same_queues_step: "same_queues k k' \<Longrightarrow> queues_step f r k k'"
  by (auto simp: same_queues_def queues_step_def simp del: bq_view_simps)

lemma untouched_call: "untouched k k' \<Longrightarrow> f \<noteq> Fn_exit \<Longrightarrow> call_step f r k k'"
  by (simp add: call_step_def untouched_def same_queues_step same_processes_def population_def memory_step_def)

lemma dies_call: "dies r k k' \<Longrightarrow> call_step f r k k'"
  by (auto simp: call_step_def dies_def same_queues_step population_def memory_step_def)

lemma touches_call: "touches (syscall_args (pcbs k r) 1) k k' \<Longrightarrow> call_step Fn_wait r k k'"
  by (simp add: call_step_def touches_def same_queues_step same_processes_def population_def memory_step_def) blast

lemma births_call:
  assumes "births p k k'"
    and "f = Fn_fork \<or> f = Fn_spawn \<and> cpu_state (pcbs k' p) = Ctx_entry (syscall_args (pcbs k r) 0) (syscall_args (pcbs k r) 1)"
  shows "call_step f r k k'"
proof -
  have "x \<in> alive k' \<Longrightarrow> x \<noteq> p \<Longrightarrow> x \<in> alive k \<and> cpu_state (pcbs k' x) = cpu_state (pcbs k x)" for x
    using assms(1) by (auto simp: births_def)
  moreover have "p \<notin> alive k" using assms(1) by (simp add: births_def)
  ultimately have "population f r k k'" using assms(2) unfolding population_def by (metis syscall_fn.distinct)
  then show ?thesis using assms(1) by (simp add: call_step_def births_def same_queues_step memory_step_def)
qed

text \<open>A put or get that is a step of the abstract queue; the caller has been saved.\<close>

lemma refined_population:
  assumes "bq_refines q r step k k'" and "cpu_state (pcbs k r) = Ctx_saved" and "f \<noteq> Fn_exit"
  shows "population f r k k'"
  using assms by (auto simp: bq_refines_def population_def alive_def)

lemma refined_queues:
  assumes "bq_refines q r step k k'" and "on_queue r k q"
    and "held (fst step) \<subseteq> held (queue_view k q) \<union> (if f = Fn_bq_put then {syscall_args (pcbs k r) 1} else {})"
    and "set (v_getters (fst step)) \<subseteq> set (v_getters (queue_view k q)) \<union>
      (if f = Fn_bq_get then {(r, syscall_args (pcbs k r) 1)} else {})"
  shows "queues_step f r k k'"
  unfolding queues_step_def
proof
  fix q' assume "q' \<in> set (lst k' Bq_registry)"
  with assms(1) have q': "q' \<in> set (lst k Bq_registry)" "bq_id (bqueues k' q') = bq_id (bqueues k q')"
    "q' \<noteq> q \<Longrightarrow> queue_view k' q' = queue_view k q'" "queue_view k' q = fst step"
    by (simp_all add: bq_refines_def del: bq_view_simps)
  then show "q' \<in> set (lst k Bq_registry) \<and> bq_id (bqueues k' q') = bq_id (bqueues k q') \<and>
          held (queue_view k' q') \<subseteq> held (queue_view k q') \<union>
            (if f = Fn_bq_put \<and> on_queue r k q' then {syscall_args (pcbs k r) 1} else {}) \<and>
          set (v_getters (queue_view k' q')) \<subseteq> set (v_getters (queue_view k q')) \<union>
            (if f = Fn_bq_get \<and> on_queue r k q' then {(r, syscall_args (pcbs k r) 1)} else {}) \<or>
        f = Fn_bq_create \<and> held (queue_view k' q') = {} \<and> v_getters (queue_view k' q') = []"
    using assms(2-4) by (cases "q' = q") (simp_all del: bq_view_simps)
qed

lemma bq_put_held:
  "held (fst (bq_put r v Q)) \<subseteq> held Q \<union> {v}" "set (v_getters (fst (bq_put r v Q))) \<subseteq> set (v_getters Q)"
  by (auto simp: bq_put_def held_def split: list.split)

lemma bq_get_held:
  "held (fst (bq_get r a Q)) \<subseteq> held Q" "set (v_getters (fst (bq_get r a Q))) \<subseteq> set (v_getters Q) \<union> {(r, a)}"
  by (cases "v_items Q"; cases "v_putters Q"; auto simp: bq_get_def held_def)+

lemma put_call:
  assumes "bq_refines q r (bq_put r (syscall_args (pcbs k r) 1) (queue_view k q)) k k'"
    and "on_queue r k q" and "cpu_state (pcbs k r) = Ctx_saved"
  shows "call_step Fn_bq_put r k k'"
proof -
  have "memory_step Fn_bq_put r k k'"
    using assms(1,2)
    by (auto simp: memory_step_def bq_refines_def bq_put_def bq_effect_def write_user_def simp del: bq_view_simps split: list.splits if_splits)
  moreover have "queues_step Fn_bq_put r k k'"
    by (rule refined_queues [OF assms(1,2)]) (use bq_put_held [of r "syscall_args (pcbs k r) 1" "queue_view k q"] in auto)
  ultimately show ?thesis using refined_population [OF assms(1,3)] by (simp add: call_step_def)
qed

lemma get_call:
  assumes "bq_refines q r (bq_get r (syscall_args (pcbs k r) 1) (queue_view k q)) k k'"
    and "on_queue r k q" and "cpu_state (pcbs k r) = Ctx_saved"
  shows "call_step Fn_bq_get r k k'"
proof -
  have "memory_step Fn_bq_get r k k'"
    using assms(1,2)
    by (auto simp: memory_step_def bq_refines_def bq_get_def bq_effect_def write_user_def simp del: bq_view_simps split: list.splits if_splits)
  moreover have "queues_step Fn_bq_get r k k'"
    by (rule refined_queues [OF assms(1,2)]) (use bq_get_held [where r = r and a = "syscall_args (pcbs k r) 1" and Q = "queue_view k q"] in auto)
  ultimately show ?thesis using refined_population [OF assms(1,3)] by (simp add: call_step_def)
qed

section \<open>The handlers of the queues\<close>

lemma put_handler_call:
  assumes ok: "kernel_ok k" and run: "running k = Some r" and call: "syscall_num (pcbs k r) = DSOS_CALL_BQ_PUT"
    and saved: "cpu_state (pcbs k r) = Ctx_saved"
  shows "keeps (internal_bq_put k) (call_step Fn_bq_put r k)"
proof (cases "bqueue_named (arg_int k r 0) k")
  case None
  then show ?thesis by (simp add: put_unknown [OF ok run] untouched_call)
next
  case q: (Some q)
  let ?free = "int (length (lst k (Items q))) < bq_capacity (bqueues k q)"
  consider "lst k (Wait_getters q) = []" "?free" "room k Bqitem_buffer \<le> 0"
    | "lst k (Wait_getters q) = []" "\<not> ?free" "room k Pcb_ptr_buffer \<le> 0"
    | "lst k (Wait_getters q) = [] \<longrightarrow> (if ?free then 0 < room k Bqitem_buffer else 0 < room k Pcb_ptr_buffer)"
    by (metis not_le)
  then show ?thesis
  proof cases
    case 1
    then show ?thesis by (simp add: put_pool_full [OF ok run q] untouched_call)
  next
    case 2
    then show ?thesis by (simp add: put_cases [OF ok run q] block_on_full [OF ok])
  next
    case 3
    show ?thesis
      by (rule keeps_ok [OF put_refines [OF ok run call q]]) (use 3 in \<open>auto split: if_splits intro: put_call [OF _ q saved]\<close>)
  qed
qed

lemma get_handler_call:
  assumes ok: "kernel_ok k" and run: "running k = Some r" and call: "syscall_num (pcbs k r) = DSOS_CALL_BQ_GET"
    and saved: "cpu_state (pcbs k r) = Ctx_saved"
  shows "keeps (internal_bq_get k) (call_step Fn_bq_get r k)"
proof (cases "bqueue_named (arg_int k r 0) k")
  case None
  then show ?thesis by (simp add: get_unknown [OF ok run] untouched_call)
next
  case q: (Some q)
  show ?thesis
  proof (cases "lst k (Items q) = [] \<and> room k Pcb_ptr_buffer \<le> 0")
    case True
    then show ?thesis by (simp add: get_eq [OF ok run q] block_on_full [OF ok])
  next
    case False
    show ?thesis
      by (rule keeps_ok [OF get_refines [OF ok run call q]]) (use False in \<open>auto intro: get_call [OF _ q saved]\<close>)
  qed
qed

lemma create_handler_call:
  assumes ok: "kernel_ok k" and run: "running k = Some r"
  shows "keeps (internal_bq_create k) (call_step Fn_bq_create r k)"
proof (cases "0 < arg_int k r 1 \<and> bqueue_named (arg_int k r 0) k = None \<and> 0 < room k Bq_buffer")
  case False
  then show ?thesis
    using bq_create_refused [OF ok run]
    by (cases "0 < arg_int k r 1"; cases "bqueue_named (arg_int k r 0) k") (auto simp: untouched_call)
next
  case True
  have "call_step Fn_bq_create r k k'" if "created r (arg_int k r 0) (arg_int k r 1) k k'" for k'
    using that kernel_okD(9) [OF ok]
    by (auto simp: effects call_step_def population_def memory_step_def queues_step_def alive_def queue_view_def queues_ok_def held_def)
  with True bq_create_ok [OF ok run] show ?thesis
    by (intro keeps_ok [of _ "\<lambda>k'. kernel_ok k' \<and> created r (arg_int k r 0) (arg_int k r 1) k k'"]) auto
qed

lemma delete_handler_call:
  assumes ok: "kernel_ok k" and run: "running k = Some r"
  shows "keeps (internal_bq_delete k) (call_step Fn_bq_delete r k)"
proof (cases "bqueue_named (arg_int k r 0) k")
  case None
  then show ?thesis by (simp add: bq_delete_refused(1) [OF ok run] untouched_call)
next
  case (Some q)
  show ?thesis
  proof (cases "lst k (Wait_getters q) = [] \<and> lst k (Wait_putters q) = []")
    case False
    with bq_delete_refused(2) [OF ok run Some] show ?thesis by (auto simp: untouched_call)
  next
    case True
    have d: "distinct (lst k Bq_registry)" by (rule struct_distinct [OF kernel_okD(1) [OF ok]])
    have "call_step Fn_bq_delete r k k'" if "deleted q r k k'" for k'
      using that d
      by (auto simp: effects call_step_def population_def memory_step_def queues_step_def alive_def queue_view_def held_def)
    with bq_delete_ok [OF ok run Some] True show ?thesis by (auto intro: keeps_ok)
  qed
qed

section \<open>From the call to the end of its trap\<close>

lemma shutdown_call: "call_step Fn_shutdown r k (internal_shutdown k)"
  by (simp add: untouched_call internal_shutdown_def untouched_def same_queues_def queue_view_def)

lemma handler_call:
  assumes ok: "kernel_ok k" and run: "running k = Some r" and call: "syscall_num (pcbs k r) = code_of f"
    and saved: "cpu_state (pcbs k r) = Ctx_saved"
  shows "keeps (run_handler f k) (\<lambda>(c, k'). call_step f r k k')"
proof -
  have ret: "keeps (returning h) (\<lambda>(c, k'). R k')" if "keeps h R" for h R
    using that by (cases h) (auto simp: returning_def)
  have un: "keeps h (call_step f r k)" if "leaves untouched k h" "f \<noteq> Fn_exit" for h f
    using that by (cases h) (simp_all add: untouched_call)
  have "keeps (internal_fork k) (call_step Fn_fork r k)"
    using fork_births [OF ok run] births_call [of _ k _ Fn_fork r] by (cases "internal_fork k") auto
  moreover have "keeps (internal_spawn k) (call_step Fn_spawn r k)"
    using spawn_births [OF ok run] births_call [of _ k _ Fn_spawn r] by (cases "internal_spawn k") (simp, auto)
  moreover have "keeps (internal_wait k) (call_step Fn_wait r k)"
    using wait_touches [OF ok run] touches_call by (cases "internal_wait k") auto
  moreover have "keeps (internal_exit k) (call_step Fn_exit r k)"
    using exit_dies [OF ok run] dies_call by (cases "internal_exit k") auto
  ultimately show ?thesis
    using call saved
    by (cases f)
      (auto intro!: ret un shutdown_call preempt_untouched [OF ok] sleep_untouched [OF ok run]
        open_untouched [OF ok run] close_untouched [OF ok run] destroy_untouched [OF ok run] bq_dump_untouched [OF ok run]
        create_handler_call [OF ok run] delete_handler_call [OF ok run] put_handler_call [OF ok run] get_handler_call [OF ok run])
qed

text \<open>
  The same of a system call with number \<open>n\<close> and arguments \<open>va\<close>, made by the process \<open>r\<close> in \<open>k\<close>: the context
  of the caller is saved, and its arguments are those of the call.
\<close>

definition calls_on :: "int list \<Rightarrow> kernel \<Rightarrow> ptr \<Rightarrow> bool" where
  "calls_on va k q \<longleftrightarrow> bqueue_named (to_int (va ! 0)) k = Some q"

definition confined_processes :: "int \<Rightarrow> int list \<Rightarrow> ptr \<Rightarrow> kernel \<Rightarrow> kernel \<Rightarrow> bool" where
  "confined_processes n va r k k' \<longleftrightarrow>
     (\<forall>x \<in> alive k'. x \<in> alive k \<and> cpu_state (pcbs k' x) = (if x = r then Ctx_saved else cpu_state (pcbs k x)) \<or>
        x \<notin> alive k \<and> (n = DSOS_CALL_FORK \<or> n = DSOS_CALL_SPAWN \<and> cpu_state (pcbs k' x) = Ctx_entry (va ! 0) (va ! 1))) \<and>
     (n = DSOS_CALL_EXIT \<longrightarrow> r \<notin> alive k')"

definition confined_memory :: "int \<Rightarrow> int list \<Rightarrow> kernel \<Rightarrow> kernel \<Rightarrow> bool" where
  "confined_memory n va k k' \<longleftrightarrow>
     (\<forall>a. user_mem k' a = user_mem k a \<or> n = DSOS_CALL_WAIT \<and> a = va ! 1 \<or>
        n = DSOS_CALL_BQ_GET \<and> a = va ! 1 \<and> (\<exists>q. calls_on va k q \<and> user_mem k' a \<in> set (v_items (queue_view k q))) \<or>
        n = DSOS_CALL_BQ_PUT \<and> user_mem k' a = va ! 1 \<and> (\<exists>q g. calls_on va k q \<and> (g, a) \<in> set (v_getters (queue_view k q))))"

definition confined_queues :: "int \<Rightarrow> int list \<Rightarrow> ptr \<Rightarrow> kernel \<Rightarrow> kernel \<Rightarrow> bool" where
  "confined_queues n va r k k' \<longleftrightarrow>
     (\<forall>q \<in> set (lst k' Bq_registry).
        q \<in> set (lst k Bq_registry) \<and> bq_id (bqueues k' q) = bq_id (bqueues k q) \<and>
          held (queue_view k' q) \<subseteq> held (queue_view k q) \<union> (if n = DSOS_CALL_BQ_PUT \<and> calls_on va k q then {va ! 1} else {}) \<and>
          set (v_getters (queue_view k' q)) \<subseteq> set (v_getters (queue_view k q)) \<union>
            (if n = DSOS_CALL_BQ_GET \<and> calls_on va k q then {(r, va ! 1)} else {}) \<or>
        n = DSOS_CALL_BQ_CREATE \<and> held (queue_view k' q) = {} \<and> v_getters (queue_view k' q) = [])"

lemma copy_args_nth:
  "copy_args m i va regs = Inr regs' \<Longrightarrow> j < m \<Longrightarrow> regs' (i + j) = va ! j"
proof (induction m arbitrary: i j va regs)
  case (Suc m)
  then obtain a vs where va: "va = a # vs" by (cases va) auto
  show ?case
  proof (cases j)
    case 0
    with Suc.prems show ?thesis by (auto simp: va dest: copy_args_low)
  next
    case (Suc i')
    with Suc.IH [of "Suc i" vs _ i'] Suc.prems show ?thesis by (simp add: va)
  qed
qed simp

lemma code_of_inj [simp]: "code_of f = code_of g \<longleftrightarrow> f = g"
  by (cases f; cases g; simp add: dsos_consts)

lemma alive_trapped [simp]: "alive (trapped r n regs k) = alive k"
  by (simp add: alive_def)

lemma call_confined:
  assumes ok: "kernel_ok k" and run: "running k = Some r"
    and regs: "copy_args (numarg f) 0 va (syscall_args (pcbs k r)) = Inr regs"
    and step: "call_step f r (trapped r (code_of f) regs k) k'"
  shows "confined_processes (code_of f) va r k k' \<and> confined_memory (code_of f) va k k' \<and> confined_queues (code_of f) va r k k'"
proof -
  have a: "regs 0 = va ! 0" "regs 1 = va ! 1" if "f \<in> {Fn_spawn, Fn_wait, Fn_bq_get, Fn_bq_put}"
    using copy_args_nth [OF regs, of 0] copy_args_nth [OF regs, of 1] that by (auto simp: numarg_values)
  have names: "bqueue_named qid (trapped r (code_of f) regs k) = bqueue_named qid k" for qid by simp
  note code = code_of.simps [symmetric]
  have cpu: "cpu_state (pcbs (trapped r (code_of f) regs k) x) = (if x = r then Ctx_saved else cpu_state (pcbs k x))"
    and args: "syscall_args (pcbs (trapped r (code_of f) regs k) r) = regs" for x
    by simp_all
  from step a show ?thesis
    unfolding call_step_def population_def memory_step_def queues_step_def confined_processes_def confined_memory_def
      confined_queues_def calls_on_def trapped_view [OF ok run] code code_of_inj names cpu args
    by (cases f) (simp_all del: bq_view_simps code_of.simps One_nat_def cong: if_cong)
qed

text \<open>The calls of all numbers, with or without a handler.\<close>

lemma untouched_confined:
  assumes ok: "kernel_ok k" and run: "running k = Some r" and u: "untouched (trapped r n regs k) k'" and n: "n \<noteq> DSOS_CALL_EXIT"
  shows "confined_processes n va r k k' \<and> confined_memory n va k k' \<and> confined_queues n va r k k'"
proof -
  have cpu: "cpu_state (pcbs (trapped r n regs k) x) = (if x = r then Ctx_saved else cpu_state (pcbs k x))" for x
    by simp
  from u n show ?thesis
    by (simp add: untouched_def same_queues_def same_processes_def confined_processes_def confined_memory_def
        confined_queues_def trapped_view [OF ok run] cpu del: bq_view_simps)
qed

lemma call_step_log [simp]: "call_step f r k (log_out s k') = call_step f r k k'"
  by (simp add: call_step_def population_def memory_step_def queues_step_def alive_def queue_view_def)

text \<open>The trap, after its log line: the branches that call no handler, and the one that does.\<close>

definition entered :: "ptr \<Rightarrow> kernel \<Rightarrow> kernel" where
  "entered r k = log_out (log_line (disastrOS_time k) (pid (pcbs k r)) (''SYSCALL_IN '' @ show_int (syscall_num (pcbs k r)))) k"

lemma returned_plain:
  "return_to_process n k2 = Inr (c, k') \<Longrightarrow> (k' = k2 \<or> (\<exists>s. k' = log_out s k2)) \<and> c \<noteq> To_main"
  by (auto simp: return_to_process_def and_then_Inr_iff split: if_splits option.splits)

lemma trap_cases:
  assumes run: "running k = Some r" and trap: "disastrOS_trap k = Inr (c, k')" and n: "n = syscall_num (pcbs k r)"
  obtains v where "n < 0 \<or> DSOS_MAX_SYSCALLS < n \<or> arr_read syscall_vector n = Inr None"
      "return_to_process n (set_retvalue r v (entered r k)) = Inr (c, k')"
    | f j k2 where "arr_read syscall_vector n = Inr (Some f)" "run_handler f (entered r k) = Inr (j, k2)"
      "(case j of Some c \<Rightarrow> Inr (c, k2) | None \<Rightarrow> return_to_process n k2) = Inr (c, k')"
proof -
  have eq: "disastrOS_trap k = (if n < 0 \<or> DSOS_MAX_SYSCALLS < n
      then return_to_process n (set_retvalue r DSOS_ESYSCALL_OUT_OF_RANGE (entered r k))
      else and_then (arr_read syscall_vector n) (\<lambda>g. case g of
          None \<Rightarrow> return_to_process n (set_retvalue r DSOS_ESYSCALL_NOT_IMPLEMENTED (entered r k))
        | Some f \<Rightarrow> and_then (run_handler f (entered r k)) (\<lambda>(jump, k2). case jump of
            Some c \<Rightarrow> Inr (c, k2) | None \<Rightarrow> return_to_process n k2)))"
    by (simp only: disastrOS_trap_def entered_def run deref.simps and_then.simps Let_def n)
  show thesis
  proof (cases "n < 0 \<or> DSOS_MAX_SYSCALLS < n")
    case True
    then show thesis using trap that(1) by (simp only: eq if_True) blast
  next
    case False
    with trap obtain g where g: "arr_read syscall_vector n = Inr g"
      and rest: "(case g of None \<Rightarrow> return_to_process n (set_retvalue r DSOS_ESYSCALL_NOT_IMPLEMENTED (entered r k))
       | Some f \<Rightarrow> and_then (run_handler f (entered r k)) (\<lambda>(jump, k2). case jump of
             Some c \<Rightarrow> Inr (c, k2) | None \<Rightarrow> return_to_process n k2)) = Inr (c, k')"
      unfolding eq by (auto simp only: if_False and_then_Inr_iff)
    then show thesis by (cases g) (auto simp: and_then_Inr_iff intro: that)
  qed
qed

lemma trap_call:
  assumes ok: "kernel_ok k" and run: "running k = Some r" and saved: "cpu_state (pcbs k r) = Ctx_saved"
    and n: "n = syscall_num (pcbs k r)" and trap: "disastrOS_trap k = Inr (c, k')"
  shows "((\<exists>f. n = code_of f \<and> call_step f r (entered r k) k') \<or> n \<noteq> DSOS_CALL_EXIT \<and> untouched (entered r k) k') \<and>
    (c = To_main \<longrightarrow> shutdown_now k' \<noteq> 0)"
proof (rule trap_cases [OF run trap n])
  fix v
  assume "n < 0 \<or> DSOS_MAX_SYSCALLS < n \<or> arr_read syscall_vector n = Inr None"
    and back_to: "return_to_process n (set_retvalue r v (entered r k)) = Inr (c, k')"
  then have "n \<noteq> DSOS_CALL_EXIT" using vector_complete [of Fn_exit] by (auto simp: dsos_consts)
  with returned_plain [OF back_to] show ?thesis by auto
next
  fix f j k2
  assume f: "arr_read syscall_vector n = Inr (Some f)" and h: "run_handler f (entered r k) = Inr (j, k2)"
    and go: "(case j of Some c \<Rightarrow> Inr (c, k2) | None \<Rightarrow> return_to_process n k2) = Inr (c, k')"
  have k1: "kernel_ok (entered r k)" "running (entered r k) = Some r" "syscall_num (pcbs (entered r k) r) = n"
    "cpu_state (pcbs (entered r k) r) = Ctx_saved" using ok run saved by (simp_all add: entered_def n)
  have nf: "n = code_of f" by (rule vector_code [OF f])
  have s: "call_step f r (entered r k) k2" using handler_call [OF k1(1,2), of f] k1(3,4) h by (simp add: nf)
  show ?thesis
  proof (cases j)
    case None
    then show ?thesis using go s nf returned_plain [of n k2 c k'] by auto
  next
    case (Some c0)
    then have "f = Fn_shutdown" using h by (cases f) (auto simp: returning_def and_then_Inr_iff)
    then show ?thesis using h go s nf Some by (auto simp: internal_shutdown_def intro!: exI [of _ Fn_shutdown])
  qed
qed

lemma running_alive: "kernel_ok k \<Longrightarrow> running k = Some r \<Longrightarrow> r \<in> alive k"
  using running_loose [of k r] running_notin [of k r] by (simp add: alive_def)

lemma syscall_confined:
  assumes ok: "kernel_ok k" and run: "running k = Some r" and call: "disastrOS_syscall n va k = Inr (Inr (c, k'))"
  shows "confined_processes n va r k k' \<and> confined_memory n va k k' \<and> confined_queues n va r k k' \<and>
    (c = To_main \<longrightarrow> shutdown_now k' \<noteq> 0)"
proof -
  from call obtain m regs where m: "arr_read syscall_numarg n = Inr m"
    and regs: "copy_args (nat m) 0 va (syscall_args (pcbs k r)) = Inr regs"
    and trap: "disastrOS_trap (upd_pcb r (\<lambda>b. b\<lparr>syscall_args := regs, syscall_num := n, cpu_state := Ctx_saved\<rparr>) k) = Inr (c, k')"
    using run by (auto simp: disastrOS_syscall_def Let_def and_then_Inr_iff split: if_splits)
  let ?k = "upd_pcb r (\<lambda>b. b\<lparr>syscall_args := regs, syscall_num := n, cpu_state := Ctx_saved\<rparr>) k"
  have k: "kernel_ok ?k" "running ?k = Some r" "cpu_state (pcbs ?k r) = Ctx_saved" "n = syscall_num (pcbs ?k r)"
    "entered r ?k = trapped r n regs k"
    using running_notin [OF ok run] run by (auto intro!: upd_ok [OF ok] simp: trapped_def entered_def)
  note t = trap_call [OF k(1-4) trap, unfolded k(5)]
  have "copy_args (numarg f) 0 va (syscall_args (pcbs k r)) = Inr regs" if "n = code_of f" for f
    using regs m numarg_read [of f] that by (metis nat_int sum.inject(2))
  with t call_confined [OF ok run] untouched_confined [OF ok run] show ?thesis by blast
qed

end
