(* ===== verification/Programs.thy ===== *)
theory Programs
  imports Hazards
begin

text \<open>
  The processes as programs: what a process function does, one action after the other, and the system in
  which every process runs its function.  A run of this system is a run of the machine, in which processes
  do whatever they like, as long as no process function returns.
\<close>

section \<open>Programs\<close>

text \<open>
  The actions of a process: a system call with its number and arguments, \<open>disastrOS_getpid\<close>, \<open>printf\<close>,
  \<open>disastrOS_printStatus\<close>, a write to and a read of a variable of type \<open>int\<close> or \<open>long\<close> in memory,
  an operation on values that may be undefined, and \<open>getc\<close> on the standard input.
\<close>

datatype action =
  Syscall int "int list" | Getpid | Printf string | Print_status | Store int int | Load int |
  Compute "fault + int" | Getc

text \<open>
  A process function, from some point of it on: it returns, or does an action and goes on with the value of
  it.  A function that loops forever is an infinite tree.
\<close>

codatatype program = Return | Do action "int \<Rightarrow> program"

text \<open>The effect of every action but a system call; \<open>inp\<close> is what \<open>getc\<close> reads.\<close>

fun perform :: "int \<Rightarrow> action \<Rightarrow> kernel \<Rightarrow> fault + int \<times> kernel" where
  "perform inp (Syscall n va) k = Inl Bad_pointer"
| "perform inp Getpid k = Inr (disastrOS_getpid k, k)"
| "perform inp (Printf s) k = Inr (int (length s), print_out s k)"
| "perform inp Print_status k = and_then (disastrOS_printStatus k) (\<lambda>k'. Inr (0, k'))"
| "perform inp (Store a v) k = Inr (0, k\<lparr>user_mem := (user_mem k)(a := v)\<rparr>)"
| "perform inp (Load a) k = Inr (user_mem k a, k)"
| "perform inp (Compute x) k = and_then x (\<lambda>v. Inr (v, k))"
| "perform inp Getc k = Inr (inp, k)"

section \<open>The system of processes\<close>

text \<open>
  A process that does not run is switched off between two actions, by the timer, or in a system call, whose
  value it has not read yet.
\<close>

datatype suspended = Between program | In_call "int \<Rightarrow> program"

text \<open>The machine, what the running process is about to do, and what the others will do when they run again.\<close>

record world =
  mach :: machine
  now :: program
  suspended :: "ptr \<Rightarrow> suspended"

text \<open>
  What a process does when the processor is given to it: a fresh context enters its function, which
  \<open>code\<close> gives for the function's address, its argument and the PCB that holds the stack; a saved context goes
  on from where it was saved.
\<close>

fun go_on :: "suspended \<Rightarrow> int \<Rightarrow> program" where
  "go_on (Between c) v = c"
| "go_on (In_call c) v = c v"

definition resumed :: "(int \<Rightarrow> int \<Rightarrow> ptr \<Rightarrow> program) \<Rightarrow> (ptr \<Rightarrow> suspended) \<Rightarrow> kernel \<Rightarrow> ptr \<Rightarrow> program" where
  "resumed code sus k p =
     (case cpu_state (pcbs k p) of
        Ctx_entry f a \<Rightarrow> code f a p
      | _ \<Rightarrow> go_on (sus p) (syscall_retvalue (pcbs k p)))"

text \<open>Where the system is after a transfer of control.\<close>

definition arrive :: "(int \<Rightarrow> int \<Rightarrow> ptr \<Rightarrow> program) \<Rightarrow> (ptr \<Rightarrow> suspended) \<Rightarrow> control \<Rightarrow> kernel \<Rightarrow> world" where
  "arrive code sus c k =
     \<lparr>mach = (enter c k, k), now = (case c of To_process p \<Rightarrow> resumed code sus k p | _ \<Rightarrow> Return), suspended = sus\<rparr>"

text \<open>
  The steps.  A function that returns goes on in \<open>main_context\<close>, the \<open>uc_link\<close> of its context.
\<close>

inductive prog_step :: "(int \<Rightarrow> int \<Rightarrow> ptr \<Rightarrow> program) \<Rightarrow> int \<Rightarrow> int \<Rightarrow> bool \<Rightarrow> world \<Rightarrow> world \<Rightarrow> bool"
  for code :: "int \<Rightarrow> int \<Rightarrow> ptr \<Rightarrow> program" and f :: int and f_args :: int and logging :: bool
where
  Own: "perform inp act k = Inr (v, k') \<Longrightarrow>
    prog_step code f f_args logging \<lparr>mach = (In_process, k), now = Do act c, suspended = sus\<rparr>
      \<lparr>mach = (In_process, k'), now = c v, suspended = sus\<rparr>"
| Own_fault: "perform inp act k = Inl e \<Longrightarrow> (\<forall>n va. act \<noteq> Syscall n va) \<Longrightarrow>
    prog_step code f f_args logging \<lparr>mach = (In_process, k), now = Do act c, suspended = sus\<rparr>
      \<lparr>mach = (Crashed e, k), now = Return, suspended = sus\<rparr>"
| Call: "running k = Some r \<Longrightarrow> disastrOS_syscall n va k = Inr (Inr (ctl, k')) \<Longrightarrow>
    prog_step code f f_args logging \<lparr>mach = (In_process, k), now = Do (Syscall n va) c, suspended = sus\<rparr>
      (arrive code (sus(r := In_call c)) ctl k')"
| Refuse: "disastrOS_syscall n va k = Inr (Inl v) \<Longrightarrow>
    prog_step code f f_args logging \<lparr>mach = (In_process, k), now = Do (Syscall n va) c, suspended = sus\<rparr>
      \<lparr>mach = (In_process, k), now = c v, suspended = sus\<rparr>"
| Call_fault: "disastrOS_syscall n va k = Inl e \<Longrightarrow>
    prog_step code f f_args logging \<lparr>mach = (In_process, k), now = Do (Syscall n va) c, suspended = sus\<rparr>
      \<lparr>mach = (Crashed e, k), now = Return, suspended = sus\<rparr>"
| Leave: "prog_step code f f_args logging \<lparr>mach = (In_process, k), now = Return, suspended = sus\<rparr>
      \<lparr>mach = (In_main, k), now = Return, suspended = sus\<rparr>"
| Tick: "running k = Some r \<Longrightarrow> timerHandler k = Inr (ctl, k') \<Longrightarrow>
    prog_step code f f_args logging \<lparr>mach = (In_process, k), now = c, suspended = sus\<rparr>
      (arrive code (sus(r := Between c)) ctl k')"
| Tick_fault: "timerHandler k = Inl e \<Longrightarrow>
    prog_step code f f_args logging \<lparr>mach = (In_process, k), now = c, suspended = sus\<rparr>
      \<lparr>mach = (Crashed e, k), now = Return, suspended = sus\<rparr>"
| Interrupt: "timerInterrupt k = Inr (ctl, k') \<Longrightarrow>
    prog_step code f f_args logging \<lparr>mach = (In_interrupt, k), now = c, suspended = sus\<rparr> (arrive code sus ctl k')"
| Interrupt_fault: "timerInterrupt k = Inl e \<Longrightarrow>
    prog_step code f f_args logging \<lparr>mach = (In_interrupt, k), now = c, suspended = sus\<rparr>
      \<lparr>mach = (Crashed e, k), now = Return, suspended = sus\<rparr>"
| Resume: "start_resume f f_args logging k = Inr (Some (ctl, k')) \<Longrightarrow>
    prog_step code f f_args logging \<lparr>mach = (In_main, k), now = c, suspended = sus\<rparr> (arrive code sus ctl k')"
| Stop: "start_resume f f_args logging k = Inr None \<Longrightarrow>
    prog_step code f f_args logging \<lparr>mach = (In_main, k), now = c, suspended = sus\<rparr>
      \<lparr>mach = (Finished, k), now = Return, suspended = sus\<rparr>"
| Resume_fault: "start_resume f f_args logging k = Inl e \<Longrightarrow>
    prog_step code f f_args logging \<lparr>mach = (In_main, k), now = c, suspended = sus\<rparr>
      \<lparr>mach = (Crashed e, k), now = Return, suspended = sus\<rparr>"

text \<open>The worlds that come about when \<open>main\<close> has printed \<open>out\<close> and calls \<open>disastrOS_start\<close>.\<close>

inductive prog_run ::
  "(region \<Rightarrow> int) \<Rightarrow> string \<Rightarrow> (int \<Rightarrow> int \<Rightarrow> ptr \<Rightarrow> program) \<Rightarrow> int \<Rightarrow> int \<Rightarrow> bool \<Rightarrow> world \<Rightarrow> bool"
  for sizeof :: "region \<Rightarrow> int" and out :: string and code :: "int \<Rightarrow> int \<Rightarrow> ptr \<Rightarrow> program" and f :: int
    and f_args :: int and logging :: bool
where
  Boot: "start_init sizeof (zero_kernel\<lparr>stdout := out\<rparr>) = Inr k \<Longrightarrow>
    prog_run sizeof out code f f_args logging \<lparr>mach = (In_main, k), now = Return, suspended = (\<lambda>_. Between Return)\<rparr>"
| Step: "prog_run sizeof out code f f_args logging w \<Longrightarrow> prog_step code f f_args logging w w' \<Longrightarrow>
    prog_run sizeof out code f f_args logging w'"

section \<open>Runs of programs are runs of the machine\<close>

text \<open>A process function has returned.\<close>

definition returned :: "world \<Rightarrow> bool" where
  "returned w \<longleftrightarrow> fst (mach w) = In_process \<and> now w = Return"

lemma perform_step:
  assumes "perform inp act k = Inr (v, k')"
  shows "k' = k \<or> sys_step f f_args logging (In_process, k) (In_process, k')"
  using assms by (cases act) (auto simp: and_then_Inr_iff intro: sys_step.intros)

lemma step_machine:
  assumes "prog_step code f f_args logging w w'" and "\<not> returned w" and "\<forall>e. fst (mach w') \<noteq> Crashed e"
  shows "(sys_step f f_args logging)\<^sup>*\<^sup>* (mach w) (mach w')"
  using assms
proof (induction rule: prog_step.induct)
  case (Own inp act k v k' c sus)
  then show ?case using perform_step [of inp act k v k'] by auto
next
  case (Call k r n va ctl k' c sus)
  have "sys_step f f_args logging (In_process, k) (outcome k (Inr (ctl, k')))" by (rule sys_step.Call) (rule Call)
  then show ?case by (simp add: outcome_def arrive_def)
next
  case (Tick k r ctl k' c sus)
  have "sys_step f f_args logging (In_process, k) (outcome k (timerHandler k))" by (rule sys_step.Tick)
  then show ?case by (simp add: outcome_def arrive_def Tick)
next
  case (Interrupt k ctl k' c sus)
  have "sys_step f f_args logging (In_interrupt, k) (outcome k (timerInterrupt k))" by (rule sys_step.Interrupt)
  then have "(sys_step f f_args logging)\<^sup>*\<^sup>* (In_interrupt, k) (outcome k (timerInterrupt k))" by (rule r_into_rtranclp)
  then show ?case by (simp add: outcome_def arrive_def Interrupt)
next
  case (Resume k ctl k' c sus)
  have "sys_step f f_args logging (In_main, k) (outcome k (Inr (ctl, k')))" by (rule sys_step.Resume) (rule Resume)
  then show ?case by (simp add: outcome_def arrive_def)
qed (auto simp: returned_def intro: sys_step.intros)

end
