(* ===== verification/Program_Logic.thy ===== *)
theory Program_Logic
  imports Process_Frame Programs
begin

text \<open>
  What holds of a system in which every process function keeps to a policy: no function returns, the values
  on a shared queue and in the variables that receive them are good ones, and processes exit with the exit
  values of the policy, in every interleaving that the scheduler and the timer can produce.
\<close>

section \<open>Policies\<close>

text \<open>
  A policy names the functions (with their arguments) that processes enter, the values they may exit with, the
  identifier of the shared queue with the values that may be put on it, and the variables that receive them.
\<close>

record policy =
  entries :: "(int \<times> int) set"
  exits :: "int set"
  shared :: int
  goods :: "int set"
  slots :: "int set"

text \<open>What the policy lets a process do; \<open>-1\<close> is the initial value of the variables.\<close>

fun allowed :: "policy \<Rightarrow> action \<Rightarrow> bool" where
  "allowed P (Store a v) \<longleftrightarrow> (a \<in> slots P \<longrightarrow> v = -1)"
| "allowed P (Syscall n va) \<longleftrightarrow>
     n \<noteq> DSOS_CALL_FORK \<and> (n = DSOS_CALL_SPAWN \<longrightarrow> (va ! 0, va ! 1) \<in> entries P) \<and>
     (n = DSOS_CALL_EXIT \<longrightarrow> va ! 0 \<in> exits P) \<and> (n = DSOS_CALL_WAIT \<longrightarrow> va ! 1 \<notin> slots P) \<and>
     (n = DSOS_CALL_BQ_PUT \<longrightarrow> to_int (va ! 0) = shared P \<longrightarrow> va ! 1 \<in> goods P) \<and>
     (n = DSOS_CALL_BQ_GET \<longrightarrow> to_int (va ! 0) = shared P \<or> va ! 1 \<notin> slots P)"
| "allowed P _ \<longleftrightarrow> True"

text \<open>
  The variables of the policy that an action initialises, and the values it can have when those in \<open>B\<close> have been
  initialised: such a variable holds its initial value or a good one, and \<open>exit\<close> and \<open>shutdown\<close> do not come back.
\<close>

fun initialised :: "policy \<Rightarrow> action \<Rightarrow> int set" where
  "initialised P (Store a v) = (if a \<in> slots P \<and> v = -1 then {a} else {})"
| "initialised P _ = {}"

fun possible :: "policy \<Rightarrow> int set \<Rightarrow> action \<Rightarrow> int \<Rightarrow> bool" where
  "possible P B (Load a) v \<longleftrightarrow> (a \<in> B \<longrightarrow> v \<in> insert (-1) (goods P))"
| "possible P B (Compute x) v \<longleftrightarrow> x = Inr v"
| "possible P B (Syscall n args) v \<longleftrightarrow> n \<noteq> DSOS_CALL_EXIT \<and> n \<noteq> DSOS_CALL_SHUTDOWN"
| "possible P B _ v \<longleftrightarrow> True"

text \<open>
  A program obeys the policy when all it ever does is allowed, whatever values it meets, and it never returns.
\<close>

coinductive obeys :: "policy \<Rightarrow> int set \<Rightarrow> program \<Rightarrow> bool"
where
  Act: "allowed P act \<Longrightarrow> \<forall>v. possible P B act v \<longrightarrow> obeys P (B \<union> initialised P act) (c v) \<Longrightarrow> obeys P B (Do act c)"

inductive_simps obeys_Return [simp]: "obeys P B Return"
inductive_simps obeys_Do: "obeys P B (Do act c)"

text \<open>A loop whose control states the function \<open>go\<close> turns into programs.\<close>

lemma obeys_loop:
  assumes "R s"
    and "\<And>s. R s \<Longrightarrow> go s = Do (act s) (\<lambda>v. go (nxt s v)) \<and> allowed P (act s) \<and> initialised P (act s) = {}"
    and "\<And>s v. R s \<Longrightarrow> possible P B (act s) v \<Longrightarrow> R (nxt s v)"
  shows "obeys P B (go s)"
  using assms(1)
proof (coinduction arbitrary: s)
  case obeys
  have "\<exists>s'. go (nxt s v) = go s' \<and> R s'" if "possible P B (act s) v" for v
    using assms(3) [OF obeys that] by blast
  then show ?case using assms(2) [OF obeys]
    by (intro exI [where x = P] exI [where x = "act s"] exI [where x = B] exI [where x = "\<lambda>v. go (nxt s v)"]) simp
qed

text \<open>What this comes to, action by action.\<close>

lemma obeys_simps [simp]:
  "obeys P B (Do Getpid c) \<longleftrightarrow> (\<forall>v. obeys P B (c v))"
  "obeys P B (Do (Printf s) c) \<longleftrightarrow> (\<forall>v. obeys P B (c v))"
  "obeys P B (Do Print_status c) \<longleftrightarrow> (\<forall>v. obeys P B (c v))"
  "obeys P B (Do Getc c) \<longleftrightarrow> (\<forall>v. obeys P B (c v))"
  "obeys P B (Do (Compute x) c) \<longleftrightarrow> (\<forall>v. x = Inr v \<longrightarrow> obeys P B (c v))"
  "obeys P B (Do (Load a) c) \<longleftrightarrow> (\<forall>v. (a \<in> B \<longrightarrow> v \<in> insert (-1) (goods P)) \<longrightarrow> obeys P B (c v))"
  "a \<notin> slots P \<Longrightarrow> obeys P B (Do (Store a u) c) \<longleftrightarrow> (\<forall>v. obeys P B (c v))"
  "a \<in> slots P \<Longrightarrow> obeys P B (Do (Store a (-1)) c) \<longleftrightarrow> (\<forall>v. obeys P (insert a B) (c v))"
  "obeys P B (Do (Syscall n args) c) \<longleftrightarrow> allowed P (Syscall n args) \<and>
     (n \<noteq> DSOS_CALL_EXIT \<and> n \<noteq> DSOS_CALL_SHUTDOWN \<longrightarrow> (\<forall>v. obeys P B (c v)))"
  unfolding obeys_Do by simp_all

section \<open>Worlds that keep to a policy\<close>

definition good_memory :: "policy \<Rightarrow> int set \<Rightarrow> (int \<Rightarrow> int) \<Rightarrow> bool" where
  "good_memory P B mem \<longleftrightarrow> B \<subseteq> slots P \<and> mem ` B \<subseteq> insert (-1) (goods P)"

definition obeying :: "policy \<Rightarrow> (int \<Rightarrow> int) \<Rightarrow> program \<Rightarrow> bool" where
  "obeying P mem p \<longleftrightarrow> (\<exists>B. good_memory P B mem \<and> obeys P B p)"

lemma obeyingI: "obeys P B p \<Longrightarrow> good_memory P B mem \<Longrightarrow> obeying P mem p"
  unfolding obeying_def by blast

lemma obeying_next:
  assumes "obeying P mem (Do act c)"
  shows "\<exists>B. good_memory P B mem \<and> allowed P act \<and>
    (\<forall>v. possible P B act v \<longrightarrow> obeys P (B \<union> initialised P act) (c v))"
  using assms by (simp only: obeying_def obeys_Do)

text \<open>The memory of the variables may only change to good values.\<close>

definition good_writes :: "policy \<Rightarrow> (int \<Rightarrow> int) \<Rightarrow> (int \<Rightarrow> int) \<Rightarrow> bool" where
  "good_writes P mem mem' \<longleftrightarrow> (\<forall>a \<in> slots P. mem' a = mem a \<or> mem' a \<in> insert (-1) (goods P))"

lemma good_memory_writes: "good_memory P B mem \<Longrightarrow> good_writes P mem mem' \<Longrightarrow> good_memory P B mem'"
  by (fastforce simp: good_memory_def good_writes_def)

lemma good_memory_empty [simp]: "good_memory P {} mem"
  by (simp add: good_memory_def)

lemma obeying_writes: "obeying P mem p \<Longrightarrow> good_writes P mem mem' \<Longrightarrow> obeying P mem' p"
  unfolding obeying_def using good_memory_writes by blast

lemma good_writes_refl [simp]: "good_writes P mem mem"
  by (simp add: good_writes_def)

definition resumable :: "policy \<Rightarrow> (ptr \<Rightarrow> suspended) \<Rightarrow> kernel \<Rightarrow> ptr \<Rightarrow> bool" where
  "resumable P sus k x \<longleftrightarrow>
     (case cpu_state (pcbs k x) of
        Ctx_unset \<Rightarrow> False
      | Ctx_entry f a \<Rightarrow> (f, a) \<in> entries P
      | Ctx_saved \<Rightarrow> (\<forall>v. obeying P (user_mem k) (go_on (sus x) v)))"

lemma resumable_frame:
  assumes "resumable P sus k x" and "cpu_state (pcbs k' x) = cpu_state (pcbs k x)" and "sus' x = sus x"
    and "good_writes P (user_mem k) (user_mem k')"
  shows "resumable P sus' k' x"
  using assms by (auto simp: resumable_def split: machine_context.splits intro: obeying_writes)

definition good_queues :: "policy \<Rightarrow> kernel \<Rightarrow> bool" where
  "good_queues P k \<longleftrightarrow>
     (\<forall>q \<in> set (lst k Bq_registry).
        (bq_id (bqueues k q) = shared P \<longrightarrow> held (queue_view k q) \<subseteq> goods P) \<and>
        (\<forall>(g, a) \<in> set (v_getters (queue_view k q)). bq_id (bqueues k q) = shared P \<or> a \<notin> slots P))"

lemma good_queues_same: "same_queues k k' \<Longrightarrow> good_queues P k \<Longrightarrow> good_queues P k'"
  by (simp add: good_queues_def same_queues_def del: bq_view_simps)

text \<open>A system of processes of which each can go on, apart from \<open>who\<close>.\<close>

definition orderly :: "policy \<Rightarrow> (ptr \<Rightarrow> suspended) \<Rightarrow> ptr option \<Rightarrow> kernel \<Rightarrow> bool" where
  "orderly P sus who k \<longleftrightarrow> good_queues P k \<and> (\<forall>x \<in> alive k. who \<noteq> Some x \<longrightarrow> resumable P sus k x)"

lemma orderly_untouched:
  assumes "orderly P sus who k" and "untouched k k'"
  shows "orderly P sus who k'"
  using assms resumable_frame [of P sus k _ k' sus] good_queues_same [of k k' P]
  by (simp add: orderly_def untouched_def same_processes_def)

fun world_ok :: "policy \<Rightarrow> mode \<Rightarrow> world \<Rightarrow> bool" where
  "world_ok P In_process w \<longleftrightarrow>
     (\<exists>r. running (snd (mach w)) = Some r \<and> orderly P (suspended w) (Some r) (snd (mach w)) \<and>
        obeying P (user_mem (snd (mach w))) (now w))"
| "world_ok P In_interrupt w \<longleftrightarrow> orderly P (suspended w) None (snd (mach w))"
| "world_ok P In_main w \<longleftrightarrow> shutdown_now (snd (mach w)) \<noteq> 0 \<or> orderly P (suspended w) None (snd (mach w))"
| "world_ok P Finished w \<longleftrightarrow> True"
| "world_ok P (Crashed e) w \<longleftrightarrow> True"

definition in_order :: "policy \<Rightarrow> world \<Rightarrow> bool" where
  "in_order P w \<longleftrightarrow> machine_ok (mach w) \<and> world_ok P (fst (mach w)) w"

text \<open>What the order means: no process function has returned, and whoever exits does so with one of the values.\<close>

lemma in_order_running: "in_order P w \<Longrightarrow> \<not> returned w"
  by (cases "mach w") (auto simp: in_order_def returned_def obeying_def)

lemma in_order_exits:
  assumes "in_order P w" and "mach w = (In_process, k)" and "now w = Do (Syscall DSOS_CALL_EXIT [x]) c"
  shows "x \<in> exits P"
  using assms obeying_next by (fastforce simp: in_order_def)

section \<open>Every step keeps the order\<close>

text \<open>
  The contract between the functions of a program and the system: each entry of the policy is a function that
  obeys it, wherever its stack is.
\<close>

locale disciplined_code =
  fixes code :: "int \<Rightarrow> int \<Rightarrow> ptr \<Rightarrow> program" and P :: policy
  assumes entries_obey: "(f, a) \<in> entries P \<Longrightarrow> obeys P {} (code f a p)"
begin

text \<open>Giving the processor to a process that can go on.\<close>

lemma resumed_obeys:
  assumes "resumable P sus k x"
  shows "obeying P (user_mem k) (resumed code sus k x)"
proof (cases "cpu_state (pcbs k x)")
  case (Ctx_entry f a)
  with assms have "(f, a) \<in> entries P" by (simp add: resumable_def)
  from obeyingI [OF entries_obey [OF this]] show ?thesis by (simp add: resumed_def Ctx_entry)
qed (use assms in \<open>simp_all add: resumable_def resumed_def\<close>)

lemma arrive_ok:
  assumes ok: "kernel_ok k" and c: "control_ok c k" and o: "shutdown_now k \<noteq> 0 \<and> c = To_main \<or> orderly P sus None k"
  shows "in_order P (arrive code sus c k)"
proof (cases c)
  case (To_process p)
  with o c have run: "running k = Some p" and o: "orderly P sus None k" by auto
  have "resumable P sus k p" using o running_alive [OF ok run] by (simp add: orderly_def)
  with resumed_obeys [OF this] run o ok show ?thesis
    by (auto simp: arrive_def in_order_def To_process resumable_def orderly_def)
qed (use assms in \<open>auto simp: arrive_def in_order_def\<close>)

text \<open>The actions of the running process that are not calls.\<close>

lemma perform_ok:
  assumes p: "perform inp act k = Inr (v, k')" and ok: "kernel_ok k" and run: "running k = Some r"
    and o: "orderly P sus (Some r) k" and now: "obeying P (user_mem k) (Do act c)"
  shows "kernel_ok k' \<and> running k' = Some r \<and> orderly P sus (Some r) k' \<and> obeying P (user_mem k') (c v)"
proof -
  from now obtain B where B: "good_memory P B (user_mem k)"
    and a: "allowed P act" "\<And>v. possible P B act v \<Longrightarrow> obeys P (B \<union> initialised P act) (c v)"
    by (blast dest: obeying_next)
  have quiet: ?thesis if "kernel_ok k'" "running k' = Some r" "untouched k k'" "initialised P act = {}" "possible P B act v"
  proof -
    have "user_mem k' = user_mem k" using that(3) by (simp add: untouched_def)
    with obeyingI [OF a(2) [OF that(5)]] B that(4) have "obeying P (user_mem k') (c v)" by simp
    then show ?thesis using that(1-3) orderly_untouched [OF o] by blast
  qed
  show ?thesis
  proof (cases act)
    case (Store x u)
    with p have k': "k' = k\<lparr>user_mem := (user_mem k)(x := u)\<rparr>" "v = 0" by simp_all
    have w: "good_writes P (user_mem k) (user_mem k')" using a(1) Store by (simp add: k' good_writes_def)
    have "same_queues k k'" "alive k' = alive k" by (simp_all add: k' same_queues_def queue_view_def alive_def)
    with o w have "orderly P sus (Some r) k'"
      using resumable_frame [of P sus k _ k' sus] by (auto simp: orderly_def k' intro: good_queues_same)
    moreover have "obeying P (user_mem k') (c v)"
      by (rule obeyingI [OF a(2)]) (use B Store a(1) in \<open>auto simp: good_memory_def k'\<close>)
    ultimately show ?thesis using ok run by (simp add: k')
  next
    case (Load x)
    then show ?thesis using p B ok run by (intro quiet) (auto simp: good_memory_def)
  next
    case Print_status
    with p printStatus_total [OF kernel_okD(1) [OF ok]] obtain s where "k' = print_out s k" by (auto simp: and_then_Inr_iff)
    then show ?thesis using ok run Print_status by (intro quiet) simp_all
  qed (rule quiet; use p ok run in \<open>auto simp: and_then_Inr_iff\<close>)+
qed

text \<open>A system call: what it may change is what the policy is about.\<close>

lemma call_writes:
  assumes "confined_memory n va k k'" and "allowed P (Syscall n va)" and "good_queues P k"
  shows "good_writes P (user_mem k) (user_mem k')"
  unfolding good_writes_def
proof
  fix a assume a: "a \<in> slots P"
  have named: "q \<in> set (lst k Bq_registry) \<and> bq_id (bqueues k q) = to_int (va ! 0)" if "calls_on va k q" for q
    using that find_Some_iff_first unfolding calls_on_def bqueue_named_def by fastforce
  from assms(1) consider "user_mem k' a = user_mem k a" | "n = DSOS_CALL_WAIT" "a = va ! 1"
    | q where "n = DSOS_CALL_BQ_GET" "a = va ! 1" "calls_on va k q" "user_mem k' a \<in> set (v_items (queue_view k q))"
    | q g where "n = DSOS_CALL_BQ_PUT" "user_mem k' a = va ! 1" "calls_on va k q" "(g, a) \<in> set (v_getters (queue_view k q))"
    unfolding confined_memory_def by blast
  then show "user_mem k' a = user_mem k a \<or> user_mem k' a \<in> insert (-1) (goods P)"
  proof cases
    case 3
    then have "held (queue_view k q) \<subseteq> goods P" using named [OF 3(3)] assms(2,3) a by (auto simp: good_queues_def)
    with 3(4) show ?thesis by (auto simp: held_def)
  next
    case 4
    then have "bq_id (bqueues k q) = shared P" using named [OF 4(3)] assms(3) a by (auto simp: good_queues_def)
    with 4 named [OF 4(3)] assms(2) show ?thesis by (auto simp: dsos_consts)
  qed (use assms(2) a in \<open>auto simp: dsos_consts\<close>)
qed

lemma call_queues:
  assumes "confined_queues n va r k k'" and "allowed P (Syscall n va)" and "good_queues P k"
  shows "good_queues P k'"
  unfolding good_queues_def
proof
  fix q assume q: "q \<in> set (lst k' Bq_registry)"
  have named: "bq_id (bqueues k q) = to_int (va ! 0)" if "calls_on va k q"
    using that find_Some_iff_first unfolding calls_on_def bqueue_named_def by fastforce
  from assms(1) q consider "held (queue_view k' q) = {}" "v_getters (queue_view k' q) = []"
    | "q \<in> set (lst k Bq_registry)" "bq_id (bqueues k' q) = bq_id (bqueues k q)"
      "held (queue_view k' q) \<subseteq> held (queue_view k q) \<union> (if n = DSOS_CALL_BQ_PUT \<and> calls_on va k q then {va ! 1} else {})"
      "set (v_getters (queue_view k' q)) \<subseteq> set (v_getters (queue_view k q)) \<union>
            (if n = DSOS_CALL_BQ_GET \<and> calls_on va k q then {(r, va ! 1)} else {})"
    unfolding confined_queues_def by blast
  then show "(bq_id (bqueues k' q) = shared P \<longrightarrow> held (queue_view k' q) \<subseteq> goods P) \<and>
      (\<forall>(g, a) \<in> set (v_getters (queue_view k' q)). bq_id (bqueues k' q) = shared P \<or> a \<notin> slots P)"
  proof cases
    case 2
    have "held (queue_view k' q) \<subseteq> goods P" if s: "bq_id (bqueues k' q) = shared P"
    proof -
      have "held (queue_view k q) \<subseteq> goods P" using 2(1,2) s assms(3) by (simp add: good_queues_def)
      moreover have "va ! 1 \<in> goods P" if "n = DSOS_CALL_BQ_PUT" "calls_on va k q"
        using that named 2(2) s assms(2) by (auto simp: dsos_consts)
      ultimately show ?thesis using 2(3) by (auto split: if_splits)
    qed
    moreover have "bq_id (bqueues k' q) = shared P \<or> a \<notin> slots P" if "(g, a) \<in> set (v_getters (queue_view k' q))" for g a
    proof (cases "(g, a) \<in> set (v_getters (queue_view k q))")
      case True
      with assms(3) 2(1,2) show ?thesis by (fastforce simp: good_queues_def)
    next
      case False
      with that 2(4) have "n = DSOS_CALL_BQ_GET" "calls_on va k q" "a = va ! 1" by (auto split: if_splits)
      with named assms(2) 2(2) show ?thesis by (auto simp: dsos_consts)
    qed
    ultimately show ?thesis by blast
  qed simp
qed

lemma call_ok:
  assumes ok: "kernel_ok k" and run: "running k = Some r" and call: "disastrOS_syscall n va k = Inr (Inr (ctl, k'))"
    and o: "orderly P sus (Some r) k" and now: "obeying P (user_mem k) (Do (Syscall n va) c)"
  shows "in_order P (arrive code (sus(r := In_call c)) ctl k')"
proof (rule arrive_ok)
  note conf = syscall_confined [OF ok run call]
  from now obtain B where B: "good_memory P B (user_mem k)" and a: "allowed P (Syscall n va)"
    and "\<forall>v. possible P B (Syscall n va) v \<longrightarrow> obeys P (B \<union> initialised P (Syscall n va)) (c v)"
    by (blast dest: obeying_next)
  then have c: "obeys P B (c v)" if "possible P B (Syscall n va) v" for v using that by simp
  show "kernel_ok k'" "control_ok ctl k'" using syscall_keeps [OF ok, of n va] call by auto
  have w: "good_writes P (user_mem k) (user_mem k')" using call_writes conf a o by (auto simp: orderly_def)
  have go: "obeying P (user_mem k') (c v)" if "n \<noteq> DSOS_CALL_EXIT" "n \<noteq> DSOS_CALL_SHUTDOWN" for v
    by (rule obeying_writes [OF _ w], rule obeyingI [OF c]) (use B that in simp_all)
  have "resumable P (sus(r := In_call c)) k' x" if x: "x \<in> alive k'" and n: "n \<noteq> DSOS_CALL_SHUTDOWN" for x
  proof -
    from conf x have conf: "x \<in> alive k \<and> cpu_state (pcbs k' x) = (if x = r then Ctx_saved else cpu_state (pcbs k x)) \<or>
        x \<notin> alive k \<and> (n = DSOS_CALL_FORK \<or> n = DSOS_CALL_SPAWN \<and> cpu_state (pcbs k' x) = Ctx_entry (va ! 0) (va ! 1))"
      "n = DSOS_CALL_EXIT \<longrightarrow> r \<notin> alive k'"
      unfolding confined_processes_def by blast+
    show ?thesis
    proof (cases "x \<in> alive k")
      case False
      with conf a show ?thesis by (auto simp: resumable_def)
    next
      case True
      show ?thesis
      proof (cases "x = r")
        case True
        with conf x n go \<open>x \<in> alive k\<close> show ?thesis by (simp add: resumable_def)
      next
        case False
        with o True have "resumable P sus k x" by (simp add: orderly_def)
        then show ?thesis by (rule resumable_frame) (use conf True False w in auto)
      qed
    qed
  qed
  moreover have "good_queues P k'" using call_queues conf a o by (auto simp: orderly_def)
  moreover have "ctl = To_main \<and> shutdown_now k' \<noteq> 0" if "n = DSOS_CALL_SHUTDOWN"
  proof -
    have "\<exists>k1. disastrOS_syscall DSOS_CALL_SHUTDOWN va k = Inr (Inr (To_main, k1))"
      using shutdown_call_exits [OF run] by blast
    with call that conf show ?thesis by auto
  qed
  ultimately show "shutdown_now k' \<noteq> 0 \<and> ctl = To_main \<or> orderly P (sus(r := In_call c)) None k'"
    by (auto simp: orderly_def)
qed

text \<open>The timer, the return to \<open>main_context\<close> and the start of a process.\<close>

lemma tick_ok:
  assumes ok: "kernel_ok k" and run: "running k = Some r" and tick: "timerHandler k = Inr (ctl, k')"
    and o: "orderly P sus (Some r) k" and now: "obeying P (user_mem k) c"
  shows "in_order P (arrive code (sus(r := Between c)) ctl k')"
proof (rule arrive_ok)
  show "kernel_ok k'" "control_ok ctl k'" using handler_tick_keeps [OF ok] tick by auto
  have cpu: "cpu_state (pcbs (saved k) x) = (if x = r then Ctx_saved else cpu_state (pcbs k x))" for x
    by (simp add: saved_def run upd_pcb_at)
  have "resumable P (sus(r := Between c)) (saved k) x" if "x \<in> alive k" for x
  proof (cases "x = r")
    case True
    with now show ?thesis by (simp add: resumable_def cpu)
  next
    case False
    with o that have "resumable P sus k x" by (simp add: orderly_def)
    then show ?thesis by (rule resumable_frame) (use False in \<open>simp_all add: cpu\<close>)
  qed
  then have "orderly P (sus(r := Between c)) None (saved k)"
    using o by (auto simp: orderly_def intro: good_queues_same [OF saved_simps(2)])
  then show "shutdown_now k' \<noteq> 0 \<and> ctl = To_main \<or> orderly P (sus(r := Between c)) None k'"
    using orderly_untouched handler_tick_untouched [OF ok] tick by auto
qed

lemma interrupt_ok:
  assumes ok: "kernel_ok k" and go: "timerInterrupt k = Inr (ctl, k')" and o: "orderly P sus None k"
  shows "in_order P (arrive code sus ctl k')"
  by (rule arrive_ok) (use interrupt_keeps [OF ok] go orderly_untouched [OF o] interrupt_untouched [OF ok] in auto)

lemma resume_ok:
  assumes ok: "kernel_ok k" and main: "control_ok To_main k" and go: "start_resume f f_args logging k = Inr (Some (ctl, k'))"
    and o: "orderly P sus None k" and entry: "(f, f_args) \<in> entries P"
  shows "in_order P (arrive code sus ctl k')"
proof (rule arrive_ok)
  show "kernel_ok k'" "control_ok ctl k'" using start_resume_keeps [OF ok main, of f f_args logging] go by auto
  have n: "shutdown_now k = 0" using go by (auto simp: start_resume_def split: if_splits)
  then have "0 < room k Pcb_buffer" "last_pid k < 2 ^ 31 - 1"
    using go start_resume_full [OF ok n, of f f_args logging] start_resume_overflow [OF ok n, of f f_args logging]
    by fastforce+
  with start_resume_ok [OF ok _ n, of f f_args logging] main n go obtain p where
    p: "p \<notin> in_use k Pcb_buffer" "in_use k' Pcb_buffer = insert p (in_use k Pcb_buffer)"
      "cpu_state (pcbs k' p) = Ctx_entry f f_args" "\<forall>h. h \<noteq> Descriptors p \<longrightarrow> lst k' h = lst k h"
      "\<forall>x. x \<noteq> p \<longrightarrow> pcbs k' x = pcbs k x" "user_mem k' = user_mem k"
    by auto
  have "resumable P sus k' x" if "x \<in> alive k'" for x
  proof (cases "x = p")
    case True
    with p(3) entry show ?thesis by (simp add: resumable_def)
  next
    case False
    with o that p have "resumable P sus k x" by (auto simp: orderly_def alive_def)
    then show ?thesis by (rule resumable_frame) (use False p in simp_all)
  qed
  moreover have "good_queues P k'" using resume_queues [OF ok main go] o by (auto simp: orderly_def intro: good_queues_same)
  ultimately show "shutdown_now k' \<noteq> 0 \<and> ctl = To_main \<or> orderly P sus None k'" by (simp add: orderly_def)
qed

lemma refused_number: "disastrOS_syscall n va k = Inr (Inl v) \<Longrightarrow> n \<noteq> DSOS_CALL_EXIT \<and> n \<noteq> DSOS_CALL_SHUTDOWN"
  by (auto simp: disastrOS_syscall_def Let_def and_then_Inr_iff dsos_consts split: if_splits)

lemma step_in_order:
  assumes "prog_step code f f_args logging w w'" and "in_order P w" and "(f, f_args) \<in> entries P"
  shows "in_order P w'"
  using assms
proof (induction rule: prog_step.induct)
  case (Own inp act k v k' c sus)
  then show ?case using perform_ok [of inp act k v k' _ sus c] by (auto simp: in_order_def)
next
  case (Call k r n va ctl k' c sus)
  then show ?case using call_ok [of k r n va ctl k' sus c] by (simp add: in_order_def)
next
  case (Refuse n va k v c sus)
  then obtain r where r: "kernel_ok k" "running k = Some r" "orderly P sus (Some r) k"
    "obeying P (user_mem k) (Do (Syscall n va) c)" by (auto simp: in_order_def)
  from obeying_next [OF r(4)] refused_number [OF Refuse(1)] have "obeying P (user_mem k) (c v)"
    by (auto intro: obeyingI)
  with r show ?case by (simp add: in_order_def)
next
  case (Leave k sus)
  then show ?case by (simp add: in_order_def obeying_def)
next
  case (Tick k r ctl k' c sus)
  then show ?case using tick_ok [of k r ctl k' sus c] by (simp add: in_order_def)
next
  case (Interrupt k ctl k' c sus)
  then show ?case using interrupt_ok [of k ctl k' sus] by (simp add: in_order_def)
next
  case (Resume k ctl k' c sus)
  then have "shutdown_now k = 0" by (auto simp: start_resume_def split: if_splits)
  with Resume resume_ok [of k f f_args logging ctl k' sus] show ?case by (simp add: in_order_def)
next
  case (Stop k c sus)
  then have "sys_step f f_args logging (In_main, k) (Finished, k)" by (auto intro: sys_step.Stop)
  from step_ok [OF this] Stop show ?case by (simp add: in_order_def)
qed (simp_all add: in_order_def)

lemma run_in_order:
  assumes "prog_run sizeof out code f f_args logging w" and "sizes_ok sizeof" and "(f, f_args) \<in> entries P"
  shows "in_order P w"
  using assms
proof (induction rule: prog_run.induct)
  case (Boot k)
  then have "machine_ok (In_main, k)" by (intro booted_ok) (auto simp: booted_def)
  have "ok_with (start_init sizeof (zero_kernel\<lparr>stdout := out\<rparr>)) (\<lambda>k'. fresh_kernel k')"
    by (rule ok_with_mono [OF start_init_ok [OF Boot(2)]]) (simp_all add: zero_kernel_def)
  with Boot(1) have fresh: "fresh_kernel k" by simp
  then have "lst k h = []" for h using fresh_lists [of "lists k"] by (simp add: fresh_kernel_def)
  moreover have "in_use k Pcb_buffer = {}" using fresh by (auto simp: fresh_kernel_def dest!: spec [of _ Pcb_buffer] dest: pool_fresh_live)
  ultimately show ?case using \<open>machine_ok (In_main, k)\<close> by (simp add: in_order_def orderly_def good_queues_def alive_def)
qed (blast intro: step_in_order)

text \<open>The variables of the policy only ever hold what the memory held at first, their initial value or a good one.\<close>

lemma perform_writes:
  assumes "perform inp act k = Inr (v, k')" and "kernel_ok k" and "allowed P act"
  shows "good_writes P (user_mem k) (user_mem k')"
  using assms printStatus_total [OF kernel_okD(1), of k] by (cases act) (auto simp: and_then_Inr_iff good_writes_def)

lemma in_order_allowed:
  assumes "in_order P \<lparr>mach = (In_process, k), now = Do act c, suspended = sus\<rparr>"
  shows "kernel_ok k \<and> allowed P act \<and> good_queues P k"
  using assms obeying_next [of P "user_mem k" act c] by (auto simp: in_order_def orderly_def)

lemma step_writes:
  assumes "prog_step code f f_args logging w w'" and "in_order P w"
  shows "good_writes P (user_mem (snd (mach w))) (user_mem (snd (mach w')))"
  using assms
proof (induction rule: prog_step.induct)
  case (Own inp act k v k' c sus)
  with in_order_allowed [OF Own(2)] perform_writes [OF Own(1)] show ?case by simp
next
  case (Call k r n va ctl k' c sus)
  note o = in_order_allowed [OF Call(3)]
  then have "confined_memory n va k k'" using syscall_confined [OF _ Call(1,2)] by blast
  from call_writes [OF this] o show ?case by (simp add: arrive_def)
next
  case (Tick k r ctl k' c sus)
  then show ?case using handler_tick_untouched [of k] by (simp add: in_order_def arrive_def untouched_def)
next
  case (Interrupt k ctl k' c sus)
  then show ?case using interrupt_untouched [of k] by (simp add: in_order_def arrive_def untouched_def)
next
  case (Resume k ctl k' c sus)
  then have ok: "kernel_ok k" "control_ok To_main k" by (simp_all add: in_order_def)
  have n: "shutdown_now k = 0" using Resume by (auto simp: start_resume_def split: if_splits)
  then have "0 < room k Pcb_buffer" "last_pid k < 2 ^ 31 - 1"
    using Resume(1) start_resume_full [OF ok(1) n, of f f_args logging] start_resume_overflow [OF ok(1) n, of f f_args logging]
    by fastforce+
  with start_resume_ok [OF ok(1) _ n, of f f_args logging] ok(2) n Resume(1) have "user_mem k' = user_mem k" by auto
  then show ?case by (simp add: arrive_def)
qed simp_all

lemma run_slots:
  assumes "prog_run sizeof out code f f_args logging w" and "sizes_ok sizeof" and "(f, f_args) \<in> entries P" and "a \<in> slots P"
  shows "user_mem (snd (mach w)) a \<in> {0, -1} \<union> goods P"
  using assms(1)
proof (induction rule: prog_run.induct)
  case (Boot k)
  from start_init_ok [OF assms(2), of "zero_kernel\<lparr>stdout := out\<rparr>"] Boot have "user_mem k = (\<lambda>_. 0)"
    by (auto simp: ok_with_iff zero_kernel_def)
  then show ?case by simp
next
  case (Step w w')
  from step_writes [OF Step(2) run_in_order [OF Step(1) assms(2,3)]] Step(3) assms(4) show ?case
    by (auto simp: good_writes_def)
qed

text \<open>So a run of the programs is a run of the machine.\<close>

lemma run_reachable:
  assumes "prog_run sizeof out code f f_args logging w" and "sizes_ok sizeof" and "(f, f_args) \<in> entries P"
    and "\<forall>e. fst (mach w) \<noteq> Crashed e"
  shows "reachable sizeof f f_args logging (mach w)"
  using assms
proof (induction rule: prog_run.induct)
  case (Boot k)
  then show ?case by (auto simp: reachable_def booted_def)
next
  case (Step w w')
  have "\<not> (\<exists>e. fst (mach w) = Crashed e)" using Step.hyps(2) by (cases rule: prog_step.cases) auto
  with Step have r: "reachable sizeof f f_args logging (mach w)" by blast
  have "\<not> returned w" by (rule in_order_running [OF run_in_order [OF Step.hyps(1) Step.prems(1,2)]])
  from step_machine [OF Step.hyps(2) this Step.prems(3)] r show ?case
    unfolding reachable_def by (meson rtranclp_trans)
qed

end

end
