(* ===== verification/Test_Programs.thy ===== *)
theory Test_Programs
  imports Programs
begin

text \<open>
  The two test programs of the repository as process functions: \<open>disastrOS_test_bqueue.c\<close>, a unit test of the
  blocking queues and a test with producers and consumers, and \<open>disastrOS_test.c\<close>, children that open a
  resource and sleep.
\<close>

section \<open>Pieces of programs\<close>

abbreviation say :: "string \<Rightarrow> program \<Rightarrow> program" where
  "say s p \<equiv> Do (Printf s) (\<lambda>_. p)"

abbreviation call :: "int \<Rightarrow> int list \<Rightarrow> (int \<Rightarrow> program) \<Rightarrow> program" where
  "call n va c \<equiv> Do (Syscall n va) c"

text \<open>\<open>++x\<close> for an \<open>int\<close> at the address \<open>a\<close>.\<close>

definition increment :: "int \<Rightarrow> program \<Rightarrow> program" where
  "increment a p = Do (Load a) (\<lambda>n. Do (Compute (add_int n 1)) (\<lambda>m. Do (Store a m) (\<lambda>_. p)))"

text \<open>A \<open>for\<close> loop over the values in the list.\<close>

definition for_each :: "'a list \<Rightarrow> ('a \<Rightarrow> program \<Rightarrow> program) \<Rightarrow> program \<Rightarrow> program" where
  "for_each xs body p = foldr body xs p"

lemma for_each_simps [simp]:
  "for_each [] body p = p" "for_each (x # xs) body p = body x (for_each xs body p)"
  by (simp_all add: for_each_def)

section \<open>The tests of the queues\<close>

definition UNIT_QID :: int where "UNIT_QID = 10"

definition UNIT_CAP :: int where "UNIT_CAP = 2"

definition CONC_QID :: int where "CONC_QID = 20"

definition CONC_VAL :: int where "CONC_VAL = 777"

text \<open>
  Where the functions and variables of the program are: the entry points, the counters \<open>tests_run\<close> and
  \<open>tests_failed\<close>, the variable \<open>v\<close> of \<open>test_unitario_bq\<close>, the variable \<open>ret\<close> of \<open>test_mini_concorrente\<close>, and the
  variable \<open>v\<close> of a consumer on the stack in the PCB at \<open>p\<close>.
\<close>

record layout =
  at_init :: int
  at_producer :: int
  at_consumer :: int
  addr_run :: int
  addr_failed :: int
  addr_v :: int
  addr_ret :: int
  addr_cv :: "ptr \<Rightarrow> int"

definition pass :: "layout \<Rightarrow> string \<Rightarrow> program \<Rightarrow> program" where
  "pass L what p = increment (addr_run L) (say (''[PASS] '' @ what @ newline) p)"

definition fail :: "layout \<Rightarrow> string \<Rightarrow> int \<Rightarrow> program \<Rightarrow> program" where
  "fail L what err p = increment (addr_run L) (increment (addr_failed L)
     (say (''[FAIL] '' @ what @ '' (err='' @ show_int err @ '')'' @ newline) p))"

definition assert_ok :: "layout \<Rightarrow> int \<Rightarrow> string \<Rightarrow> program \<Rightarrow> program" where
  "assert_ok L rc what p = (if rc = 0 then pass L what p else fail L what rc p)"

definition assert_neg :: "layout \<Rightarrow> int \<Rightarrow> string \<Rightarrow> program \<Rightarrow> program" where
  "assert_neg L rc what p = (if rc < 0 then pass L what p else fail L what rc p)"

definition assert_eq_long :: "layout \<Rightarrow> int \<Rightarrow> int \<Rightarrow> string \<Rightarrow> program \<Rightarrow> program" where
  "assert_eq_long L got expected what p =
     (if got = expected then pass L what p
      else increment (addr_run L) (increment (addr_failed L)
        (say (''[FAIL] '' @ what @ '' (got='' @ show_int got @ '' exp='' @ show_int expected @ '')'' @ newline) p)))"

definition logp :: "string \<Rightarrow> program \<Rightarrow> program" where
  "logp role p = Do Getpid (\<lambda>pid. say (''['' @ role @ '' pid='' @ show_int pid @ ''] '') p)"

text \<open>The workers; \<open>arg\<close> is their argument.\<close>

definition producer :: "int \<Rightarrow> program" where
  "producer arg =
     say newline
     (logp ''P'' (say (''put '' @ show_int CONC_VAL @ '' on q='' @ show_int arg @ '' ...'' @ newline)
     (call DSOS_CALL_BQ_PUT [to_int arg, CONC_VAL] (\<lambda>_.
     logp ''P'' (say (''after put dump'' @ newline)
     (call DSOS_CALL_BQ_DUMP [to_int arg] (\<lambda>_.
     call DSOS_CALL_EXIT [1000] (\<lambda>_. Return))))))))"

text \<open>\<open>va\<close> is the address of the consumer's \<open>v\<close>.\<close>

definition consumer :: "int \<Rightarrow> int \<Rightarrow> program" where
  "consumer va arg =
     Do (Store va (-1)) (\<lambda>_.
     say newline
     (logp ''C'' (say (''get on q='' @ show_int arg @ '' ...'' @ newline)
     (call DSOS_CALL_BQ_GET [to_int arg, va] (\<lambda>_.
     logp ''C'' (Do (Load va) (\<lambda>v. say (''after get dump (v='' @ show_int v @ '')'' @ newline)
     (call DSOS_CALL_BQ_DUMP [to_int arg] (\<lambda>_.
     Do (Load va) (\<lambda>v. Do (Compute (add_int 2000 (to_int v))) (\<lambda>x.
     call DSOS_CALL_EXIT [x] (\<lambda>_. Return))))))))))))"

definition test_unitario_bq :: "layout \<Rightarrow> program \<Rightarrow> program" where
  "test_unitario_bq L p =
     say (newline @ ''--- TEST UNITARIO BQ (no blocchi) ---'' @ newline)
     (call DSOS_CALL_BQ_CREATE [UNIT_QID, UNIT_CAP] (\<lambda>rc.
     assert_ok L rc ''bqCreate(UNIT_QID, UNIT_CAP)''
     (call DSOS_CALL_BQ_CREATE [UNIT_QID, UNIT_CAP] (\<lambda>rc.
     assert_neg L rc ''bqCreate duplicate must fail''
     (call DSOS_CALL_BQ_PUT [UNIT_QID, 111] (\<lambda>rc.
     assert_ok L rc ''bqPut(111)''
     (call DSOS_CALL_BQ_PUT [UNIT_QID, 222] (\<lambda>rc.
     assert_ok L rc ''bqPut(222)''
     (Do (Store (addr_v L) (-1)) (\<lambda>_.
     call DSOS_CALL_BQ_GET [UNIT_QID, addr_v L] (\<lambda>rc.
     assert_ok L rc ''bqGet #1 rc''
     (Do (Load (addr_v L)) (\<lambda>v. assert_eq_long L v 111 ''bqGet #1 value''
     (call DSOS_CALL_BQ_GET [UNIT_QID, addr_v L] (\<lambda>rc.
     assert_ok L rc ''bqGet #2 rc''
     (Do (Load (addr_v L)) (\<lambda>v. assert_eq_long L v 222 ''bqGet #2 value''
     (call DSOS_CALL_BQ_DELETE [UNIT_QID] (\<lambda>rc.
     assert_ok L rc ''bqDelete(UNIT_QID)''
     (Do (Load (addr_run L)) (\<lambda>run. Do (Load (addr_failed L)) (\<lambda>failed.
     say (''--- FINE TEST UNITARIO: '' @ show_int run @ '' run, '' @ show_int failed @ '' failed ---'' @ newline)
     p))))))))))))))))))))))"

definition QID :: int where "QID = CONC_QID"

definition CAP :: int where "CAP = 3"

definition NPROD_PROCS :: nat where "NPROD_PROCS = 10"

definition NCONS_PROCS :: nat where "NCONS_PROCS = 8"

text \<open>The code is compiled with \<open>USE_WAIT\<close> set to 1.\<close>

definition test_mini_concorrente :: "layout \<Rightarrow> program \<Rightarrow> program" where
  "test_mini_concorrente L p =
     say (newline @ ''--- TEST PROD-CONS ESTESO (pi'' @ [CHR 0xC3, CHR 0xB9] @ '' processi monoshot) ---'' @ newline)
     (call DSOS_CALL_BQ_CREATE [QID, CAP] (\<lambda>rc.
     assert_ok L rc ''bqCreate(CONC_QID, cap=3)''
     (if rc < 0 then p
      else
        let halfC = NCONS_PROCS div 2; to_wait = NPROD_PROCS + NCONS_PROCS
        in
        say (''[init] spawn '' @ show_int (int halfC) @ '' consumer (fase 1)...'' @ newline)
        (for_each [0..<halfC] (\<lambda>i q. call DSOS_CALL_SPAWN [at_consumer L, QID] (\<lambda>_. q))
        (say (''[init] spawn '' @ show_int (int NPROD_PROCS) @ '' producer...'' @ newline)
        (for_each [0..<NPROD_PROCS] (\<lambda>i q. call DSOS_CALL_SPAWN [at_producer L, QID] (\<lambda>_. q))
        (say (''[init] spawn '' @ show_int (int (NCONS_PROCS - halfC)) @ '' consumer (fase 2)...'' @ newline)
        (for_each [halfC..<NCONS_PROCS] (\<lambda>i q. call DSOS_CALL_SPAWN [at_consumer L, QID] (\<lambda>_. q))
        (for_each [0..<to_wait] (\<lambda>k q.
           Do (Store (addr_ret L) 0) (\<lambda>_.
           call DSOS_CALL_WAIT [0, addr_ret L] (\<lambda>pid.
           Do (Load (addr_ret L)) (\<lambda>ret.
           say (''[init] child '' @ show_int pid @ '' exited, retval='' @ show_int ret @ '' (k='' @ show_int (int k + 1)
             @ ''/'' @ show_int (int to_wait) @ '')'' @ newline) q))))
        (call DSOS_CALL_BQ_DELETE [QID] (\<lambda>rc.
        assert_ok L rc ''bqDelete(CONC_QID)''
        (say (''--- FINE TEST PROD-CONS ESTESO ---'' @ newline) p))))))))))))"

definition summary :: "layout \<Rightarrow> program" where
  "summary L =
     Do (Load (addr_run L)) (\<lambda>run. Do (Load (addr_failed L)) (\<lambda>failed.
     say (newline @ ''=== SUMMARY: '' @ show_int run @ '' run, '' @ show_int failed @ '' failed ==='' @ newline)
     (call DSOS_CALL_SHUTDOWN [] (\<lambda>_. Return))))"

definition initFunction :: "layout \<Rightarrow> program" where
  "initFunction L =
     say (newline @ ''=== BQueue SMALL TESTS ==='' @ newline)
     (test_unitario_bq L (test_mini_concorrente L (summary L)))"

text \<open>The functions at their addresses.\<close>

definition bq_code :: "layout \<Rightarrow> int \<Rightarrow> int \<Rightarrow> ptr \<Rightarrow> program" where
  "bq_code L f a p =
     (if f = at_init L then initFunction L
      else if f = at_producer L then producer a
      else if f = at_consumer L then consumer (addr_cv L p) a
      else Return)"

text \<open>The runs of the program: \<open>main\<close> prints a line and starts the system, with a log if it has an argument.\<close>

definition bq_main :: "(region \<Rightarrow> int) \<Rightarrow> layout \<Rightarrow> int \<Rightarrow> world \<Rightarrow> bool" where
  "bq_main sizeof L argc =
     prog_run sizeof (''start (bqueue small tests)'' @ newline) (bq_code L) (at_init L) 0 (1 < argc)"

section \<open>The test of processes, resources and sleep\<close>

text \<open>The functions of \<open>disastrOS_test.c\<close> and the variable \<open>retval\<close> of its \<open>initFunction\<close>.\<close>

record os_layout =
  at_main_init :: int
  at_sleeper :: int
  at_child :: int
  addr_retval :: int

text \<open>The loop of the sleeper never ends.\<close>

datatype sleeper_at = Reading | Reporting

fun sleeper_does :: "sleeper_at \<Rightarrow> action" where
  "sleeper_does Reading = Getc"
| "sleeper_does Reporting = Print_status"

fun sleeper_next :: "sleeper_at \<Rightarrow> sleeper_at" where
  "sleeper_next Reading = Reporting"
| "sleeper_next Reporting = Reading"

primcorec sleeper_loop :: "sleeper_at \<Rightarrow> program" where
  "sleeper_loop s = Do (sleeper_does s) (\<lambda>_. sleeper_loop (sleeper_next s))"

definition sleeperFunction :: program where
  "sleeperFunction =
     Do Getpid (\<lambda>pid. say (''Hello, I am the sleeper, and I sleep '' @ show_int pid @ newline) (sleeper_loop Reading))"

text \<open>
  The child reads its pid for every use of it.  Its loop counts \<open>i\<close> up to the pid, and the points of the loop
  and of the exit after it are those between its actions.
\<close>

datatype child_at =
  Test_pid int | Test_bound int int | Show_pid int | Show int int | Nap_pid int | Nap int int | Sleep int int |
  Exit_pid | Exit_value int | Exit int | Gone

fun child_does :: "child_at \<Rightarrow> action" where
  "child_does (Test_pid i) = Getpid"
| "child_does (Test_bound i n) = Compute (add_int n 1)"
| "child_does (Show_pid i) = Getpid"
| "child_does (Show i n) = Printf (''PID: '' @ show_int n @ '', iterate '' @ show_int i @ newline)"
| "child_does (Nap_pid i) = Getpid"
| "child_does (Nap i n) = Compute (and_then (add_int 20 (- n)) (\<lambda>d.
     if - (2 ^ 31) \<le> d * 5 \<and> d * 5 < 2 ^ 31 then Inr (d * 5) else Inl Signed_overflow))"
| "child_does (Sleep i time) = Syscall DSOS_CALL_SLEEP [time]"
| "child_does Exit_pid = Getpid"
| "child_does (Exit_value n) = Compute (add_int n 1)"
| "child_does (Exit x) = Syscall DSOS_CALL_EXIT [x]"
| "child_does Gone = Getpid"

fun child_next :: "child_at \<Rightarrow> int \<Rightarrow> child_at" where
  "child_next (Test_pid i) v = Test_bound i v"
| "child_next (Test_bound i n) v = (if i < v then Show_pid i else Exit_pid)"
| "child_next (Show_pid i) v = Show i v"
| "child_next (Show i n) v = Nap_pid i"
| "child_next (Nap_pid i) v = Nap i v"
| "child_next (Nap i n) v = Sleep i v"
| "child_next (Sleep i time) v = Test_pid (i + 1)"
| "child_next Exit_pid v = Exit_value v"
| "child_next (Exit_value n) v = Exit v"
| "child_next (Exit x) v = Gone"
| "child_next Gone v = Gone"

primcorec child_loop :: "child_at \<Rightarrow> program" where
  "child_loop s = (if s = Gone then Return else Do (child_does s) (\<lambda>v. child_loop (child_next s v)))"

definition childFunction :: program where
  "childFunction =
     Do Getpid (\<lambda>pid. say (''Hello, I am the child function '' @ show_int pid @ newline)
     (say (''I will iterate a bit, before terminating'' @ newline)
     (Do Getpid (\<lambda>pid. call DSOS_CALL_OPEN_RESOURCE [pid, 0, 0] (\<lambda>fd.
     say (''fd='' @ show_int fd @ newline)
     (Do Getpid (\<lambda>pid. say (''PID: '' @ show_int pid @ '', terminating'' @ newline)
     (child_loop (Test_pid 0)))))))))"

text \<open>The loop that waits for the children that are still alive.\<close>

fun wait_children :: "os_layout \<Rightarrow> nat \<Rightarrow> program \<Rightarrow> program" where
  "wait_children L 0 p = p"
| "wait_children L (Suc alive) p =
     call DSOS_CALL_WAIT [0, addr_retval L] (\<lambda>pid.
     if 0 \<le> pid then
       Do Print_status (\<lambda>_. Do (Load (addr_retval L)) (\<lambda>retval.
       say (''initFunction, child: '' @ show_int pid @ '' terminated, retval:'' @ show_int retval @ '', alive: ''
         @ show_int (int (Suc alive)) @ '' '' @ newline)
       (wait_children L alive p)))
     else p)"

definition main_initFunction :: "os_layout \<Rightarrow> program" where
  "main_initFunction L =
     Do Print_status (\<lambda>_. say (''hello, I am init and I just started'' @ newline)
     (call DSOS_CALL_SPAWN [at_sleeper L, 0] (\<lambda>_.
     say (''I feel like to spawn 10 nice threads'' @ newline)
     (for_each [0..<10] (\<lambda>i q.
        say (''mode: '' @ show_int DSOS_CREATE @ newline)
        (say (''opening resource (and creating if necessary)'' @ newline)
        (call DSOS_CALL_OPEN_RESOURCE [int i, 0, DSOS_CREATE] (\<lambda>fd.
        say (''fd='' @ show_int fd @ newline)
        (call DSOS_CALL_SPAWN [at_child L, 0] (\<lambda>_. q))))))
     (Do Print_status (\<lambda>_.
     wait_children L 10 (say ''shutdown!'' (call DSOS_CALL_SHUTDOWN [] (\<lambda>_. Return)))))))))"

definition os_code :: "os_layout \<Rightarrow> int \<Rightarrow> int \<Rightarrow> ptr \<Rightarrow> program" where
  "os_code L f a p =
     (if f = at_main_init L then main_initFunction L
      else if f = at_sleeper L then sleeperFunction
      else if f = at_child L then childFunction
      else Return)"

text \<open>How \<open>%p\<close> prints the address of \<open>childFunction\<close> is up to the C library: \<open>shown\<close>.\<close>

definition os_main :: "(region \<Rightarrow> int) \<Rightarrow> os_layout \<Rightarrow> string \<Rightarrow> int \<Rightarrow> world \<Rightarrow> bool" where
  "os_main sizeof L shown argc =
     prog_run sizeof (''the function pointer is: '' @ shown @ ''start'' @ newline) (os_code L) (at_main_init L) 0 (1 < argc)"

end
