(* ===== verification/Test_Runs.thy ===== *)
theory Test_Runs
  imports Program_Logic Test_Programs
begin

text \<open>
  The runs of the two test programs: their functions keep to a policy, so the processes of the tests stay in
  order in every interleaving.
\<close>

section \<open>The tests of the queues\<close>

text \<open>
  The variables of the consumers do not overlap with the other variables of the program.  With such a layout
  they are the slots of the policy; otherwise the policy asks nothing of them and of the exit values.
\<close>

definition layout_ok :: "layout \<Rightarrow> bool" where
  "layout_ok L \<longleftrightarrow> {addr_run L, addr_failed L, addr_v L, addr_ret L} \<inter> range (addr_cv L) = {}"

definition bq_policy :: "layout \<Rightarrow> policy" where
  "bq_policy L = \<lparr>entries = {(at_init L, 0), (at_producer L, QID), (at_consumer L, QID)},
     exits = (if layout_ok L then {1000, 2000 + (-1), 2000 + CONC_VAL} else UNIV), shared = CONC_QID,
     goods = {CONC_VAL}, slots = (if layout_ok L then range (addr_cv L) else {})\<rparr>"

lemma bq_policy_simps [simp]:
  "entries (bq_policy L) = {(at_init L, 0), (at_producer L, QID), (at_consumer L, QID)}"
  "1000 \<in> exits (bq_policy L)" "1999 \<in> exits (bq_policy L)" "2777 \<in> exits (bq_policy L)"
  "shared (bq_policy L) = 20" "goods (bq_policy L) = {777}"
  "addr_run L \<notin> slots (bq_policy L)" "addr_failed L \<notin> slots (bq_policy L)" "addr_v L \<notin> slots (bq_policy L)"
  "addr_ret L \<notin> slots (bq_policy L)"
  by (auto simp: bq_policy_def CONC_QID_def CONC_VAL_def layout_ok_def)

lemma bq_policy_ok:
  "layout_ok L \<Longrightarrow> slots (bq_policy L) = range (addr_cv L)" "layout_ok L \<Longrightarrow> exits (bq_policy L) = {1000, 1999, 2777}"
  "\<not> layout_ok L \<Longrightarrow> slots (bq_policy L) = {}" "\<not> layout_ok L \<Longrightarrow> exits (bq_policy L) = UNIV"
  by (simp_all add: bq_policy_def CONC_VAL_def)

lemma to_int_constants [simp]: "to_int 20 = 20" "to_int 10 = 10" "to_int 777 = 777" "to_int (- 1) = - 1"
  by (simp_all add: to_int_id)

lemma obeys_logp [simp]: "obeys P B (logp role p) = obeys P B p"
  by (simp add: logp_def)

lemma obeys_increment: "a \<notin> slots P \<Longrightarrow> obeys P B p \<Longrightarrow> obeys P B (increment a p)"
  by (simp add: increment_def)

lemma obeys_asserts:
  assumes "obeys (bq_policy L) B p"
  shows "obeys (bq_policy L) B (assert_ok L rc what p)" and "obeys (bq_policy L) B (assert_neg L rc what p)"
    and "obeys (bq_policy L) B (assert_eq_long L got expected what p)"
  using assms
  by (auto simp: assert_ok_def assert_neg_def assert_eq_long_def pass_def fail_def intro!: obeys_increment)

lemma obeys_for_each:
  assumes "\<And>x q. obeys P B q \<Longrightarrow> obeys P B (body x q)" and "obeys P B p"
  shows "obeys P B (for_each xs body p)"
  using assms by (induction xs) simp_all

lemma producer_obeys: "obeys (bq_policy L) B (producer QID)"
  by (simp add: producer_def dsos_consts CONC_VAL_def)

lemma consumer_obeys: "obeys (bq_policy L) B (consumer (addr_cv L p) QID)"
  by (cases "layout_ok L") (auto simp: bq_policy_ok consumer_def dsos_consts QID_def CONC_QID_def add_int_def)

lemma unit_obeys:
  assumes "obeys (bq_policy L) B p"
  shows "obeys (bq_policy L) B (test_unitario_bq L p)"
  using assms
  by (auto simp: test_unitario_bq_def dsos_consts UNIT_QID_def intro!: obeys_asserts)

lemma conc_obeys:
  assumes "obeys (bq_policy L) B p"
  shows "obeys (bq_policy L) B (test_mini_concorrente L p)"
  using assms
  by (auto simp: test_mini_concorrente_def Let_def dsos_consts
      intro!: obeys_asserts obeys_for_each)

lemma init_obeys: "obeys (bq_policy L) B (initFunction L)"
  by (auto simp: initFunction_def summary_def dsos_consts intro!: unit_obeys conc_obeys)

interpretation bq_tests: disciplined_code "bq_code L" "bq_policy L" for L
  by unfold_locales (auto simp: bq_code_def init_obeys producer_obeys consumer_obeys)

text \<open>What comes of it: the runs are runs of the machine, nobody returns, and the workers exit as they should.\<close>

lemma bq_entry: "(at_init L, 0) \<in> entries (bq_policy L)"
  by simp

lemma bq_run_slots:
  assumes "prog_run sizeof out (bq_code L) (at_init L) 0 logging w" and "sizes_ok sizeof" and "layout_ok L"
  shows "user_mem (snd (mach w)) (addr_cv L x) \<in> {0, -1, CONC_VAL}"
  using bq_tests.run_slots [OF assms(1,2) bq_entry, of "addr_cv L x"] assms(3) by (auto simp: bq_policy_ok CONC_VAL_def)

lemmas bq_run_in_order = bq_tests.run_in_order [OF _ _ bq_entry]

lemmas bq_run_reachable = bq_tests.run_reachable [OF _ _ bq_entry]

lemma bq_exits:
  assumes "prog_run sizeof out (bq_code L) f a logging w" and "(f, a) \<in> entries (bq_policy L)" and "sizes_ok sizeof"
    and "layout_ok L" and "mach w = (In_process, k)" and "now w = Do (Syscall DSOS_CALL_EXIT [x]) c"
  shows "x \<in> {1000, 1999, 2777}"
proof -
  have "in_order (bq_policy L) w" by (rule bq_tests.run_in_order [OF assms(1,3,2)])
  from in_order_exits [OF this assms(5,6)] show ?thesis by (simp add: bq_policy_ok(2) [OF assms(4)])
qed

section \<open>The test of processes, resources and sleep\<close>

definition os_policy :: "os_layout \<Rightarrow> policy" where
  "os_policy L = \<lparr>entries = {(at_main_init L, 0), (at_sleeper L, 0), (at_child L, 0)}, exits = UNIV, shared = 0,
     goods = UNIV, slots = {}\<rparr>"

lemma os_policy_simps [simp]:
  "entries (os_policy L) = {(at_main_init L, 0), (at_sleeper L, 0), (at_child L, 0)}"
  "exits (os_policy L) = UNIV" "shared (os_policy L) = 0" "goods (os_policy L) = UNIV" "slots (os_policy L) = {}"
  by (simp_all add: os_policy_def)

text \<open>The loops, by coinduction.\<close>

lemma sleeper_loop_obeys: "obeys (os_policy L) B (sleeper_loop s)"
proof (rule obeys_loop [where R = "\<lambda>_. True" and act = sleeper_does and nxt = "\<lambda>s _. sleeper_next s"])
  show "sleeper_loop s = Do (sleeper_does s) (\<lambda>v. sleeper_loop (sleeper_next s)) \<and> allowed (os_policy L) (sleeper_does s) \<and>
      initialised (os_policy L) (sleeper_does s) = {}" for s
    using sleeper_loop.code [of s] by (cases s) simp_all
qed simp_all

lemma child_loop_obeys:
  assumes "s \<noteq> Gone"
  shows "obeys (os_policy L) B (child_loop s)"
proof (rule obeys_loop [where R = "\<lambda>s. s \<noteq> Gone" and act = child_does and nxt = child_next])
  show "child_loop s = Do (child_does s) (\<lambda>v. child_loop (child_next s v)) \<and> allowed (os_policy L) (child_does s) \<and>
      initialised (os_policy L) (child_does s) = {}" if "s \<noteq> Gone" for s
    using child_loop.code [of s] that by (cases s) (simp_all add: dsos_consts)
  show "child_next s v \<noteq> Gone" if "s \<noteq> Gone" "possible (os_policy L) B (child_does s) v" for s v
    using that by (cases s) simp_all
qed (rule assms)

lemma childFunction_obeys: "obeys (os_policy L) B childFunction"
  by (simp add: childFunction_def child_loop_obeys dsos_consts)

lemma sleeperFunction_obeys: "obeys (os_policy L) B sleeperFunction"
  by (simp add: sleeperFunction_def sleeper_loop_obeys)

lemma wait_children_obeys: "obeys (os_policy L) B p \<Longrightarrow> obeys (os_policy L) B (wait_children L n p)"
  by (induction n) (auto simp: dsos_consts)

lemma main_init_obeys: "obeys (os_policy L) B (main_initFunction L)"
  by (auto simp: main_initFunction_def dsos_consts intro!: obeys_for_each wait_children_obeys)

interpretation os_tests: disciplined_code "os_code L" "os_policy L" for L
  by unfold_locales (auto simp: os_code_def main_init_obeys childFunction_obeys sleeperFunction_obeys)

lemma os_entry: "(at_main_init L, 0) \<in> entries (os_policy L)"
  by simp

lemmas os_run_in_order = os_tests.run_in_order [OF _ _ os_entry]

lemmas os_run_reachable = os_tests.run_reachable [OF _ _ os_entry]

end
