(* ===== verification/Team.thy ===== *)
theory Team
  imports Test_Runs
begin

text \<open>
  The concurrent test as a team: what a worker and the process that leads them are still going to do, with a bound on the
  number of their actions.
\<close>

section \<open>Workers\<close>

text \<open>A worker has its put or its get before it, or neither.\<close>

datatype role = Putting | Getting | Leaving

text \<open>
  The program of the worker in the PCB at \<open>x\<close>, with at most \<open>n\<close> actions left.  Its variable holds one of three values
  whenever it is read.
\<close>

inductive member :: "layout \<Rightarrow> ptr \<Rightarrow> role \<Rightarrow> nat \<Rightarrow> program \<Rightarrow> bool" for L :: layout and x :: ptr
where
  Does: "act = Getpid \<or> (\<exists>s. act = Printf s) \<or> act = Store (addr_cv L x) (-1) \<Longrightarrow> \<forall>v. member L x \<rho> n (c v) \<Longrightarrow>
    member L x \<rho> (Suc n) (Do act c)"
| Reads: "\<forall>v \<in> {0, -1, CONC_VAL}. member L x \<rho> n (c v) \<Longrightarrow> member L x \<rho> (Suc n) (Do (Load (addr_cv L x)) c)"
| Adds: "member L x \<rho> n (c v) \<Longrightarrow> member L x \<rho> (Suc n) (Do (Compute (Inr v)) c)"
| Puts: "\<forall>v. member L x Leaving n (c v) \<Longrightarrow> member L x Putting (Suc n) (call DSOS_CALL_BQ_PUT [QID, CONC_VAL] c)"
| Gets: "\<forall>v. member L x Leaving n (c v) \<Longrightarrow> member L x Getting (Suc n) (call DSOS_CALL_BQ_GET [QID, addr_cv L x] c)"
| Dumps: "\<forall>v. member L x \<rho> n (c v) \<Longrightarrow> member L x \<rho> (Suc n) (call DSOS_CALL_BQ_DUMP [QID] c)"
| Exits: "member L x Leaving (Suc n) (call DSOS_CALL_EXIT [v] c)"

lemma to_int_QID [simp]: "to_int QID = QID" "to_int CONC_VAL = CONC_VAL"
  by (simp_all add: QID_def CONC_QID_def CONC_VAL_def)

lemma member_says: "member L x \<rho> n p \<Longrightarrow> member L x \<rho> (Suc n) (say s p)"
  by (rule member.Does) simp_all

lemma member_logs: "member L x \<rho> n p \<Longrightarrow> member L x \<rho> (Suc (Suc n)) (logp role p)"
  unfolding logp_def by (rule member.Does) (simp_all add: member_says)

lemma member_starts: "member L x \<rho> n p \<Longrightarrow> member L x \<rho> (Suc n) (Do (Store (addr_cv L x) (-1)) (\<lambda>_. p))"
  by (rule member.Does) simp_all

lemma producer_member: "member L x Putting 10 (producer QID)"
  by (simp add: producer_def eval_nat_numeral) (intro member_says member_logs member.Puts member.Dumps member.Exits allI)

lemma consumer_member: "member L x Getting 14 (consumer (addr_cv L x) QID)"
proof -
  have "member L x Leaving 2 (Do (Compute (add_int 2000 (to_int v))) (\<lambda>x. call DSOS_CALL_EXIT [x] (\<lambda>_. Return)))"
    if "v \<in> {0, -1, CONC_VAL}" for v
    using that by (auto simp: add_int_def CONC_VAL_def numeral_2_eq_2 to_int_id intro!: member.Adds member.Exits)
  then show ?thesis
    unfolding consumer_def to_int_QID
    by (simp only: numeral_eq_Suc pred_numeral_simps BitM.simps One_nat_def)
      (intro member_starts member_says member_logs member.Gets member.Dumps member.Reads allI ballI; simp)
qed

section \<open>The leader\<close>

text \<open>Where the leader is: before the queue is created, while the workers are spawned and waited for, and after that.\<close>

datatype stage = Opening | Serving | Closing

text \<open>
  The program of the process that creates the queue, spawns \<open>p\<close> more producers and \<open>c\<close> more consumers, waits, deletes the
  queue and shuts down; \<open>m\<close> and \<open>f\<close> are the values of the counters of the checks.
\<close>

inductive leader :: "layout \<Rightarrow> stage \<Rightarrow> nat \<Rightarrow> nat \<Rightarrow> int \<Rightarrow> int \<Rightarrow> nat \<Rightarrow> program \<Rightarrow> bool" for L :: layout
where
  Says: "\<forall>v. leader L st p c m f n (k v) \<Longrightarrow> leader L st p c m f (Suc n) (Do (Printf s) k)"
| Clears: "\<forall>v. leader L st p c m f n (k v) \<Longrightarrow> leader L st p c m f (Suc n) (Do (Store (addr_ret L) 0) k)"
| Looks: "\<forall>v. leader L st p c m f n (k v) \<Longrightarrow> leader L st p c m f (Suc n) (Do (Load (addr_ret L)) k)"
| Reads_run: "leader L st p c m f n (k m) \<Longrightarrow> leader L st p c m f (Suc n) (Do (Load (addr_run L)) k)"
| Reads_failed: "leader L st p c m f n (k f) \<Longrightarrow> leader L st p c m f (Suc n) (Do (Load (addr_failed L)) k)"
| Adds: "leader L st p c m f n (k v) \<Longrightarrow> leader L st p c m f (Suc n) (Do (Compute (Inr v)) k)"
| Sets_run: "leader L st p c m' f n (k 0) \<Longrightarrow> leader L st p c m f (Suc n) (Do (Store (addr_run L) m') k)"
| Sets_failed: "leader L st p c m f' n (k 0) \<Longrightarrow> leader L st p c m f (Suc n) (Do (Store (addr_failed L) f') k)"
| Creates: "leader L Serving NPROD_PROCS NCONS_PROCS m f n (k 0) \<Longrightarrow>
    leader L Opening NPROD_PROCS NCONS_PROCS m f (Suc n) (call DSOS_CALL_BQ_CREATE [QID, CAP] k)"
| Spawns_producer: "\<forall>v. leader L Serving p c m f n (k v) \<Longrightarrow>
    leader L Serving (Suc p) c m f (n + 20) (call DSOS_CALL_SPAWN [at_producer L, QID] k)"
| Spawns_consumer: "\<forall>v. leader L Serving p c m f n (k v) \<Longrightarrow>
    leader L Serving p (Suc c) m f (n + 20) (call DSOS_CALL_SPAWN [at_consumer L, QID] k)"
| Waits: "\<forall>v. leader L Serving 0 0 m f n (k v) \<Longrightarrow>
    leader L Serving 0 0 m f (Suc n) (call DSOS_CALL_WAIT [0, addr_ret L] k)"
| Deletes: "\<forall>v. leader L Closing 0 0 m f n (k v) \<Longrightarrow>
    leader L Serving 0 0 m f (Suc n) (call DSOS_CALL_BQ_DELETE [QID] k)"
| Ends: "m = 11 \<Longrightarrow> f = 0 \<or> f = 1 \<Longrightarrow> leader L Closing 0 0 m f (Suc n) (call DSOS_CALL_SHUTDOWN [] k)"

lemma leader_more: "leader L st p c m f n q \<Longrightarrow> leader L st p c m f (n + j) q"
proof (induction rule: leader.induct)
  case (Spawns_producer p c m f n k)
  then have "\<forall>v. leader L Serving p c m f (n + j) (k v)" by blast
  from leader.Spawns_producer [OF this] show ?case by (simp add: ac_simps)
next
  case (Spawns_consumer p c m f n k)
  then have "\<forall>v. leader L Serving p c m f (n + j) (k v)" by blast
  from leader.Spawns_consumer [OF this] show ?case by (simp add: ac_simps)
qed (auto intro: leader.intros)

text \<open>The same without the bound.\<close>

definition leads :: "layout \<Rightarrow> stage \<Rightarrow> nat \<Rightarrow> nat \<Rightarrow> int \<Rightarrow> int \<Rightarrow> program \<Rightarrow> bool" where
  "leads L st p c m f q \<longleftrightarrow> (\<exists>n. leader L st p c m f n q)"

lemma leads_say: "leads L st p c m f q \<Longrightarrow> leads L st p c m f (say s q)"
  unfolding leads_def by (auto intro: leader.Says)

lemma leads_loads:
  "leads L st p c m f (k m) \<Longrightarrow> leads L st p c m f (Do (Load (addr_run L)) k)"
  "leads L st p c m f (k f) \<Longrightarrow> leads L st p c m f (Do (Load (addr_failed L)) k)"
  unfolding leads_def by (auto intro: leader.intros)

lemma leads_spawns:
  "leads L Serving p c m f q \<Longrightarrow> leads L Serving (Suc p) c m f (call DSOS_CALL_SPAWN [at_producer L, QID] (\<lambda>_. q))"
  "leads L Serving p c m f q \<Longrightarrow> leads L Serving p (Suc c) m f (call DSOS_CALL_SPAWN [at_consumer L, QID] (\<lambda>_. q))"
  unfolding leads_def by (auto intro: leader.Spawns_producer leader.Spawns_consumer)

lemma leads_spawn_all:
  assumes "leads L Serving p c m f q"
  shows "leads L Serving (p + length xs) c m f (for_each xs (\<lambda>_ q. call DSOS_CALL_SPAWN [at_producer L, QID] (\<lambda>_. q)) q)"
    and "leads L Serving p (c + length xs) m f (for_each xs (\<lambda>_ q. call DSOS_CALL_SPAWN [at_consumer L, QID] (\<lambda>_. q)) q)"
  using assms by (induction xs) (simp_all add: leads_spawns)

lemma leads_wait:
  assumes "leads L Serving 0 0 m f q"
  shows "leads L Serving 0 0 m f (Do (Store (addr_ret L) 0) (\<lambda>_. call DSOS_CALL_WAIT [0, addr_ret L] (\<lambda>pid.
    Do (Load (addr_ret L)) (\<lambda>ret. say (what pid ret) q))))"
proof -
  from assms obtain n where n: "leader L Serving 0 0 m f n q" by (auto simp: leads_def)
  have "leader L Serving 0 0 m f (Suc (Suc (Suc (Suc n)))) (Do (Store (addr_ret L) 0) (\<lambda>_. call DSOS_CALL_WAIT [0, addr_ret L] (\<lambda>pid.
    Do (Load (addr_ret L)) (\<lambda>ret. say (what pid ret) q))))"
    by (intro leader.Clears leader.Waits leader.Looks leader.Says allI n)
  then show ?thesis by (auto simp: leads_def)
qed

lemma leads_for_each:
  assumes "leads L st p c m f q" and "\<And>x q. leads L st p c m f q \<Longrightarrow> leads L st p c m f (body x q)"
  shows "leads L st p c m f (for_each xs body q)"
  using assms by (induction xs) simp_all

lemma leader_increments:
  assumes "- (2 ^ 31) \<le> x" and "x < 2 ^ 31 - 1"
  shows "leader L st p c (x + 1) f n q \<Longrightarrow> leader L st p c x f (n + 3) (increment (addr_run L) q)"
    and "leader L st p c m (x + 1) n q \<Longrightarrow> leader L st p c m x (n + 3) (increment (addr_failed L) q)"
proof -
  have "add_int x 1 = Inr (x + 1)" using assms by (simp add: add_int_def)
  then show "leader L st p c (x + 1) f n q \<Longrightarrow> leader L st p c x f (n + 3) (increment (addr_run L) q)"
    and "leader L st p c m (x + 1) n q \<Longrightarrow> leader L st p c m x (n + 3) (increment (addr_failed L) q)"
    by (auto simp: increment_def numeral_3_eq_3 intro!: leader.Reads_run leader.Reads_failed leader.Adds leader.Sets_run leader.Sets_failed)
qed

lemma leader_asserts:
  assumes "- (2 ^ 31) \<le> m" and "m < 2 ^ 31 - 1" and "- (2 ^ 31) \<le> f" and "f < 2 ^ 31 - 1"
    and "leader L st p c (m + 1) f n q" and "rc = 0 \<or> leader L st p c (m + 1) (f + 1) n q"
  shows "leader L st p c m f (n + 7) (assert_ok L rc what q)"
proof (cases "rc = 0")
  case True
  have "leader L st p c m f (Suc n + 3) (pass L what q)"
    unfolding pass_def by (intro leader_increments assms leader.Says allI)
  from leader_more [OF this, of 3] True show ?thesis by (simp add: assert_ok_def eval_nat_numeral)
next
  case False
  with assms(6) have "leader L st p c (m + 1) (f + 1) n q" by simp
  then have "leader L st p c m f (Suc n + 3 + 3) (fail L what rc q)"
    unfolding fail_def by (intro leader_increments assms leader.Says allI)
  with False show ?thesis by (simp add: assert_ok_def eval_nat_numeral)
qed

text \<open>The end of the program, and the test.\<close>

lemma summary_leads: "f = 0 \<or> f = 1 \<Longrightarrow> leads L Closing 0 0 11 f (summary L)"
  unfolding summary_def by (intro leads_loads leads_say) (auto simp: leads_def intro: leader.Ends)

lemma deletes_leads:
  "leads L Serving 0 0 10 0 (call DSOS_CALL_BQ_DELETE [QID] (\<lambda>rc. assert_ok L rc what (say s (summary L))))"
proof -
  have "leads L Closing 0 0 11 0 (say s (summary L))" "leads L Closing 0 0 11 1 (say s (summary L))"
    by (simp_all add: leads_say summary_leads)
  then obtain n where n: "leader L Closing 0 0 11 0 n (say s (summary L))" "leader L Closing 0 0 11 1 n (say s (summary L))"
    unfolding leads_def by (metis add.commute leader_more)
  then have "\<forall>rc. leader L Closing 0 0 10 0 (n + 7) (assert_ok L rc what (say s (summary L)))"
    by (auto intro!: leader_asserts)
  from leader.Deletes [OF this] show ?thesis by (auto simp: leads_def)
qed

lemma leads_spawn_consumers:
  "leads L Serving p c' m f q \<Longrightarrow> c' + length xs = c \<Longrightarrow>
    leads L Serving p c m f (for_each xs (\<lambda>_ q. call DSOS_CALL_SPAWN [at_consumer L, QID] (\<lambda>_. q)) q)"
  using leads_spawn_all(2) by blast

lemma leads_spawn_producers:
  "leads L Serving p' c m f q \<Longrightarrow> p' + length xs = p \<Longrightarrow>
    leads L Serving p c m f (for_each xs (\<lambda>_ q. call DSOS_CALL_SPAWN [at_producer L, QID] (\<lambda>_. q)) q)"
  using leads_spawn_all(1) by blast

lemma leads_creates:
  assumes "\<And>rc. rc = 0 \<Longrightarrow> leads L Serving NPROD_PROCS NCONS_PROCS m f (k rc)"
  shows "leads L Opening NPROD_PROCS NCONS_PROCS m f (call DSOS_CALL_BQ_CREATE [QID, CAP] k)"
proof -
  from assms obtain n where "leader L Serving NPROD_PROCS NCONS_PROCS m f n (k 0)" by (auto simp: leads_def)
  then show ?thesis by (auto simp: leads_def intro: leader.Creates)
qed

lemma leads_created:
  assumes "leads L Serving NPROD_PROCS NCONS_PROCS 10 0 q"
  shows "leads L Serving NPROD_PROCS NCONS_PROCS 9 0 (assert_ok L 0 what q)"
proof -
  from assms obtain n where n: "leader L Serving NPROD_PROCS NCONS_PROCS 10 0 n q" by (auto simp: leads_def)
  have "leader L Serving NPROD_PROCS NCONS_PROCS 9 0 (n + 7) (assert_ok L 0 what q)"
    by (rule leader_asserts) (simp_all add: n)
  then show ?thesis by (auto simp: leads_def)
qed

lemma test_leads: "leads L Opening NPROD_PROCS NCONS_PROCS 9 0 (test_mini_concorrente L (summary L))"
  unfolding test_mini_concorrente_def Let_def
  by (intro leads_say leads_creates, simp only: less_irrefl if_False, intro leads_created)
    (intro leads_say leads_spawn_consumers [where c = NCONS_PROCS and c' = 4] leads_spawn_consumers [where c = 4 and c' = 0]
      leads_spawn_producers [where p = NPROD_PROCS and p' = 0] leads_for_each leads_wait deletes_leads;
      simp add: NCONS_PROCS_def NPROD_PROCS_def)

end
