(* ===== verification/Views.thy ===== *)
theory Views
  imports Process_Frame
begin

text \<open>
  What the handlers leave alone in whatever state they start: a \<open>view\<close> of the kernel that does not depend on the lists, on
  which blocks of a pool are in use, and on certain members of the PCBs.  The contract is stated as locales, one for each
  group of handlers, and is met by the settings of the kernel, the pids and the parents.
\<close>

section \<open>The contract\<close>

text \<open>Partial correctness of a loop, by an invariant.\<close>

lemma c_while_inv:
  assumes "c_while b c s = Inr s'" and "I s" and "\<And>s s'. I s \<Longrightarrow> b s \<Longrightarrow> c s = Inr s' \<Longrightarrow> I s'"
  shows "I s'"
proof -
  have loop: "while_option (\<lambda>r. case r of Inl e \<Rightarrow> False | Inr t \<Rightarrow> b t) (\<lambda>r. and_then r c) (Inr s) = Some (Inr s')"
    using assms(1) by (auto simp: c_while_def split: option.splits)
  let ?P = "\<lambda>r :: fault + 'a. case r of Inl e \<Rightarrow> True | Inr t \<Rightarrow> I t"
  have "?P (Inr s')"
  proof (rule while_option_rule [where P = ?P, OF _ loop])
    fix r :: "fault + 'a" assume r: "?P r" "case r of Inl e \<Rightarrow> False | Inr t \<Rightarrow> b t"
    then obtain t where t: "r = Inr t" by (cases r) auto
    with r assms(3) [of t] show "?P (and_then r c)" by (cases "c t") simp_all
  qed (simp add: assms(2))
  then show ?thesis by simp
qed

lemma and_then_InrE:
  assumes "and_then r f = Inr b"
  obtains a where "r = Inr a" and "f a = Inr b"
  using assms by (auto simp: and_then_Inr_iff)

text \<open>
  A view that depends neither on the lists, the pools (but for their sizes), the queues, the output and the memory, nor on
  what the handlers that do not create or end processes change in a PCB.
\<close>

locale quiet_view =
  fixes view :: "kernel \<Rightarrow> 'v"
  assumes lists [simp]: "view (k\<lparr>lists := m\<rparr>) = view k"
    and pools: "(\<And>r. pa_size_max (P r) = pa_size_max (pools k r)) \<Longrightarrow> view (k\<lparr>pools := P\<rparr>) = view k"
    and objects [simp]: "view (k\<lparr>pcb_ptrs := l\<rparr>) = view k" "view (k\<lparr>bqueues := q\<rparr>) = view k" "view (k\<lparr>bq_items := i\<rparr>) = view k"
    and run [simp]: "view (k\<lparr>running := r\<rparr>) = view k"
    and effects_out [simp]: "view (k\<lparr>stdout := out\<rparr>) = view k" "view (k\<lparr>user_mem := mem\<rparr>) = view k"
    and process [simp]: "(\<And>b. syscall_num (f b) = syscall_num b \<and> syscall_args (f b) = syscall_args b \<and> parent (f b) = parent b) \<Longrightarrow>
      view (upd_pcb p f k) = view k"
begin

lemma shorthands [simp]:
  "view (set_status p st k) = view k" "view (set_retvalue p v k) = view k" "view (upd_bqueue q g k) = view k"
  "view (store_result a v k) = view k" "view (print_out s k) = view k" "view (k_init h k) = view k"
  "view (k_clear_links p k) = view k"
  by (simp_all add: set_status_def set_retvalue_def upd_bqueue_def store_result_def print_out_def k_init_def k_clear_links_def)

lemma primitives:
  "k_insert h prv x k = Inr k' \<Longrightarrow> view k' = view k" "k_append h p k = Inr k' \<Longrightarrow> view k' = view k"
  "k_detach h y k = Inr (p, k') \<Longrightarrow> view k' = view k"
  by (auto simp: k_append_def k_insert_def k_detach_def elim!: and_then_InrE)

lemma blocks:
  "k_get r k = Inr (b, k') \<Longrightarrow> view k' = view k" "k_release r p k = Inr (res, k') \<Longrightarrow> view k' = view k"
  by (auto simp: k_get_def k_release_def PoolAllocator_getBlock_def PoolAllocator_releaseBlock_def Let_def elim!: and_then_InrE
      intro!: pools split: if_split_asm)

lemmas steps = primitives blocks

lemma schedule: "internal_schedule k = Inr k' \<Longrightarrow> view k' = view k"
  by (auto simp: internal_schedule_def elim!: and_then_InrE dest!: steps split: if_split_asm option.split_asm)

lemma links:
  "PCBPtr_alloc p k = Inr (w, k') \<Longrightarrow> view k' = view k" "PCBPtr_free w k = Inr (res, k') \<Longrightarrow> view k' = view k"
  "PCB_free p k = Inr (res, k') \<Longrightarrow> view k' = view k" "BQItem_alloc k = Inr (b, k') \<Longrightarrow> view k' = view k"
  "BQItem_free it k = Inr (res, k') \<Longrightarrow> view k' = view k"
  by (auto simp: PCBPtr_alloc_def PCBPtr_free_def PCB_free_def BQItem_alloc_def BQItem_free_def Let_def elim!: and_then_InrE
      dest!: steps split: option.split_asm)

lemma reap: "reap_child par child out k = Inr (n, k') \<Longrightarrow> view k' = view k"
  by (auto simp: reap_child_def Let_def elim!: and_then_InrE dest!: steps links split: option.split_asm)

lemma wait: "internal_wait k = Inr k' \<Longrightarrow> view k' = view k"
  by (auto simp: internal_wait_def Let_def elim!: and_then_InrE dest!: steps reap split: if_split_asm option.split_asm)

lemma waiters:
  "wake_ready p k = Inr k' \<Longrightarrow> view k' = view k" "take_waiter h k = Inr (p, k') \<Longrightarrow> view k' = view k"
  "dispatch_next k = Inr k' \<Longrightarrow> view k' = view k"
  by (auto simp: wake_ready_def take_waiter_def dispatch_next_def Let_def elim!: and_then_InrE
      dest!: steps links split: if_split_asm option.split_asm)

lemma block: "block_on h r k = Inr k' \<Longrightarrow> view k' = view k"
  by (auto simp: block_on_def elim!: and_then_InrE dest!: steps links waiters)

lemma push: "push_item q it v k = Inr k' \<Longrightarrow> view k' = view k"
  by (auto simp: push_item_def Let_def elim!: and_then_InrE dest!: steps)

lemma put: "internal_bq_put k = Inr k' \<Longrightarrow> view k' = view k"
  by (auto simp: internal_bq_put_def Let_def elim!: and_then_InrE dest!: steps links waiters block push split: if_split_asm option.split_asm)

lemma get: "internal_bq_get k = Inr k' \<Longrightarrow> view k' = view k"
  by (auto simp: internal_bq_get_def complete_put_def Let_def elim!: and_then_InrE dest!: steps links waiters block push
      split: if_split_asm option.split_asm)

lemma create: "internal_bq_create k = Inr k' \<Longrightarrow> view k' = view k"
  by (auto simp: internal_bq_create_def BQ_alloc_def Let_def elim!: and_then_InrE dest!: steps split: if_split_asm option.split_asm)

lemma free_items: "BQ_free_items q k = Inr k' \<Longrightarrow> view k' = view k"
  unfolding BQ_free_items_def by (erule c_while_inv) (auto elim!: and_then_InrE dest!: steps)

lemma delete: "internal_bq_delete k = Inr k' \<Longrightarrow> view k' = view k"
  by (auto simp: internal_bq_delete_def BQ_free_def Let_def elim!: and_then_InrE dest!: steps free_items split: if_split_asm option.split_asm)

lemma dump: "internal_bq_dump k = Inr k' \<Longrightarrow> view k' = view k"
  by (auto simp: internal_bq_dump_def Let_def elim!: and_then_InrE split: option.split_asm)

end

text \<open>Such a view that does not depend on the parents either; and one that does not see a new process.\<close>

locale handover_view = quiet_view +
  assumes any_process [simp]: "(\<And>b. syscall_num (f b) = syscall_num b \<and> syscall_args (f b) = syscall_args b) \<Longrightarrow>
      view (upd_pcb p f k) = view k"
begin

lemma reparent: "reparent_children r k = Inr k' \<Longrightarrow> view k' = view k"
  unfolding reparent_children_def by (erule c_while_inv) (auto elim!: and_then_InrE dest!: steps)

lemma wake_parent: "wake_waiting_parent r k = Inr k' \<Longrightarrow> view k' = view k"
  by (auto simp: wake_waiting_parent_def Let_def elim!: and_then_InrE dest!: steps split: if_split_asm option.split_asm)

lemma exit_call: "internal_exit k = Inr k' \<Longrightarrow> view k' = view k"
  by (auto simp: internal_exit_def Let_def elim!: and_then_InrE dest!: steps reparent wake_parent schedule)

end

locale birth_view = handover_view +
  assumes next_pid [simp]: "view (k\<lparr>last_pid := n\<rparr>) = view k"
begin

lemma new_process: "PCB_alloc k = Inr (p, k') \<Longrightarrow> view k' = view k"
  by (auto simp: PCB_alloc_def PCB_setup_def Let_def elim!: and_then_InrE dest!: steps)

lemma spawn: "internal_spawn k = Inr k' \<Longrightarrow> view k' = view k"
  by (auto simp: internal_spawn_def new_child_def Let_def elim!: and_then_InrE dest!: steps links new_process)

end

section \<open>Three views\<close>

text \<open>
  The settings of the kernel with the registers of the calls, the next pid, and the parents.
\<close>

definition settings :: "kernel \<Rightarrow> ptr option \<times> int \<times> string option \<times> (region \<Rightarrow> int) \<times> (ptr \<Rightarrow> int \<times> (nat \<Rightarrow> int))" where
  "settings k = (init_pcb k, shutdown_now k, log_file k, (\<lambda>r. pa_size_max (pools k r)),
     (\<lambda>x. (syscall_num (pcbs k x), syscall_args (pcbs k x))))"

definition parents :: "kernel \<Rightarrow> ptr \<Rightarrow> ptr option" where
  "parents k x = parent (pcbs k x)"

interpretation settings: birth_view settings
  by unfold_locales (auto simp: settings_def upd_pcb_at fun_eq_iff)

interpretation next_pid: handover_view last_pid
  by unfold_locales simp_all

interpretation parents: quiet_view parents
  by unfold_locales (auto simp: parents_def upd_pcb_at fun_eq_iff)

end
