(* ===== verification/Outlines.thy ===== *)
theory Outlines
  imports Views Programs
begin

text \<open>
  Outlines of a process that runs alone: assertions about the kernel between the actions of its program, which
  hold whenever the timer ticks, and what they say about the runs of the system.
\<close>

section \<open>Ticks while one process is alone\<close>

lemma lone_tick:
  assumes ok: "kernel_ok k" and run: "running k = Some r" and alone: "lst k Ready_list = []" "lst k Timer_list = []"
  shows "timerHandler k = Inl Signed_overflow \<or>
    (\<exists>k'. timerHandler k = Inr (To_process r, k') \<and> kernel_ok k' \<and> running k' = Some r \<and> lists k' = lists k \<and>
       pools k' = pools k \<and> (log_file k = None \<longrightarrow> log_file k' = None) \<and> untouched (saved k) k' \<and>
       init_pcb k' = init_pcb k \<and> last_pid k' = last_pid k \<and> shutdown_now k' = shutdown_now k)"
proof (cases "- (2 ^ 31) \<le> disastrOS_time k + 1 \<and> disastrOS_time k + 1 < 2 ^ 31")
  case False
  then show ?thesis by (auto simp: timerHandler_def timerInterrupt_def Let_def run add_int_def)
next
  case True
  note empty = list_first_lst [OF kernel_okD(1) [OF ok]]
  let ?k = "(log_out (log_line (disastrOS_time k) (running_pid (saved k)) ''TIMER_OUT'') (saved k))\<lparr>disastrOS_time := disastrOS_time k + 1\<rparr>"
  have first: "list_first Timer_list ?k = None" "list_first Ready_list ?k = None"
    using empty [of Timer_list] empty [of Ready_list] by (simp_all add: list_first_def alone)
  have "wake_all_expired ?k = Inr ?k"
    unfolding wake_all_expired_def by (rule c_while_stop) (simp add: TimerList_current_def first)
  moreover have "timer_dispatch ?k = Inr ?k" by (simp add: timer_dispatch_def first)
  moreover have "timerHandler k = timerInterrupt (saved k)" by (simp add: timerHandler_def saved_def)
  moreover have "running (saved k) = Some r" "disastrOS_time (saved k) = disastrOS_time k" by (simp_all add: saved_def run)
  ultimately obtain s where "timerHandler k = Inr (To_process r, log_out s ?k)"
    using True by (auto simp: timerInterrupt_def Let_def add_int_def)
  moreover have "kernel_ok (log_out s ?k)" "running (log_out s ?k) = Some r" "lists (log_out s ?k) = lists k"
    "pools (log_out s ?k) = pools k" "log_file k = None \<longrightarrow> log_file (log_out s ?k) = None"
    "init_pcb (log_out s ?k) = init_pcb k" "last_pid (log_out s ?k) = last_pid k" "shutdown_now (log_out s ?k) = shutdown_now k" for s
    using saved_simps(1) [OF ok] by (simp_all add: log_out_def) (simp_all add: saved_def run)
  ultimately show ?thesis using handler_tick_untouched [OF ok] by fastforce
qed

section \<open>Outlines\<close>

text \<open>An assertion about a process that runs, which a tick does not falsify, unless the clock overflows.\<close>

definition steady :: "ptr \<Rightarrow> (kernel \<Rightarrow> bool) \<Rightarrow> bool" where
  "steady r A \<longleftrightarrow> (\<forall>k. A k \<longrightarrow> kernel_ok k \<and> running k = Some r \<and>
     (timerHandler k = Inl Signed_overflow \<or> (\<exists>k'. timerHandler k = Inr (To_process r, k') \<and> A k')))"

text \<open>
  The sizes of the pools that processes and queues use; and the process \<open>r\<close> is the only one there has been: it is
  \<open>init_pcb\<close>, nobody waits and there is no zombie.
\<close>

definition configured :: "kernel \<Rightarrow> bool" where
  "configured k \<longleftrightarrow> pa_size_max (pools k Pcb_buffer) = MAX_NUM_PROCESSES \<and> pa_size_max (pools k Pcb_ptr_buffer) = MAX_NUM_PROCESSES \<and>
     pa_size_max (pools k Bq_buffer) = MAX_NUM_BQUEUES \<and> pa_size_max (pools k Bqitem_buffer) = MAX_NUM_BQITEMS"

definition only :: "ptr \<Rightarrow> kernel \<Rightarrow> bool" where
  "only r k \<longleftrightarrow> lst k Waiting_list = [] \<and> lst k Zombie_list = [] \<and> init_pcb k = Some r \<and> last_pid k = 1 \<and>
     shutdown_now k = 0 \<and> configured k"

text \<open>The process \<open>r\<close> is alone: nobody else can run, there is no log, and there is room for \<open>n\<close> more items and links.\<close>

definition alone :: "ptr \<Rightarrow> int \<Rightarrow> kernel \<Rightarrow> bool" where
  "alone r n k \<longleftrightarrow> kernel_ok k \<and> running k = Some r \<and> log_file k = None \<and> lst k Ready_list = [] \<and>
     lst k Timer_list = [] \<and> only r k \<and> n \<le> room k Bqitem_buffer \<and> n \<le> room k Pcb_ptr_buffer"

lemma configured_pools: "pools k' = pools k \<Longrightarrow> configured k' = configured k"
  by (simp add: configured_def)

lemma only_fields [simp]:
  "only r (print_out s k) = only r k" "only r (k\<lparr>user_mem := mem\<rparr>) = only r k" "only r (upd_pcb p f k) = only r k"
  "only r (trapped p n regs k) = only r k"
  by (simp_all add: only_def configured_def trapped_def)

lemma alone_fields [simp]:
  "alone r n (print_out s k) = alone r n k" "alone r n (k\<lparr>user_mem := mem\<rparr>) = alone r n k"
  by (simp_all add: alone_def)

lemma alone_steady:
  assumes "\<And>k k'. C k \<Longrightarrow> same_queues k k' \<Longrightarrow> user_mem k' = user_mem k \<Longrightarrow> pools k' = pools k \<Longrightarrow> C k'"
  shows "steady r (\<lambda>k. alone r n k \<and> C k)"
  unfolding steady_def
proof (intro allI impI)
  fix k assume k: "alone r n k \<and> C k"
  then have a: "kernel_ok k" "running k = Some r" "lst k Ready_list = []" "lst k Timer_list = []" "log_file k = None" "only r k"
    by (simp_all add: alone_def)
  have "alone r n k' \<and> C k'" if "kernel_ok k'" "running k' = Some r" "lists k' = lists k" "pools k' = pools k"
    "log_file k' = None" "untouched (saved k) k'" "init_pcb k' = init_pcb k" "last_pid k' = last_pid k"
    "shutdown_now k' = shutdown_now k" for k'
  proof -
    have "same_queues (saved k) k'" "user_mem k' = user_mem k" using that(6) by (simp_all add: untouched_def)
    moreover from this(1) have "same_queues k k'" by (rule same_queues_trans [OF saved_simps(2)])
    moreover have "only r k'" using a(6) that configured_pools [OF that(4)] by (simp add: only_def)
    ultimately show ?thesis using k that(1-5) assms [of k k'] by (simp add: alone_def)
  qed
  with lone_tick [OF a(1-4)] a(1,2,5)
  show "kernel_ok k \<and> running k = Some r \<and> (timerHandler k = Inl Signed_overflow \<or>
      (\<exists>k'. timerHandler k = Inr (To_process r, k') \<and> alone r n k' \<and> C k'))" by blast
qed

text \<open>A call on a queue that comes back leaves the process the only one.\<close>

lemma quiet_return:
  assumes run: "running k = Some r" and quiet: "log_file k = None" and f: "f \<in> {Fn_bq_put, Fn_bq_get, Fn_bq_create, Fn_bq_delete}"
    and call: "disastrOS_syscall (code_of f) va k = Inr (Inr (c, k'))"
  shows "init_pcb k' = init_pcb k \<and> last_pid k' = last_pid k \<and> shutdown_now k' = shutdown_now k \<and>
    (\<forall>x. pa_size_max (pools k' x) = pa_size_max (pools k x))"
proof -
  obtain regs where regs: "copy_args (numarg f) 0 va (syscall_args (pcbs k r)) = Inr regs"
    using call run code_range [of f]
    by (cases "copy_args (numarg f) 0 va (syscall_args (pcbs k r))")
      (auto simp: disastrOS_syscall_def numarg_read dsos_consts split: if_splits)
  from f have "f \<noteq> Fn_shutdown" by auto
  let ?k = "trapped r (code_of f) regs k"
  from call [unfolded syscall_eq [OF run \<open>f \<noteq> Fn_shutdown\<close> regs]] obtain j k2 where
    h: "run_handler f ?k = Inr (j, k2)" and ret: "return_to_process (code_of f) k2 = Inr (c, k')"
    by (auto simp: and_then_Inr_iff)
  have same: "settings k2 = settings ?k" "last_pid k2 = last_pid ?k"
    using h f by (auto simp: returning_def elim!: and_then_InrE
        dest: settings.put settings.get settings.create settings.delete next_pid.put next_pid.get next_pid.create next_pid.delete)
  then have "log_file k2 = None" using quiet by (simp add: settings_def)
  with ret have "k' = k2" by (simp add: return_quiet)
  with same show ?thesis by (auto simp: settings_def trapped_def fun_eq_iff)
qed

lemma only_viewed:
  assumes "only r k" and "settings k' = settings k" and "last_pid k' = last_pid k" and "lst k' Waiting_list = []" and "lst k' Zombie_list = []"
  shows "only r k'"
proof -
  from assms(2) have "pa_size_max (pools k' x) = pa_size_max (pools k x)" for x by (simp add: settings_def fun_eq_iff)
  with assms show ?thesis by (simp add: only_def configured_def settings_def)
qed

lemma only_returns:
  assumes "only r k" and "running k = Some r" and "log_file k = None" and "f \<in> {Fn_bq_put, Fn_bq_get, Fn_bq_create, Fn_bq_delete}"
    and "disastrOS_syscall (code_of f) va k = Inr (Inr (c, k'))" and "kernel_ok k'" and "running k' = Some r"
    and "lst k' Zombie_list = lst k Zombie_list" and "set (lst k' Waiting_list) \<subseteq> insert r (set (lst k Waiting_list))"
  shows "only r k'"
proof -
  have "r \<notin> set (lst k' Waiting_list)" by (rule running_notin [OF assms(6,7)])
  then have "lst k' Waiting_list = []" using assms(1,9) by (cases "lst k' Waiting_list") (auto simp: only_def)
  with quiet_return [OF assms(2-5)] assms(1,8) show ?thesis by (simp add: only_def configured_def)
qed

text \<open>A call that comes straight back, with a result that satisfies \<open>R\<close>, to a state that satisfies \<open>C\<close>.\<close>

definition comes_back :: "ptr \<Rightarrow> int \<Rightarrow> int list \<Rightarrow> (int \<Rightarrow> bool) \<Rightarrow> (kernel \<Rightarrow> bool) \<Rightarrow> kernel \<Rightarrow> bool" where
  "comes_back r n va R C k \<longleftrightarrow>
     (\<exists>k'. disastrOS_syscall n va k = Inr (Inr (To_process r, k')) \<and> running k' = Some r \<and>
        R (syscall_retvalue (pcbs k' r)) \<and> C k')"

lemma comes_backI:
  assumes "ok_with (disastrOS_syscall n va k) (\<lambda>res. \<exists>k'. res = Inr (To_process r, k') \<and>
    (running k' = Some r \<and> R (syscall_retvalue (pcbs k' r)) \<and> C k'))"
  shows "comes_back r n va R C k"
  using assms by (auto simp: comes_back_def ok_with_iff)

text \<open>
  An outline of a program from an assertion to a point \<open>q\<close> of the program, where \<open>B\<close> holds; \<open>I\<close> holds until then.
\<close>

inductive outline ::
  "ptr \<Rightarrow> (kernel \<Rightarrow> bool) \<Rightarrow> (kernel \<Rightarrow> bool) \<Rightarrow> program \<Rightarrow> (kernel \<Rightarrow> bool) \<Rightarrow> program \<Rightarrow> bool"
  for r :: ptr and I :: "kernel \<Rightarrow> bool" and B :: "kernel \<Rightarrow> bool" and q :: program
where
  End: "\<forall>k. A k \<longrightarrow> B k \<Longrightarrow> outline r I B q A q"
| Never: "\<forall>k. \<not> A k \<Longrightarrow> outline r I B q A p"
| Own: "steady r A \<Longrightarrow> \<forall>k. A k \<longrightarrow> I k \<Longrightarrow>
    \<forall>inp k. A k \<longrightarrow> (\<exists>v k'. perform inp act k = Inr (v, k') \<and> C v k') \<Longrightarrow> \<forall>v. outline r I B q (C v) (c v) \<Longrightarrow>
    outline r I B q A (Do act c)"
| Call: "steady r A \<Longrightarrow> \<forall>k. A k \<longrightarrow> I k \<Longrightarrow>
    \<forall>k. A k \<longrightarrow> (\<exists>k'. disastrOS_syscall n va k = Inr (Inr (To_process r, k')) \<and> running k' = Some r \<and>
      C (syscall_retvalue (pcbs k' r)) k') \<Longrightarrow> \<forall>v. outline r I B q (C v) (c v) \<Longrightarrow>
    outline r I B q A (Do (Syscall n va) c)"

text \<open>The common cases: an action with one value, a call with one result.\<close>

lemma outline_act:
  assumes "steady r A" and "\<forall>k. A k \<longrightarrow> I k" and "\<forall>inp k. A k \<longrightarrow> (\<exists>k'. perform inp act k = Inr (v, k') \<and> C k')"
    and "outline r I B q C (c v)"
  shows "outline r I B q A (Do act c)"
proof (rule outline.Own [OF assms(1,2), where C = "\<lambda>u k. u = v \<and> C k"])
  show "\<forall>u. outline r I B q (\<lambda>k. u = v \<and> C k) (c u)"
  proof
    fix u show "outline r I B q (\<lambda>k. u = v \<and> C k) (c u)" using assms(4) by (cases "u = v") (simp_all add: outline.Never)
  qed
qed (use assms(3) in blast)

lemma outline_call:
  assumes "steady r A" and "\<forall>k. A k \<longrightarrow> I k"
    and "\<forall>k. A k \<longrightarrow> (\<exists>k'. disastrOS_syscall n va k = Inr (Inr (To_process r, k')) \<and> running k' = Some r \<and>
      R (syscall_retvalue (pcbs k' r)) \<and> C k')"
    and "\<And>v. R v \<Longrightarrow> outline r I B q C (c v)"
  shows "outline r I B q A (Do (Syscall n va) c)"
proof (rule outline.Call [OF assms(1,2), where C = "\<lambda>u k. R u \<and> C k"])
  show "\<forall>u. outline r I B q (\<lambda>k. R u \<and> C k) (c u)"
  proof
    fix u show "outline r I B q (\<lambda>k. R u \<and> C k) (c u)" using assms(4) by (cases "R u") (simp_all add: outline.Never)
  qed
qed (use assms(3) in blast)

section \<open>What an outline says about the runs\<close>

definition within :: "ptr \<Rightarrow> (kernel \<Rightarrow> bool) \<Rightarrow> (kernel \<Rightarrow> bool) \<Rightarrow> program \<Rightarrow> world \<Rightarrow> bool" where
  "within r I B q w \<longleftrightarrow> (\<exists>A k. mach w = (In_process, k) \<and> A k \<and> outline r I B q A (now w))"

definition finished :: "(kernel \<Rightarrow> bool) \<Rightarrow> program \<Rightarrow> world \<Rightarrow> bool" where
  "finished B q w \<longleftrightarrow> fst (mach w) = In_process \<and> now w = q \<and> B (snd (mach w))"

text \<open>A context that was saved goes on where it was.\<close>

lemma arrive_saved:
  assumes "cpu_state (pcbs k p) = Ctx_saved"
  shows "arrive code sus (To_process p) k =
    \<lparr>mach = (In_process, k), now = go_on (sus p) (syscall_retvalue (pcbs k p)), suspended = sus\<rparr>"
  by (simp add: arrive_def resumed_def assms)

lemma called_saved:
  assumes "kernel_ok k" and "running k = Some r" and "disastrOS_syscall n va k = Inr (Inr (To_process r, k'))"
    and "running k' = Some r"
  shows "cpu_state (pcbs k' r) = Ctx_saved"
proof -
  have "kernel_ok k'" using syscall_keeps [OF assms(1), of n va] assms(3) by simp
  then have "r \<in> alive k'" "r \<in> alive k" using running_alive assms by blast+
  with syscall_confined [OF assms(1-3)] show ?thesis by (auto simp: confined_processes_def)
qed

lemma tick_saved:
  assumes "kernel_ok k" and "running k = Some r" and "timerHandler k = Inr (ctl, k')"
  shows "cpu_state (pcbs k' r) = Ctx_saved"
  using handler_tick_untouched [OF assms(1)] assms(2,3)
  by (simp add: untouched_def same_processes_def saved_def upd_pcb_at)

text \<open>The step of a process whose program is at an action, by the kind of the action.\<close>

inductive_cases step_of_process: "prog_step code f f_args logging \<lparr>mach = (In_process, k), now = Do act c, suspended = sus\<rparr> w'"

lemma step_within:
  assumes step: "prog_step code f f_args logging \<lparr>mach = (In_process, k), now = p, suspended = sus\<rparr> w'"
    and o: "outline r I B q A p" and A: "A k"
  shows "p = q \<and> B k \<or> within r I B q w' \<or> fst (mach w') = Crashed Signed_overflow \<and> I (snd (mach w')) \<and>
    timerHandler (snd (mach w')) = Inl Signed_overflow"
  using o
proof (cases rule: outline.cases)
  case (Own act C c)
  from Own(2,3) A have k: "kernel_ok k" "running k = Some r" "I k"
    and tick: "timerHandler k = Inl Signed_overflow \<or> (\<exists>k'. timerHandler k = Inr (To_process r, k') \<and> A k')"
    by (auto simp: steady_def)
  have go: "\<exists>v k'. perform inp act k = Inr (v, k') \<and> C v k'" for inp using Own(4) A by blast
  have own: "act \<noteq> Syscall n va" "perform inp act k \<noteq> Inl e" for n va inp e using go [of inp] go [of 0] by (cases act; force)+
  show ?thesis
  proof (rule step_of_process [OF step [unfolded Own(1)]], goal_cases)
    case (1 inp v k')
    with go [of inp] Own(5) show ?case by (auto simp: within_def)
  next
    case (6 r' ctl k')
    then have "ctl = To_process r" "A k'" "r' = r" using tick k(2) by auto
    moreover have "cpu_state (pcbs k' r) = Ctx_saved" using tick_saved [OF k(1,2) 6(3)] .
    ultimately show ?case using o by (auto simp: within_def arrive_saved 6(1) Own(1))
  qed (use own k tick in auto)
next
  case (Call n va C c)
  from Call(2,3) A have k: "kernel_ok k" "running k = Some r" "I k"
    and tick: "timerHandler k = Inl Signed_overflow \<or> (\<exists>k'. timerHandler k = Inr (To_process r, k') \<and> A k')"
    by (auto simp: steady_def)
  from Call(4) A obtain k2 where k2: "disastrOS_syscall n va k = Inr (Inr (To_process r, k2))" "running k2 = Some r"
    "C (syscall_retvalue (pcbs k2 r)) k2" by blast
  show ?thesis
  proof (rule step_of_process [OF step [unfolded Call(1)]], goal_cases)
    case (3 r' n' va' ctl k')
    with k2 k(2) have "ctl = To_process r" "k' = k2" "r' = r" by auto
    moreover have "cpu_state (pcbs k2 r) = Ctx_saved" by (rule called_saved [OF k(1,2) k2(1,2)])
    ultimately show ?case using Call(5) k2(3) by (auto simp: within_def arrive_saved 3(2))
  next
    case (6 r' ctl k')
    then have "ctl = To_process r" "A k'" "r' = r" using tick k(2) by auto
    moreover have "cpu_state (pcbs k' r) = Ctx_saved" using tick_saved [OF k(1,2) 6(3)] .
    ultimately show ?case using o by (auto simp: within_def arrive_saved 6(1) Call(1))
  qed (use k k2 tick in auto)
qed (use A in auto)

lemma outline_finishes:
  assumes "outline r I B q A p" and "A k"
  shows "\<exists>w'. (prog_step code f f_args logging)\<^sup>*\<^sup>* \<lparr>mach = (In_process, k), now = p, suspended = sus\<rparr> w' \<and> finished B q w'"
  using assms
proof (induction arbitrary: k sus rule: outline.induct)
  case (End A)
  then have "finished B q \<lparr>mach = (In_process, k), now = q, suspended = sus\<rparr>" by (simp add: finished_def)
  then show ?case by blast
next
  case (Own A act C c)
  from Own(3,5) obtain v k' where k': "perform 0 act k = Inr (v, k')" "C v k'" by blast
  from prog_step.Own [OF k'(1)]
  have "prog_step code f f_args logging \<lparr>mach = (In_process, k), now = Do act c, suspended = sus\<rparr>
    \<lparr>mach = (In_process, k'), now = c v, suspended = sus\<rparr>" .
  with Own(4) k'(2) show ?case by (meson converse_rtranclp_into_rtranclp)
next
  case (Call A n va C c)
  from Call(1,5) have k: "kernel_ok k" "running k = Some r" by (auto simp: steady_def)
  from Call(3,5) obtain k' where k': "disastrOS_syscall n va k = Inr (Inr (To_process r, k'))" "running k' = Some r"
    "C (syscall_retvalue (pcbs k' r)) k'" by blast
  from prog_step.Call [OF k(2) k'(1), of code f f_args logging c sus] called_saved [OF k k'(1,2)]
  have "prog_step code f f_args logging \<lparr>mach = (In_process, k), now = Do (Syscall n va) c, suspended = sus\<rparr>
    \<lparr>mach = (In_process, k'), now = c (syscall_retvalue (pcbs k' r)), suspended = sus(r := In_call c)\<rparr>"
    by (simp add: arrive_saved)
  with Call(4) k'(3) show ?case by (meson converse_rtranclp_into_rtranclp)
qed simp

lemma within_finishes:
  assumes "within r I B q w"
  shows "\<exists>w'. (prog_step code f f_args logging)\<^sup>*\<^sup>* w w' \<and> finished B q w'"
proof -
  from assms obtain A k where w: "mach w = (In_process, k)" "A k" "outline r I B q A (now w)" by (auto simp: within_def)
  then have "w = \<lparr>mach = (In_process, k), now = now w, suspended = suspended w\<rparr>" by simp
  with outline_finishes [OF w(3,2), of code f f_args logging "suspended w"] show ?thesis by metis
qed

lemma outline_inv: "outline r I B q A p \<Longrightarrow> A k \<Longrightarrow> p = q \<and> B k \<or> I k"
  by (erule outline.cases) auto

lemma within_inv: "within r I B q w \<Longrightarrow> finished B q w \<or> I (snd (mach w))"
  using outline_inv by (fastforce simp: within_def finished_def)

section \<open>The runs of a system whose first process has an outline\<close>

definition boot_world :: "kernel \<Rightarrow> world" where
  "boot_world k = \<lparr>mach = (In_main, k), now = Return, suspended = (\<lambda>_. Between Return)\<rparr>"

lemma run_within:
  assumes run: "prog_run sizeof out code f f_args logging w"
    and k0: "start_init sizeof (zero_kernel\<lparr>stdout := out\<rparr>) = Inr k0"
    and k: "start_resume f f_args logging k0 = Inr (Some (To_process r, k))"
    and first: "\<And>sus. within r I B q (arrive code sus (To_process r) k)"
  shows "w = boot_world k0 \<or> within r I B q w \<or> fst (mach w) = Crashed Signed_overflow \<and> I (snd (mach w)) \<and>
      timerHandler (snd (mach w)) = Inl Signed_overflow \<or>
    (\<exists>w0. prog_run sizeof out code f f_args logging w0 \<and> finished B q w0 \<and> (prog_step code f f_args logging)\<^sup>*\<^sup>* w0 w)"
  using run
proof (induction rule: prog_run.induct)
  case (Boot k')
  then show ?case using k0 by (simp add: boot_world_def)
next
  case (Step w w')
  from Step(3) consider "w = boot_world k0" | "within r I B q w" | "fst (mach w) = Crashed Signed_overflow"
    | w0 where "prog_run sizeof out code f f_args logging w0" "finished B q w0" "(prog_step code f f_args logging)\<^sup>*\<^sup>* w0 w"
    by blast
  then show ?case
  proof cases
    case 1
    with Step(2) have "\<exists>sus. w' = arrive code sus (To_process r) k"
      by (cases rule: prog_step.cases) (use k in \<open>auto simp: boot_world_def\<close>)
    with first show ?thesis by blast
  next
    case 2
    then obtain A k1 where w: "mach w = (In_process, k1)" "A k1" "outline r I B q A (now w)" by (auto simp: within_def)
    then have "w = \<lparr>mach = (In_process, k1), now = now w, suspended = suspended w\<rparr>" by simp
    with step_within [of code f f_args logging k1 "now w" "suspended w", OF _ w(3,2)] Step(2)
    have "now w = q \<and> B k1 \<or> within r I B q w' \<or> fst (mach w') = Crashed Signed_overflow \<and> I (snd (mach w')) \<and>
    timerHandler (snd (mach w')) = Inl Signed_overflow" by metis
    moreover have "finished B q w" if "now w = q" "B k1" using that w(1) by (simp add: finished_def)
    ultimately show ?thesis using Step(1,2) by blast
  next
    case 3
    with Step(2) show ?thesis by (cases rule: prog_step.cases) auto
  next
    case 4
    with Step(2) show ?thesis by (meson rtranclp.rtrancl_into_rtrancl)
  qed
qed

lemma boot_finishes:
  assumes "start_resume f f_args logging k0 = Inr (Some (To_process r, k))"
    and "\<And>sus. within r I B q (arrive code sus (To_process r) k)"
  shows "\<exists>w'. (prog_step code f f_args logging)\<^sup>*\<^sup>* (boot_world k0) w' \<and> finished B q w'"
  using prog_step.Resume [OF assms(1), of code Return "\<lambda>_. Between Return"] within_finishes [OF assms(2)]
  by (metis boot_world_def converse_rtranclp_into_rtranclp)

end
