(* ===== verification/Queue_Test.thy ===== *)
theory Queue_Test
  imports Outlines Test_Programs
begin

text \<open>
  The unit test of the blocking queues, \<open>test_unitario_bq\<close>, in the system that runs it: an outline of the test, from
  the start of the first process to the end of the test.
\<close>

section \<open>The state between two calls\<close>

text \<open>
  The process is alone, there is room for \<open>n\<close> more puts and gets, the queue with the identifier of the test is in
  the state \<open>Q\<close> (or does not exist yet or any more), \<open>i\<close> checks were made and none failed, and the variable of the test holds \<open>v\<close>.
\<close>

definition unit_queue :: "bq_view option \<Rightarrow> kernel \<Rightarrow> bool" where
  "unit_queue Q k \<longleftrightarrow>
     (case Q of
        None \<Rightarrow> lst k Bq_registry = []
      | Some Q \<Rightarrow> \<exists>q. lst k Bq_registry = [q] \<and> bqueue_named UNIT_QID k = Some q \<and> queue_view k q = Q)"

definition unit_state :: "layout \<Rightarrow> ptr \<Rightarrow> int \<Rightarrow> bq_view option \<Rightarrow> int \<Rightarrow> int \<Rightarrow> kernel \<Rightarrow> bool" where
  "unit_state L r n Q i v k \<longleftrightarrow> alone r n k \<and> unit_queue Q k \<and> (i = 0 \<and> Q = None \<longrightarrow> 0 < room k Bq_buffer) \<and>
     user_mem k (addr_run L) = i \<and> user_mem k (addr_failed L) = 0 \<and> user_mem k (addr_v L) = v"

text \<open>The variables of the test are different, and the one that receives values is not at address 0.\<close>

definition unit_layout :: "layout \<Rightarrow> bool" where
  "unit_layout L \<longleftrightarrow> addr_v L \<noteq> 0 \<and> distinct [addr_run L, addr_failed L, addr_v L]"

lemma no_queue_named: "lst k Bq_registry = [] \<Longrightarrow> bqueue_named qid k = None"
  by (simp add: bqueue_named_def)

lemma unit_queue_fields [simp]:
  "unit_queue Q (print_out s k) = unit_queue Q k" "unit_queue Q (k\<lparr>user_mem := mem\<rparr>) = unit_queue Q k"
  by (simp_all add: unit_queue_def queue_view_def bqueue_named_def split: option.split)

lemma unit_queue_same: "same_queues k k' \<Longrightarrow> unit_queue Q k' = unit_queue Q k"
  by (simp add: unit_queue_def same_queues_def bqueue_named_def del: bq_view_simps split: option.split)

lemma unit_state_out [simp]: "unit_state L r n Q i v (print_out s k) = unit_state L r n Q i v k"
  by (simp add: unit_state_def)

lemma unit_state_steady: "steady r (unit_state L r n Q i v)"
proof -
  let ?C = "\<lambda>k. unit_queue Q k \<and> (i = 0 \<and> Q = None \<longrightarrow> 0 < room k Bq_buffer) \<and>
    user_mem k (addr_run L) = i \<and> user_mem k (addr_failed L) = 0 \<and> user_mem k (addr_v L) = v"
  have "steady r (\<lambda>k. alone r n k \<and> ?C k)" by (rule alone_steady) (simp add: unit_queue_same)
  then show ?thesis by (simp add: unit_state_def [abs_def])
qed

section \<open>The calls of the test\<close>

lemma refined_alone:
  assumes "alone r n k" and "kernel_ok k'" and "bq_refines q r (Q, Returns None w) k k'"
    and "f \<in> {Fn_bq_put, Fn_bq_get, Fn_bq_create, Fn_bq_delete}" and "disastrOS_syscall (code_of f) va k = Inr (Inr (c, k'))"
  shows "alone r (n - 1) k' \<and> syscall_retvalue (pcbs k' r) = 0 \<and> user_mem k' = write_user w (user_mem k)"
proof -
  from assms(3) have room: "room k x - 1 \<le> room k' x" for x by (simp add: bq_refines_def)
  have "n - 1 \<le> room k' Bqitem_buffer" "n - 1 \<le> room k' Pcb_ptr_buffer"
    using assms(1) room [of Bqitem_buffer] room [of Pcb_ptr_buffer] by (simp_all add: alone_def)
  moreover have "only r k'"
    by (rule only_returns [OF _ _ _ assms(4,5)]) (use assms in \<open>auto simp: alone_def bq_refines_def bq_effect_def\<close>)
  ultimately show ?thesis using assms by (simp add: alone_def bq_refines_def bq_effect_def)
qed

lemma refined_unit_queue:
  assumes "lst k Bq_registry = [q]" and "bqueue_named UNIT_QID k = Some q" and "bq_refines q r (Q, out) k k'"
  shows "unit_queue (Some Q) k'"
  using assms by (simp add: unit_queue_def bq_refines_def bqueue_named_def del: bq_view_simps)

lemma call_put:
  assumes u: "unit_state L r n (Some Q) i v k" "0 < n" and room: "v_getters Q = []" "int (length (v_items Q)) < v_cap Q"
  shows "comes_back r DSOS_CALL_BQ_PUT [UNIT_QID, x] (\<lambda>rc. rc = 0)
    (unit_state L r (n - 1) (Some (Q\<lparr>v_items := v_items Q @ [x]\<rparr>)) i v) k"
proof -
  from u have a: "alone r n k" and "unit_queue (Some Q) k" and mem: "user_mem k (addr_run L) = i"
    "user_mem k (addr_failed L) = 0" "user_mem k (addr_v L) = v" by (simp_all add: unit_state_def)
  then obtain q where q: "kernel_ok k" "running k = Some r" "log_file k = None" "bqueue_named UNIT_QID k = Some q"
    "queue_view k q = Q" "0 < room k Bqitem_buffer" "0 < room k Pcb_ptr_buffer" and only: "lst k Bq_registry = [q]"
    using u(2) by (auto simp: unit_queue_def alone_def simp del: bq_view_simps)
  from bqPut_refines [OF q(1-3) _ _ q(4,6,7), of x] obtain k' where
    k': "disastrOS_bqPut UNIT_QID x k = Inr (Inr (next_control k', k'))" "kernel_ok k'" "bq_refines q r (bq_put r x Q) k k'"
    by (auto simp: ok_with_iff UNIT_QID_def q(5) simp del: bq_view_simps)
  have put: "bq_put r x Q = (Q\<lparr>v_items := v_items Q @ [x]\<rparr>, Returns None None)" using room by (simp add: bq_put_def)
  have call: "disastrOS_syscall (code_of Fn_bq_put) [UNIT_QID, x] k = Inr (Inr (next_control k', k'))"
    using k'(1) by (simp add: disastrOS_bqPut_def)
  note after = refined_alone [OF a k'(2) k'(3) [unfolded put] _ call] refined_unit_queue [OF only q(4) k'(3) [unfolded put]]
  then have "running k' = Some r" by (simp add: alone_def)
  with after k'(1) mem show ?thesis
    by (auto simp: comes_back_def disastrOS_bqPut_def next_control_def unit_state_def write_user_def)
qed

lemma call_get:
  assumes u: "unit_state L r n (Some Q) i v k" "0 < n" and items: "v_items Q = x # xs" "v_putters Q = []"
    and L: "unit_layout L"
  shows "comes_back r DSOS_CALL_BQ_GET [UNIT_QID, addr_v L] (\<lambda>rc. rc = 0)
    (unit_state L r (n - 1) (Some (Q\<lparr>v_items := xs\<rparr>)) i x) k"
proof -
  from u have a: "alone r n k" and "unit_queue (Some Q) k" and mem: "user_mem k (addr_run L) = i"
    "user_mem k (addr_failed L) = 0" by (simp_all add: unit_state_def)
  then obtain q where q: "kernel_ok k" "running k = Some r" "log_file k = None" "bqueue_named UNIT_QID k = Some q"
    "queue_view k q = Q" "0 < room k Pcb_ptr_buffer" and only: "lst k Bq_registry = [q]"
    using u(2) by (auto simp: unit_queue_def alone_def simp del: bq_view_simps)
  from bqGet_refines [OF q(1-3) _ _ q(4,6), of "addr_v L"] obtain k' where
    k': "disastrOS_bqGet UNIT_QID (addr_v L) k = Inr (Inr (next_control k', k'))" "kernel_ok k'"
      "bq_refines q r (bq_get r (addr_v L) Q) k k'"
    by (auto simp: ok_with_iff UNIT_QID_def q(5) simp del: bq_view_simps)
  have get: "bq_get r (addr_v L) Q = (Q\<lparr>v_items := xs\<rparr>, Returns None (Some (addr_v L, x)))"
    using items by (simp add: bq_get_def)
  have call: "disastrOS_syscall (code_of Fn_bq_get) [UNIT_QID, addr_v L] k = Inr (Inr (next_control k', k'))"
    using k'(1) by (simp add: disastrOS_bqGet_def)
  note after = refined_alone [OF a k'(2) k'(3) [unfolded get] _ call] refined_unit_queue [OF only q(4) k'(3) [unfolded get]]
  then have "running k' = Some r" by (simp add: alone_def)
  with after k'(1) mem L show ?thesis
    by (auto simp: comes_back_def disastrOS_bqGet_def next_control_def unit_state_def write_user_def unit_layout_def)
qed

lemma call_create:
  assumes u: "unit_state L r n None 0 v k"
  shows "comes_back r DSOS_CALL_BQ_CREATE [UNIT_QID, UNIT_CAP] (\<lambda>rc. rc = 0)
    (unit_state L r n (Some (bq_new UNIT_CAP)) 0 v) k"
proof -
  from u have k: "kernel_ok k" "running k = Some r" "log_file k = None" "bqueue_named UNIT_QID k = None" "0 < room k Bq_buffer"
    by (simp_all add: unit_state_def alone_def unit_queue_def no_queue_named)
  from bqCreate_ok [OF k(1-3) _ _ _ _ k(4,5), of UNIT_CAP] obtain k' where
    k': "disastrOS_bqCreate UNIT_QID UNIT_CAP k = Inr (Inr (To_process r, k'))" "kernel_ok k'"
      "\<exists>q. lst k' Bq_registry = lst k Bq_registry @ [q] \<and> bqueue_named UNIT_QID k' = Some q \<and> queue_view k' q = bq_new UNIT_CAP"
      "syscall_retvalue (pcbs k' r) = 0" "running k' = Some r" "log_file k' = None"
      "\<forall>h. h \<noteq> Bq_registry \<longrightarrow> lst k' h = lst k h" "\<forall>x. x \<noteq> Bq_buffer \<longrightarrow> room k' x = room k x"
    by (auto simp: ok_with_iff UNIT_QID_def UNIT_CAP_def simp del: bq_view_simps)
  then have call: "disastrOS_syscall DSOS_CALL_BQ_CREATE [UNIT_QID, UNIT_CAP] k = Inr (Inr (To_process r, k'))"
    by (simp add: disastrOS_bqCreate_def)
  have "user_mem k' = user_mem k"
    using syscall_confined [OF k(1,2) call] by (auto simp: confined_memory_def dsos_consts)
  moreover have "only r k'"
    by (rule only_returns [where f = Fn_bq_create and va = "[UNIT_QID, UNIT_CAP]" and k = k])
      (use u k' call in \<open>auto simp: unit_state_def alone_def\<close>)
  ultimately show ?thesis using u k' call
    by (simp add: comes_back_def unit_state_def alone_def unit_queue_def del: bq_view_simps)
qed

text \<open>What the two calls that are left rely on: the trap and a result leave the state alone.\<close>

lemma unit_state_trapped: "unit_state L r n Q i v k \<Longrightarrow> unit_state L r n Q i v (trapped r m regs k)"
  by (auto simp: unit_state_def alone_def unit_queue_def trapped_ok trapped_view simp del: bq_view_simps split: option.splits)

lemma unit_state_returns: "unit_state L r n Q i v k \<Longrightarrow> unit_state L r n Q i v (set_retvalue p x k)"
  using retvalue_ok [of k p x]
  by (auto simp: unit_state_def alone_def unit_queue_def queue_view_def bqueue_named_def split: option.splits)

lemma call_create_again:
  assumes u: "unit_state L r n (Some Q) i v k"
  shows "comes_back r DSOS_CALL_BQ_CREATE [UNIT_QID, UNIT_CAP] (\<lambda>rc. rc < 0) (unit_state L r n (Some Q) i v) k"
proof -
  from u have ok: "kernel_ok k" and run: "running k = Some r" and quiet: "log_file k = None"
    and named: "bqueue_named UNIT_QID k \<noteq> None" by (auto simp: unit_state_def alone_def unit_queue_def)
  let ?regs = "(syscall_args (pcbs k r))(0 := UNIT_QID, 1 := UNIT_CAP)" and ?n = "code_of Fn_bq_create"
  let ?k = "trapped r ?n ?regs k"
  let ?k' = "set_retvalue r DSOS_EEXIST (print_out (bq_create_msg r ?k) ?k)"
  have args: "copy_args (numarg Fn_bq_create) 0 [UNIT_QID, UNIT_CAP] (syscall_args (pcbs k r)) = Inr ?regs"
    by (simp add: numarg_values numeral_2_eq_2)
  have "internal_bq_create ?k = Inr ?k'"
    using ok run named by (intro bq_create_refused(2) trapped_ok) (auto simp: UNIT_QID_def UNIT_CAP_def to_int_id)
  moreover have u': "unit_state L r n (Some Q) i v ?k'" by (intro unit_state_returns) (simp add: unit_state_trapped [OF u])
  then have "log_file ?k' = None" "running ?k' = Some r" by (simp_all add: unit_state_def alone_def)
  ultimately have "ok_with (run_handler Fn_bq_create ?k) (\<lambda>(_, k'). log_file k' = None \<and> running k' = Some r \<and>
    (running k' = Some r \<and> syscall_retvalue (pcbs k' r) < 0 \<and> unit_state L r n (Some Q) i v k'))"
    using u' by (simp add: returning_def DSOS_EEXIST_def)
  from syscall_returns [OF run quiet _ args this] show ?thesis by (intro comes_backI) simp
qed

lemma call_delete:
  assumes u: "unit_state L r n (Some Q) 8 v k" and idle: "v_getters Q = []" "v_putters Q = []"
  shows "comes_back r DSOS_CALL_BQ_DELETE [UNIT_QID] (\<lambda>rc. rc = 0) (unit_state L r 0 None 8 v) k"
proof -
  from u obtain q where ok: "kernel_ok k" and run: "running k = Some r" and quiet: "log_file k = None"
    and q: "bqueue_named UNIT_QID k = Some q" "queue_view k q = Q" "lst k Bq_registry = [q]" and lone: "lst k Ready_list = []" "lst k Timer_list = []" "only r k"
    and mem: "user_mem k (addr_run L) = 8" "user_mem k (addr_failed L) = 0" "user_mem k (addr_v L) = v"
    by (auto simp: unit_state_def alone_def unit_queue_def simp del: bq_view_simps)
  have none: "lst k (Wait_getters q) = []" "lst k (Wait_putters q) = []" using q(2) idle by (auto simp: queue_view_def)
  let ?regs = "(syscall_args (pcbs k r))(0 := UNIT_QID)" and ?n = "code_of Fn_bq_delete"
  let ?k = "trapped r ?n ?regs k"
  have args: "copy_args (numarg Fn_bq_delete) 0 [UNIT_QID] (syscall_args (pcbs k r)) = Inr ?regs"
    by (simp add: numarg_values)
  have "ok_with (internal_bq_delete ?k) (\<lambda>k'. kernel_ok k' \<and> deleted q r ?k k')"
    using run q none by (intro bq_delete_ok [OF trapped_ok [OF ok run]]) (simp_all add: UNIT_QID_def to_int_id)
  moreover have "remove1 q (lst k Bq_registry) = []" by (simp add: q(3))
  moreover have "only r k'" if "internal_bq_delete ?k = Inr k'" "deleted q r ?k k'" for k'
  proof (rule only_viewed [OF _ settings.delete [OF that(1)] next_pid.delete [OF that(1)]])
    show "only r ?k" using lone(3) by simp
    show "lst k' Waiting_list = []" "lst k' Zombie_list = []" using that(2) lone(3) by (simp_all add: deleted_def only_def)
  qed
  moreover have "0 \<le> room k' x" if "kernel_ok k'" for k' x
    using struct_pool_ok [OF kernel_okD(1) [OF that], of x] by (auto simp: pool_ok_def pool_rep_def)
  ultimately have "ok_with (run_handler Fn_bq_delete ?k) (\<lambda>(_, k'). log_file k' = None \<and> running k' = Some r \<and>
    (running k' = Some r \<and> syscall_retvalue (pcbs k' r) = 0 \<and> unit_state L r 0 None 8 v k'))"
    using quiet lone mem
    by (simp add: returning_def ok_with_and_then unit_state_def alone_def unit_queue_def) (erule ok_with_mono, simp add: deleted_def)
  from syscall_returns [OF run quiet _ args this] show ?thesis by (intro comes_backI) simp
qed

section \<open>The outline of the test\<close>

definition no_failure :: "layout \<Rightarrow> kernel \<Rightarrow> bool" where
  "no_failure L k \<longleftrightarrow> user_mem k (addr_failed L) = 0"

lemma unit_no_failure: "\<forall>k. unit_state L r n Q i v k \<longrightarrow> no_failure L k"
  by (simp add: unit_state_def no_failure_def)

lemmas unit_act = outline_act [OF unit_state_steady unit_no_failure]

lemma unit_say:
  "outline r (no_failure L) B q (unit_state L r n Q i v) p \<Longrightarrow> outline r (no_failure L) B q (unit_state L r n Q i v) (say s p)"
  by (rule unit_act [where C = "unit_state L r n Q i v" and v = "int (length s)"]) simp_all

lemma unit_load:
  assumes "outline r (no_failure L) B q (unit_state L r n Q i v) (c x)" and "\<And>k. unit_state L r n Q i v k \<Longrightarrow> user_mem k a = x"
  shows "outline r (no_failure L) B q (unit_state L r n Q i v) (Do (Load a) c)"
  by (rule unit_act [where C = "unit_state L r n Q i v" and v = x]) (simp_all add: assms)

lemma unit_loads:
  "outline r (no_failure L) B q (unit_state L r n Q i v) (c v) \<Longrightarrow>
    outline r (no_failure L) B q (unit_state L r n Q i v) (Do (Load (addr_v L)) c)"
  "outline r (no_failure L) B q (unit_state L r n Q i v) (c i) \<Longrightarrow>
    outline r (no_failure L) B q (unit_state L r n Q i v) (Do (Load (addr_run L)) c)"
  "outline r (no_failure L) B q (unit_state L r n Q i v) (c 0) \<Longrightarrow>
    outline r (no_failure L) B q (unit_state L r n Q i v) (Do (Load (addr_failed L)) c)"
  by (rule unit_load; simp add: unit_state_def)+

lemma unit_store:
  assumes "unit_layout L" and "outline r (no_failure L) B q (unit_state L r n Q i x) (c 0)"
  shows "outline r (no_failure L) B q (unit_state L r n Q i v) (Do (Store (addr_v L) x) c)"
  by (rule unit_act [where C = "unit_state L r n Q i x" and v = 0]) (use assms in \<open>auto simp: unit_state_def unit_layout_def\<close>)

lemma unit_pass:
  assumes L: "unit_layout L" and i: "0 \<le> i" "i < 9" and j: "i + 1 = j"
    and p: "outline r (no_failure L) B q (unit_state L r n Q j v) p"
  shows "outline r (no_failure L) B q (unit_state L r n Q i v) (pass L what p)"
  unfolding pass_def increment_def
proof (rule unit_loads, rule unit_act [where C = "unit_state L r n Q i v" and v = "i + 1"])
  show "\<forall>inp k. unit_state L r n Q i v k \<longrightarrow>
      (\<exists>k'. perform inp (Compute (add_int i 1)) k = Inr (i + 1, k') \<and> unit_state L r n Q i v k')"
    using i by (simp add: add_int_def)
  show "outline r (no_failure L) B q (unit_state L r n Q i v)
      (Do (Store (addr_run L) (i + 1)) (\<lambda>_. say (''[PASS] '' @ what @ newline) p))"
    by (rule unit_act [where C = "unit_state L r n Q j v" and v = 0])
      (use L i j unit_say [OF p] in \<open>auto simp: unit_state_def unit_layout_def\<close>)
qed

lemma unit_call:
  assumes "\<And>k. unit_state L r n Q i v k \<Longrightarrow> comes_back r m va R (unit_state L r n' Q' i v') k"
    and "\<And>rc. R rc \<Longrightarrow> outline r (no_failure L) B q (unit_state L r n' Q' i v') (c rc)"
  shows "outline r (no_failure L) B q (unit_state L r n Q i v) (call m va c)"
  by (rule outline_call [OF unit_state_steady unit_no_failure, where R = R and C = "unit_state L r n' Q' i v'"])
    (use assms in \<open>auto simp: comes_back_def\<close>)

lemma asserts_pass [simp]:
  "assert_ok L 0 what p = pass L what p" "assert_eq_long L x x what p = pass L what p"
  "rc < 0 \<Longrightarrow> assert_neg L rc what p = pass L what p"
  by (simp_all add: assert_ok_def assert_neg_def assert_eq_long_def)

text \<open>A call whose result is checked to be 0, and the check of a value.\<close>

lemma unit_checked:
  assumes L: "unit_layout L" and i: "0 \<le> i" "i < 9"
    and comes: "\<And>k. unit_state L r n Q i v k \<Longrightarrow> comes_back r m va (\<lambda>rc. rc = 0) (unit_state L r n' Q' i v') k"
    and j: "i + 1 = j" and p: "outline r (no_failure L) B q (unit_state L r n' Q' j v') p"
  shows "outline r (no_failure L) B q (unit_state L r n Q i v) (call m va (\<lambda>rc. assert_ok L rc what p))"
  by (rule unit_call [OF comes]) (simp_all add: unit_pass [OF L i j p])

lemma unit_value:
  assumes L: "unit_layout L" and i: "0 \<le> i" "i < 9" and j: "i + 1 = j"
    and p: "outline r (no_failure L) B q (unit_state L r n Q j v) p"
  shows "outline r (no_failure L) B q (unit_state L r n Q i v) (Do (Load (addr_v L)) (\<lambda>x. assert_eq_long L x v what p))"
  by (rule unit_loads) (simp add: unit_pass [OF L i j p])

abbreviation unit_bq :: "int list \<Rightarrow> bq_view" where
  "unit_bq xs \<equiv> \<lparr>v_cap = UNIT_CAP, v_items = xs, v_getters = [], v_putters = []\<rparr>"

text \<open>The test; \<open>r\<close> is the process that runs it and \<open>p\<close> what it does afterwards.\<close>

lemma unit_test_outline:
  assumes L: "unit_layout L"
  shows "outline r (no_failure L) (unit_state L r 0 None 9 222) p (unit_state L r 4 None 0 v) (test_unitario_bq L p)"
proof -
  note checked = unit_checked [OF L, where r = r]
  have create: "unit_state L r 4 None 0 v k \<Longrightarrow> comes_back r DSOS_CALL_BQ_CREATE [UNIT_QID, UNIT_CAP] (\<lambda>rc. rc = 0)
      (unit_state L r 4 (Some (unit_bq [])) 0 v) k" for k v
    using call_create [of L r 4 v k] by (simp add: bq_new_def)
  have put: "unit_state L r n (Some (unit_bq xs)) i v k \<Longrightarrow> comes_back r DSOS_CALL_BQ_PUT [UNIT_QID, x] (\<lambda>rc. rc = 0)
      (unit_state L r (n - 1) (Some (unit_bq (xs @ [x]))) i v) k" if "0 < n" "length xs < 2" for n xs i v x k
    using call_put [of L r n "unit_bq xs" i v k x] that by (simp add: UNIT_CAP_def)
  have get: "unit_state L r n (Some (unit_bq (x # xs))) i v k \<Longrightarrow> comes_back r DSOS_CALL_BQ_GET [UNIT_QID, addr_v L]
      (\<lambda>rc. rc = 0) (unit_state L r (n - 1) (Some (unit_bq xs)) i x) k" if "0 < n" for n xs i v x k
    using call_get [of L r n "unit_bq (x # xs)" i v k x xs] that L by simp
  have delete: "unit_state L r 0 (Some (unit_bq [])) 8 222 k \<Longrightarrow> comes_back r DSOS_CALL_BQ_DELETE [UNIT_QID]
      (\<lambda>rc. rc = 0) (unit_state L r 0 None 8 222) k" for k
    using call_delete [of L r 0 "unit_bq []" 222 k] by simp
  show ?thesis
    unfolding test_unitario_bq_def
    apply (rule unit_say)
    apply (rule checked [OF _ _ create], simp, simp, assumption, simp)
    apply (rule unit_call [OF call_create_again], assumption)
    apply (simp only: asserts_pass, rule unit_pass [OF L], simp, simp, simp)
    apply (rule checked [OF _ _ put [where n = 4 and xs = "[]"]], simp, simp, simp, simp, assumption, simp)
    apply (rule checked [OF _ _ put [where n = 3 and xs = "[111]"]], simp, simp, simp, simp, simp, simp)
    apply (rule unit_store [OF L])
    apply (rule checked [OF _ _ get [where n = 2 and xs = "[222]"]], simp, simp, simp, simp, simp)
    apply (rule unit_value [OF L], simp, simp, simp)
    apply (rule checked [OF _ _ get [where n = 1 and xs = "[]"]], simp, simp, simp, simp, simp)
    apply (rule unit_value [OF L], simp, simp, simp)
    apply (rule checked [OF _ _ delete], simp, simp, simp, simp)
    apply (rule unit_loads, rule unit_loads, rule unit_say, rule outline.End, simp)
    done
qed

section \<open>The test in the runs of the program\<close>

text \<open>The test has been completed: nine checks, none failed, and the concurrent test is next.\<close>

definition unit_passed :: "layout \<Rightarrow> world \<Rightarrow> bool" where
  "unit_passed L w \<longleftrightarrow> fst (mach w) = In_process \<and> now w = test_mini_concorrente L (summary L) \<and>
     user_mem (snd (mach w)) (addr_run L) = 9 \<and> user_mem (snd (mach w)) (addr_failed L) = 0 \<and>
     bqueue_named UNIT_QID (snd (mach w)) = None"

lemma finished_passed: "finished (unit_state L r 0 None 9 222) (test_mini_concorrente L (summary L)) w \<Longrightarrow> unit_passed L w"
  by (simp add: finished_def unit_passed_def unit_state_def unit_queue_def no_queue_named)

text \<open>What the first process is about to do when the system has started.\<close>

lemma boot_only:
  assumes "kernel_ok k" and empty: "\<forall>h. lst k h = []" and room: "room k Bq_buffer = MAX_NUM_BQUEUES"
    "room k Bqitem_buffer = MAX_NUM_BQITEMS" "room k Pcb_ptr_buffer = MAX_NUM_PROCESSES" "room k Pcb_buffer = MAX_NUM_PROCESSES - 1"
    and first: "in_use k Pcb_buffer = {r}" "init_pcb k = Some r" "last_pid k = 1" "shutdown_now k = 0"
  shows "only r k"
proof -
  have "in_use k x = {}" if "x \<in> {Pcb_ptr_buffer, Bq_buffer, Bqitem_buffer}" for x
    using leak_free_listed [OF kernel_okD(11) [OF assms(1)], of x] empty that by fastforce
  then show ?thesis
    using blocks_accounted [OF assms(1), of Pcb_buffer] blocks_accounted [OF assms(1), of Pcb_ptr_buffer]
      blocks_accounted [OF assms(1), of Bq_buffer] blocks_accounted [OF assms(1), of Bqitem_buffer] empty room first
    by (simp add: only_def configured_def)
qed

lemma unit_first:
  assumes "unit_layout L" and "sizes_ok sizeof"
  shows "\<exists>k0 r k. start_init sizeof (zero_kernel\<lparr>stdout := out\<rparr>) = Inr k0 \<and> shutdown_now k0 = 0 \<and> user_mem k0 = (\<lambda>_. 0) \<and>
    start_resume (at_init L) 0 False k0 = Inr (Some (To_process r, k)) \<and> (\<forall>sus.
      within r (no_failure L) (unit_state L r 0 None 9 222) (test_mini_concorrente L (summary L))
        (arrive (bq_code L) sus (To_process r) k))"
proof (rule boots_first [OF assms(2), of out "at_init L" 0], goal_cases)
  case (1 k0 r k)
  from 1 have "only r k" by (intro boot_only) simp_all
  then have "unit_state L r 4 None 0 0 k"
    using 1 by (simp add: unit_state_def alone_def unit_queue_def bqueue_named_def MAX_NUM_BQUEUES_def MAX_NUM_BQITEMS_def
        MAX_NUM_PROCESSES_def)
  moreover have "arrive (bq_code L) sus (To_process r) k = \<lparr>mach = (In_process, k), now = initFunction L, suspended = sus\<rparr>"
    for sus using 1 by (simp add: arrive_def resumed_def bq_code_def)
  moreover have "outline r (no_failure L) (unit_state L r 0 None 9 222) (test_mini_concorrente L (summary L))
      (unit_state L r 4 None 0 0) (initFunction L)"
    unfolding initFunction_def by (rule unit_say) (rule unit_test_outline [OF assms(1)])
  ultimately show ?case using 1 by (auto simp: within_def)
qed

text \<open>A step of the program, when it has no log, and the worlds on the way to the end of the test.\<close>

abbreviation bq_step :: "layout \<Rightarrow> world \<Rightarrow> world \<Rightarrow> bool" where
  "bq_step L \<equiv> prog_step (bq_code L) (at_init L) 0 False"

definition unit_underway :: "layout \<Rightarrow> world \<Rightarrow> bool" where
  "unit_underway L w \<longleftrightarrow> user_mem (snd (mach w)) (addr_failed L) = 0 \<and>
     (fst (mach w) = Crashed Signed_overflow \<or> (\<exists>w'. (bq_step L)\<^sup>*\<^sup>* w w' \<and> unit_passed L w'))"

text \<open>The same, with all that is known of the state at the end of the test and of the clock that overflows.\<close>

definition unit_ended :: "layout \<Rightarrow> world \<Rightarrow> bool" where
  "unit_ended L w \<longleftrightarrow> (\<exists>r. finished (unit_state L r 0 None 9 222) (test_mini_concorrente L (summary L)) w)"

definition clock_crash :: "world \<Rightarrow> bool" where
  "clock_crash w \<longleftrightarrow> fst (mach w) = Crashed Signed_overflow \<and> timerHandler (snd (mach w)) = Inl Signed_overflow"

lemma unit_run:
  assumes run: "bq_main sizeof L argc w" and sz: "sizes_ok sizeof" and quiet: "argc \<le> 1" and L: "unit_layout L"
  shows "user_mem (snd (mach w)) (addr_failed L) = 0 \<and> (clock_crash w \<or> (\<exists>w'. (bq_step L)\<^sup>*\<^sup>* w w' \<and> unit_ended L w')) \<or>
    (\<exists>w0. bq_main sizeof L argc w0 \<and> unit_ended L w0 \<and> (bq_step L)\<^sup>*\<^sup>* w0 w)"
proof -
  obtain out where main: "bq_main sizeof L argc = prog_run sizeof out (bq_code L) (at_init L) 0 False"
    using quiet by (simp add: bq_main_def)
  obtain k0 r k where k: "start_init sizeof (zero_kernel\<lparr>stdout := out\<rparr>) = Inr k0" "user_mem k0 = (\<lambda>_. 0)"
    "start_resume (at_init L) 0 False k0 = Inr (Some (To_process r, k))"
    and first: "\<And>sus. within r (no_failure L) (unit_state L r 0 None 9 222) (test_mini_concorrente L (summary L))
      (arrive (bq_code L) sus (To_process r) k)"
    using unit_first [OF L sz, of out] by metis
  let ?fin = "finished (unit_state L r 0 None 9 222) (test_mini_concorrente L (summary L))"
  have e: "unit_ended L w" if "?fin w" for w using that unfolding unit_ended_def by blast
  from run_within [OF run [unfolded main] k(1,3) first] show ?thesis
  proof (elim disjE exE conjE)
    assume w: "w = boot_world k0"
    then have "\<exists>w'. (bq_step L)\<^sup>*\<^sup>* w w' \<and> unit_ended L w'" using boot_finishes [OF k(3) first] e by blast
    moreover have "user_mem (snd (mach w)) (addr_failed L) = 0" using w k(2) by (simp add: boot_world_def)
    ultimately show ?thesis by blast
  next
    assume w: "within r (no_failure L) (unit_state L r 0 None 9 222) (test_mini_concorrente L (summary L)) w"
    then have "user_mem (snd (mach w)) (addr_failed L) = 0"
      using within_inv [OF w] by (auto simp: finished_def unit_state_def no_failure_def)
    with within_finishes [OF w, of "bq_code L" "at_init L" 0 False] e show ?thesis by blast
  qed (use e in \<open>auto simp: clock_crash_def no_failure_def main\<close>)
qed

lemma unit_test_run:
  assumes run: "bq_main sizeof L argc w" and sz: "sizes_ok sizeof" and quiet: "argc \<le> 1" and L: "unit_layout L"
  shows "unit_underway L w \<or> (\<exists>w0. bq_main sizeof L argc w0 \<and> unit_passed L w0 \<and> (bq_step L)\<^sup>*\<^sup>* w0 w)"
proof -
  have "unit_passed L w" if "unit_ended L w" for w using that finished_passed by (auto simp: unit_ended_def)
  with unit_run [OF assms] show ?thesis unfolding unit_underway_def clock_crash_def by blast
qed

end
