(* ===== verification/Crew.thy ===== *)
theory Crew
  imports Team Queue_Test
begin

text \<open>
  The kernel while the concurrent test runs: what holds of the processes, the queue and the counters between two actions of
  the team, and how far the blocks of the pools go.
\<close>

section \<open>The state of the team\<close>

text \<open>
  What the kernel does not record: where the leader is, how many workers are still to be spawned, the counters of the
  checks, and for every process its role and a bound on the number of its actions.
\<close>

record crew =
  at_stage :: stage
  more_p :: nat
  more_c :: nat
  runs :: int
  fails :: int
  role_of :: "ptr \<Rightarrow> role"
  todo :: "ptr \<Rightarrow> nat"

text \<open>The workers other than \<open>i\<close> that have a role.\<close>

definition yet :: "crew \<Rightarrow> ptr \<Rightarrow> role \<Rightarrow> kernel \<Rightarrow> ptr set" where
  "yet g i \<rho> k = {x \<in> alive k. x \<noteq> i \<and> role_of g x = \<rho>}"

text \<open>The puts that have been called on a queue and exceed the gets.\<close>

definition balance :: "bq_view \<Rightarrow> int" where
  "balance Q = int (length (v_items Q)) + int (length (v_putters Q)) - int (length (v_getters Q))"

definition called :: "crew \<Rightarrow> ptr \<Rightarrow> kernel \<Rightarrow> int" where
  "called g i k = (int NPROD_PROCS - int (more_p g) - int (card (yet g i Putting k))) -
     (int NCONS_PROCS - int (more_c g) - int (card (yet g i Getting k)))"

text \<open>The process \<open>i\<close> is the leader, and the parent of all the others.\<close>

definition crew_family :: "ptr \<Rightarrow> kernel \<Rightarrow> bool" where
  "crew_family i k \<longleftrightarrow> kernel_ok k \<and> log_file k = None \<and> shutdown_now k = 0 \<and> configured k \<and>
     init_pcb k = Some i \<and> i \<in> alive k \<and> (\<forall>x \<in> in_use k Pcb_buffer. x \<noteq> i \<longrightarrow> parent (pcbs k x) = Some i)"

definition crew_counts :: "layout \<Rightarrow> crew \<Rightarrow> kernel \<Rightarrow> bool" where
  "crew_counts L g k \<longleftrightarrow> more_p g \<le> NPROD_PROCS \<and> more_c g \<le> NCONS_PROCS \<and>
     last_pid k = 1 + (int NPROD_PROCS - int (more_p g)) + (int NCONS_PROCS - int (more_c g)) \<and>
     user_mem k (addr_run L) = runs g \<and> user_mem k (addr_failed L) = fails g"

text \<open>The leader waits for any child, when there are no more workers to spawn; a worker waits in its put or its get.\<close>

definition waits_as :: "layout \<Rightarrow> crew \<Rightarrow> ptr \<Rightarrow> ptr \<Rightarrow> int \<Rightarrow> (nat \<Rightarrow> int) \<Rightarrow> bool" where
  "waits_as L g i x n args \<longleftrightarrow>
     (if x = i then n = DSOS_CALL_WAIT \<and> args 0 = 0 \<and> at_stage g = Serving \<and> more_p g = 0 \<and> more_c g = 0
      else role_of g x = Leaving \<and> (n = DSOS_CALL_BQ_PUT \<or> n = DSOS_CALL_BQ_GET \<and> args 1 \<in> range (addr_cv L)))"

definition crew_waits :: "layout \<Rightarrow> crew \<Rightarrow> ptr \<Rightarrow> kernel \<Rightarrow> bool" where
  "crew_waits L g i k \<longleftrightarrow> (\<forall>x \<in> set (lst k Waiting_list). waits_as L g i x (syscall_num (pcbs k x)) (syscall_args (pcbs k x)))"

definition crew_queue :: "crew \<Rightarrow> ptr \<Rightarrow> kernel \<Rightarrow> bool" where
  "crew_queue g i k \<longleftrightarrow>
     length (lst k Bq_registry) \<le> 1 \<and>
     (\<forall>q \<in> set (lst k Bq_registry). bq_id (bqueues k q) = QID \<and> v_cap (queue_view k q) = CAP) \<and>
     (case at_stage g of
        Opening \<Rightarrow> lst k Bq_registry = [] \<and> alive k = {i} \<and> more_p g = NPROD_PROCS \<and> more_c g = NCONS_PROCS
      | Serving \<Rightarrow> \<exists>q. lst k Bq_registry = [q] \<and> balance (queue_view k q) = called g i k
      | Closing \<Rightarrow> True)"

definition crew_state :: "layout \<Rightarrow> ptr \<Rightarrow> crew \<Rightarrow> kernel \<Rightarrow> bool" where
  "crew_state L i g k \<longleftrightarrow> crew_family i k \<and> crew_counts L g k \<and> crew_waits L g i k \<and> crew_queue g i k"

lemma crew_stateI:
  "crew_family i k \<Longrightarrow> crew_counts L g k \<Longrightarrow> crew_waits L g i k \<Longrightarrow> crew_queue g i k \<Longrightarrow> crew_state L i g k"
  by (simp add: crew_state_def)

lemma crew_ok:
  assumes "crew_state L i g k"
  shows "kernel_ok k" "log_file k = None" "shutdown_now k = 0" "init_pcb k = Some i" "i \<in> alive k"
    "crew_family i k" "crew_counts L g k" "crew_waits L g i k" "crew_queue g i k"
  using assms by (simp_all add: crew_state_def crew_family_def)

lemma crew_parent: "crew_state L i g k \<Longrightarrow> x \<in> alive k \<Longrightarrow> x \<noteq> i \<Longrightarrow> parent (pcbs k x) = Some i"
  by (simp add: crew_state_def crew_family_def alive_def)

lemma finite_alive [simp]: "finite (alive k)" "finite (yet g i \<rho> k)"
  by (simp_all add: alive_def yet_def)

section \<open>The blocks that are left\<close>

lemma few_processes:
  assumes "crew_state L i g k"
  shows "card (in_use k Pcb_buffer) \<le> 19"
proof -
  note pids = kernel_okD(4) [OF crew_ok(1) [OF assms]]
  have "card (in_use k Pcb_buffer) = card ((\<lambda>p. pid (pcbs k p)) ` in_use k Pcb_buffer)"
    using pids by (simp add: pids_ok_def card_image)
  also have "\<dots> \<le> card {0..<last_pid k}"
    using pids by (intro card_mono) (auto simp: pids_ok_def)
  also have "\<dots> \<le> 19" using crew_ok(7) [OF assms] by (simp add: crew_counts_def NPROD_PROCS_def NCONS_PROCS_def)
  finally show ?thesis .
qed

text \<open>A link is a child's, a getter's or a putter's, and of each kind there is at most one to a process.\<close>

lemma child_links:
  assumes "kernel_ok k"
  shows "inj_on (pcb_ptrs k) (\<Union>q. set (lst k (Children q)))" and "pcb_ptrs k ` (\<Union>q. set (lst k (Children q))) \<subseteq> in_use k Pcb_buffer"
proof -
  have kid: "pcb_ptrs k w \<in> in_use k Pcb_buffer" "parent (pcbs k (pcb_ptrs k w)) = Some q" if "w \<in> set (lst k (Children q))" for w q
    using kernel_okD(3) [OF assms] that by (simp_all add: family_ok_def)
  have "w = w'" if "w \<in> set (lst k (Children q))" "w' \<in> set (lst k (Children q'))" "pcb_ptrs k w = pcb_ptrs k w'" for w w' q q'
  proof -
    have "q = q'" using kid(2) [OF that(1)] kid(2) [OF that(2)] that(3) by simp
    moreover have "inj_on (pcb_ptrs k) (set (lst k (Children q)))" using kernel_okD(3) [OF assms] by (simp add: family_ok_def)
    ultimately show ?thesis using that by (auto dest: inj_onD)
  qed
  then show "inj_on (pcb_ptrs k) (\<Union>q. set (lst k (Children q)))" "pcb_ptrs k ` (\<Union>q. set (lst k (Children q))) \<subseteq> in_use k Pcb_buffer"
    using kid(1) by (blast intro: inj_onI)+
qed

lemma waiter_links:
  assumes "kernel_ok k" and "waiters_ok H n k"
  shows "inj_on (pcb_ptrs k) (\<Union>q. set (lst k (H q)))" and "pcb_ptrs k ` (\<Union>q. set (lst k (H q))) \<subseteq> in_use k Pcb_buffer"
proof -
  have "blocked n k \<subseteq> in_use k Pcb_buffer" using kernel_okD(2) [OF assms(1)] by (auto simp: blocked_def sched_ok_def)
  moreover have "pcb_ptrs k w \<in> blocked n k" if "w \<in> set (lst k (H q))" for w q
    using that assms(2) by (simp add: waiters_ok_def)
  moreover have "w = w'" if "w \<in> set (lst k (H q))" "w' \<in> set (lst k (H q'))" "pcb_ptrs k w = pcb_ptrs k w'" for w w' q q'
    using that assms(2) unfolding waiters_ok_def by blast
  ultimately show "inj_on (pcb_ptrs k) (\<Union>q. set (lst k (H q)))" "pcb_ptrs k ` (\<Union>q. set (lst k (H q))) \<subseteq> in_use k Pcb_buffer"
    by (blast intro: inj_onI)+
qed

lemma few_links:
  assumes "crew_state L i g k"
  shows "card (in_use k Pcb_ptr_buffer) \<le> 57"
proof -
  note S = kernel_okD [OF crew_ok(1) [OF assms]]
  let ?all = "\<lambda>H. \<Union>q. set (lst k (H q))"
  have few: "finite (?all H) \<and> card (?all H) \<le> 19"
    if "inj_on (pcb_ptrs k) (?all H)" "pcb_ptrs k ` ?all H \<subseteq> in_use k Pcb_buffer" for H
    using finite_imageD [OF finite_subset [OF that(2) finite_live] that(1)] card_inj_on_le [OF that finite_live]
      few_processes [OF assms] by linarith
  note kids = few [OF child_links [OF crew_ok(1) [OF assms]]]
    and get = few [OF waiter_links [OF crew_ok(1) [OF assms] S(6)]]
    and put = few [OF waiter_links [OF crew_ok(1) [OF assms] S(7)]]
  have "in_use k Pcb_ptr_buffer \<subseteq> ?all Children \<union> ?all Wait_getters \<union> ?all Wait_putters"
    using S(11) unfolding leak_free_def by blast
  then have "card (in_use k Pcb_ptr_buffer) \<le> card (?all Children \<union> ?all Wait_getters \<union> ?all Wait_putters)"
    by (rule card_mono [rotated]) (use kids get put in blast)
  also have "\<dots> \<le> card (?all Children) + card (?all Wait_getters) + card (?all Wait_putters)"
    using card_Un_le [of "?all Children \<union> ?all Wait_getters" "?all Wait_putters"] card_Un_le [of "?all Children" "?all Wait_getters"]
    by linarith
  finally show ?thesis using kids get put by linarith
qed

lemma few_items:
  assumes "crew_state L i g k"
  shows "card (in_use k Bqitem_buffer) \<le> 3"
proof -
  note S = kernel_okD [OF crew_ok(1) [OF assms]] and Q = crew_ok(9) [OF assms]
  have len: "length (lst k (Items q)) \<le> 3" for q
    using S(9) Q by (cases "q \<in> set (lst k Bq_registry)") (auto simp: queues_ok_def crew_queue_def CAP_def)
  show ?thesis
  proof (cases "lst k Bq_registry")
    case Nil
    then have "lst k (Items q) = []" for q using S(9) by (simp add: queues_ok_def)
    then have "in_use k Bqitem_buffer = {}" using S(11) by (auto simp: leak_free_def)
    then show ?thesis by simp
  next
    case (Cons q qs)
    then have "lst k Bq_registry = [q]" using Q by (cases qs) (auto simp: crew_queue_def)
    then have "lst k (Items q') = []" if "q' \<noteq> q" for q' using S(9) that by (simp add: queues_ok_def)
    then have "in_use k Bqitem_buffer \<subseteq> set (lst k (Items q))" using S(11) by (fastforce simp: leak_free_def)
    then have "card (in_use k Bqitem_buffer) \<le> card (set (lst k (Items q)))" by (intro card_mono) simp_all
    also have "\<dots> \<le> length (lst k (Items q))" by (rule card_length)
    finally show ?thesis using len [of q] by linarith
  qed
qed

lemma crew_rooms:
  assumes "crew_state L i g k"
  shows "0 < room k Pcb_buffer" "0 < room k Pcb_ptr_buffer" "0 < room k Bqitem_buffer"
    and "lst k Bq_registry = [] \<Longrightarrow> 0 < room k Bq_buffer"
proof -
  note ok = crew_ok(1) [OF assms]
  have conf: "configured k" using crew_ok(6) [OF assms] by (simp add: crew_family_def)
  note acc = blocks_accounted [OF ok] and conf = conf [unfolded configured_def MAX_NUM_PROCESSES_def MAX_NUM_BQITEMS_def MAX_NUM_BQUEUES_def]
  show "0 < room k Pcb_buffer" using acc [of Pcb_buffer] few_processes [OF assms] conf by linarith
  show "0 < room k Pcb_ptr_buffer" using acc [of Pcb_ptr_buffer] few_links [OF assms] conf by linarith
  show "0 < room k Bqitem_buffer" using acc [of Bqitem_buffer] few_items [OF assms] conf by linarith
  assume "lst k Bq_registry = []"
  then have "in_use k Bq_buffer = {}" using kernel_okD(11) [OF ok] by (auto simp: leak_free_def)
  then show "0 < room k Bq_buffer" using acc [of Bq_buffer] conf by simp
qed

end
