(* ===== verification/Crew_Calls.thy ===== *)
theory Crew_Calls
  imports Crew
begin

text \<open>
  The system calls of the team, from the trap to the end of the handler: each keeps the state of the team, and somebody runs
  afterwards.
\<close>

section \<open>Changes that the state of the team does not see\<close>

lemma crew_todo [simp]: "crew_state L i (g\<lparr>todo := n\<rparr>) k = crew_state L i g k"
  by (simp add: crew_state_def crew_counts_def crew_waits_def crew_queue_def waits_as_def called_def yet_def cong: stage.case_cong)

lemma crew_family_frame:
  assumes "crew_family i k" and "kernel_ok k'" and "settings k' = settings k" and "i \<in> alive k'"
    and "\<And>x. x \<in> in_use k' Pcb_buffer \<Longrightarrow> x \<noteq> i \<Longrightarrow> parent (pcbs k' x) = Some i"
  shows "crew_family i k'"
proof -
  from assms(3) have "pa_size_max (pools k' x) = pa_size_max (pools k x)" for x by (simp add: settings_def fun_eq_iff)
  with assms show ?thesis by (simp add: crew_family_def settings_def configured_def)
qed

lemma crew_waits_frame:
  assumes "crew_waits L g i k" and "settings k' = settings k"
    and "\<And>x. x \<in> set (lst k' Waiting_list) \<Longrightarrow>
      x \<in> set (lst k Waiting_list) \<or> waits_as L g i x (syscall_num (pcbs k x)) (syscall_args (pcbs k x))"
  shows "crew_waits L g i k'"
proof -
  from assms(2) have "syscall_num (pcbs k' x) = syscall_num (pcbs k x) \<and> syscall_args (pcbs k' x) = syscall_args (pcbs k x)" for x
    by (simp add: settings_def fun_eq_iff)
  then show ?thesis using assms(1,3) by (auto simp: crew_waits_def)
qed

lemma crew_queue_frame:
  assumes "crew_queue g i k" and "same_queues k k'" and "alive k' = alive k"
  shows "crew_queue g i k'"
  using assms by (simp add: crew_queue_def same_queues_def called_def yet_def del: bq_view_simps cong: stage.case_cong)

lemma crew_frame:
  assumes c: "crew_state L i g k" and "kernel_ok k'" and "settings k' = settings k" and "last_pid k' = last_pid k"
    and "parents k' = parents k" and "same_queues k k'" and "alive k' = alive k"
    and "in_use k' Pcb_buffer \<subseteq> in_use k Pcb_buffer"
    and "user_mem k' (addr_run L) = user_mem k (addr_run L)" and "user_mem k' (addr_failed L) = user_mem k (addr_failed L)"
    and "\<And>x. x \<in> set (lst k' Waiting_list) \<Longrightarrow>
      x \<in> set (lst k Waiting_list) \<or> waits_as L g i x (syscall_num (pcbs k x)) (syscall_args (pcbs k x))"
  shows "crew_state L i g k'"
proof (rule crew_stateI)
  have "parent (pcbs k' x) = parent (pcbs k x)" for x using assms(5) by (simp add: parents_def fun_eq_iff)
  then show "crew_family i k'" using crew_ok [OF c] assms by (intro crew_family_frame [of i k k']) (auto simp: crew_family_def)
  show "crew_counts L g k'" using crew_ok(7) [OF c] assms by (simp add: crew_counts_def)
  show "crew_waits L g i k'" by (rule crew_waits_frame [OF crew_ok(8) [OF c] assms(3,11)])
  show "crew_queue g i k'" by (rule crew_queue_frame [OF crew_ok(9) [OF c] assms(6,7)])
qed

lemma crew_trapped:
  assumes c: "crew_state L i g k" and run: "running k = Some r"
  shows "crew_state L i g (trapped r n regs k)"
proof (rule crew_stateI)
  let ?k = "trapped r n regs k"
  note ok = crew_ok(1) [OF c]
  have same: "init_pcb ?k = init_pcb k" "shutdown_now ?k = shutdown_now k" "last_pid ?k = last_pid k" "configured ?k = configured k"
    by (simp_all add: trapped_def configured_def)
  then show "crew_family i ?k" using crew_ok(6) [OF c] trapped_ok [OF ok run] by (simp add: crew_family_def)
  show "crew_counts L g ?k" using crew_ok(7) [OF c] same by (simp add: crew_counts_def)
  have "x \<noteq> r" if "x \<in> set (lst k Waiting_list)" for x using running_notin [OF ok run] that by blast
  then show "crew_waits L g i ?k" using crew_ok(8) [OF c] by (simp add: crew_waits_def)
  show "crew_queue g i ?k"
    using crew_ok(9) [OF c] by (simp add: crew_queue_def called_def yet_def trapped_view [OF ok run] del: bq_view_simps cong: stage.case_cong)
qed

lemma crew_quiet:
  assumes "crew_state L i g k"
  shows "crew_state L i g (set_retvalue r v k)" and "crew_state L i g (print_out s k)"
proof -
  have "settings (set_retvalue r v k) = settings k" "parents (set_retvalue r v k) = parents k" by simp_all
  show "crew_state L i g (set_retvalue r v k)"
    by (rule crew_frame [OF assms]) (use crew_ok(1) [OF assms] retvalue_ok [of k r v] in \<open>simp_all add: alive_def\<close>)
  show "crew_state L i g (print_out s k)"
    by (rule crew_frame [OF assms]) (use crew_ok(1) [OF assms] in \<open>simp_all add: alive_def\<close>)
qed

section \<open>Nobody is left behind\<close>

lemma crew_getter_variable:
  assumes c: "crew_state L i g k" and a: "(x, a) \<in> set (v_getters (queue_view k q))"
  shows "a \<in> range (addr_cv L)"
proof -
  from a obtain w where w: "w \<in> set (lst k (Wait_getters q))" "x = pcb_ptrs k w" "a = syscall_args (pcbs k x) 1" by auto
  then have "x \<in> blocked DSOS_CALL_BQ_GET k" using kernel_okD(6) [OF crew_ok(1) [OF c]] by (simp add: waiters_ok_def)
  then show ?thesis using crew_ok(8) [OF c] w(3)
    by (auto simp: blocked_def crew_waits_def waits_as_def dsos_consts split: if_split_asm)
qed

text \<open>
  When every worker has been spawned, and those that are alive wait, there are two more items and putters than getters: so
  nobody waits.
\<close>

lemma crew_not_stuck:
  assumes c: "crew_state L i g k" and all: "at_stage g = Serving" "more_p g = 0" "more_c g = 0"
    and wait: "\<And>x. x \<in> alive k \<Longrightarrow> x \<noteq> i \<Longrightarrow> x \<in> set (lst k Waiting_list)" and x: "x \<in> alive k" "x \<noteq> i"
  shows False
proof -
  note S = kernel_okD [OF crew_ok(1) [OF c]]
  have w: "waits_as L g i y (syscall_num (pcbs k y)) (syscall_args (pcbs k y))" if "y \<in> alive k" "y \<noteq> i" for y
    using wait [OF that] crew_ok(8) [OF c] by (simp add: crew_waits_def)
  then have "yet g i \<rho> k = {}" if "\<rho> \<noteq> Leaving" for \<rho> using that by (auto simp: yet_def waits_as_def)
  then have "called g i k = 2" by (simp add: called_def all NPROD_PROCS_def NCONS_PROCS_def)
  then obtain q where q: "lst k Bq_registry = [q]" "balance (queue_view k q) = 2" "bq_capacity (bqueues k q) = 3"
    using crew_ok(9) [OF c] all by (auto simp: crew_queue_def CAP_def simp del: bq_view_simps(2-))
  then have Q: "lst k (Wait_getters q) \<noteq> [] \<Longrightarrow> lst k (Items q) = [] \<and> lst k (Wait_putters q) = []"
    "lst k (Wait_putters q) \<noteq> [] \<Longrightarrow> length (lst k (Items q)) = 3"
    "q' \<noteq> q \<Longrightarrow> lst k (Wait_getters q') = [] \<and> lst k (Wait_putters q') = []" for q'
    using S(9) by (auto simp: queues_ok_def)
  from w [OF x] x(2) consider "x \<in> blocked DSOS_CALL_BQ_PUT k" | "x \<in> blocked DSOS_CALL_BQ_GET k"
    using wait [OF x] by (auto simp: waits_as_def blocked_def)
  then have "lst k (Wait_getters q) \<noteq> [] \<or> lst k (Wait_putters q) \<noteq> []"
  proof cases
    case 1
    then obtain q' w where "w \<in> set (lst k (Wait_putters q'))" using S(7) unfolding waiters_ok_def by blast
    then show ?thesis using Q(3) [of q'] by fastforce
  next
    case 2
    then obtain q' w where "w \<in> set (lst k (Wait_getters q'))" using S(6) unfolding waiters_ok_def by blast
    then show ?thesis using Q(3) [of q'] by fastforce
  qed
  moreover have "int (length (lst k (Items q))) + int (length (lst k (Wait_putters q))) - int (length (lst k (Wait_getters q))) = 2"
    using q(2) by (simp add: balance_def)
  ultimately show False using Q(1,2) by (cases "lst k (Wait_getters q)"; cases "lst k (Wait_putters q)") auto
qed

text \<open>So somebody runs, when a worker has blocked.\<close>

lemma crew_goes_on:
  assumes c: "crew_state L i g k" and r: "r \<in> alive k" "r \<noteq> i" and idle: "running k = None" "lst k Ready_list = []"
  shows False
proof -
  note S = kernel_okD [OF crew_ok(1) [OF c]]
  have all: "x \<in> set (lst k Waiting_list)" if "x \<in> alive k" for x
    using that S(2) idle by (auto simp: alive_def sched_ok_def)
  from all [OF crew_ok(5) [OF c]] have "at_stage g = Serving" "more_p g = 0" "more_c g = 0"
    using crew_ok(8) [OF c] by (auto simp: crew_waits_def waits_as_def)
  from crew_not_stuck [OF c this all r] show False .
qed

section \<open>The calls of the workers\<close>

text \<open>The worker \<open>r\<close> has made its put or its get.\<close>

definition past :: "crew \<Rightarrow> ptr \<Rightarrow> crew" where
  "past g r = g\<lparr>role_of := (role_of g)(r := Leaving)\<rparr>"

lemma past_simps [simp]:
  "at_stage (past g r) = at_stage g" "more_p (past g r) = more_p g" "more_c (past g r) = more_c g" "runs (past g r) = runs g"
  "fails (past g r) = fails g" "todo (past g r) = todo g" "role_of (past g r) x = (if x = r then Leaving else role_of g x)"
  by (simp_all add: past_def)

lemma past_counts [simp]: "crew_counts L (past g r) k = crew_counts L g k"
  by (simp add: crew_counts_def)

lemma past_waits_as: "x \<noteq> r \<Longrightarrow> waits_as L (past g r) i x n args = waits_as L g i x n args"
  by (simp add: waits_as_def)

lemma past_waits: "r \<notin> set (lst k Waiting_list) \<Longrightarrow> crew_waits L g i k \<Longrightarrow> crew_waits L (past g r) i k"
  unfolding crew_waits_def by (metis past_waits_as)

lemma past_called:
  assumes "r \<in> alive k" and "r \<noteq> i" and "role_of g r = Putting \<or> role_of g r = Getting" and "alive k' = alive k"
  shows "called (past g r) i k' = called g i k + (if role_of g r = Putting then 1 else -1)"
proof -
  have "yet (past g r) i \<rho> k' = (if \<rho> = role_of g r then yet g i \<rho> k - {r} else yet g i \<rho> k)" if "\<rho> \<noteq> Leaving" for \<rho>
    using that assms(4) by (auto simp: yet_def)
  moreover have "r \<in> yet g i (role_of g r) k" using assms by (simp add: yet_def)
  then have "int (card (yet g i (role_of g r) k - {r})) = int (card (yet g i (role_of g r) k)) - 1"
    using card_Suc_Diff1 [of "yet g i (role_of g r) k" r] by simp
  ultimately show ?thesis using assms(3) by (auto simp: called_def)
qed

lemma past_unserved:
  assumes c: "crew_state L i g k" and run: "running k = Some r" and "at_stage g \<noteq> Serving"
  shows "crew_state L i (past g r) k"
proof (rule crew_stateI)
  have "r \<notin> set (lst k Waiting_list)" by (rule running_notin [OF crew_ok(1) [OF c] run])
  then show "crew_waits L (past g r) i k" using crew_ok(8) [OF c] by (simp add: past_waits)
  show "crew_queue (past g r) i k" using crew_ok(9) [OF c] assms(3) by (cases "at_stage g") (simp_all add: crew_queue_def)
qed (use crew_ok [OF c] in simp_all)

lemma crew_named:
  assumes "crew_state L i g k" and "at_stage g = Serving"
  obtains q where "lst k Bq_registry = [q]" "bqueue_named QID k = Some q" "balance (queue_view k q) = called g i k"
    "v_cap (queue_view k q) = CAP"
  using crew_ok(9) [OF assms(1)] assms(2)
  by (auto simp: crew_queue_def bqueue_named_def simp del: bq_view_simps)

lemma crew_named_closing:
  assumes "crew_state L i g k" and "bqueue_named QID k = Some q"
  shows "lst k Bq_registry = [q]" "v_cap (queue_view k q) = CAP"
proof -
  have "q \<in> set (lst k Bq_registry)" by (rule bqueue_named_in [OF assms(2)])
  moreover have "length (lst k Bq_registry) \<le> 1" "\<forall>q \<in> set (lst k Bq_registry). v_cap (queue_view k q) = CAP"
    using crew_ok(9) [OF assms(1)] by (simp_all add: crew_queue_def del: bq_view_simps)
  ultimately show "lst k Bq_registry = [q]" "v_cap (queue_view k q) = CAP"
    by (cases "lst k Bq_registry"; simp del: bq_view_simps)+
qed

lemma refined_crew:
  assumes c: "crew_state L i g k" and run: "running k = Some r" and r: "r \<noteq> i" "role_of g r = Putting \<or> role_of g r = Getting"
    and ok': "kernel_ok k'" and b: "bq_refines q r (Q, eff) k k'" and q: "bqueue_named QID k = Some q"
    and views: "settings k' = settings k" "last_pid k' = last_pid k" "parents k' = parents k"
    and Q: "v_cap Q = v_cap (queue_view k q)" "balance Q = balance (queue_view k q) + (if role_of g r = Putting then 1 else -1)"
    and w: "waits_as L (past g r) i r (syscall_num (pcbs k r)) (syscall_args (pcbs k r))"
    and mem: "user_mem k' (addr_run L) = user_mem k (addr_run L)" "user_mem k' (addr_failed L) = user_mem k (addr_failed L)"
  shows "crew_state L i (past g r) k' \<and> running k' \<noteq> None"
proof -
  note ok = crew_ok(1) [OF c]
  have same: "in_use k' Pcb_buffer = in_use k Pcb_buffer" "lst k' Zombie_list = lst k Zombie_list"
    "lst k' Bq_registry = lst k Bq_registry" "queue_view k' q = Q" "bq_id (bqueues k' x) = bq_id (bqueues k x)"
    "set (lst k' Waiting_list) \<subseteq> insert r (set (lst k Waiting_list))" for x
    using b by (simp_all add: bq_refines_def del: bq_view_simps)
  then have alive: "alive k' = alive k" by (simp add: alive_def)
  have ra: "r \<in> alive k" by (rule running_alive [OF ok run])
  have new: "crew_state L i (past g r) k'"
  proof (rule crew_stateI)
    have "parent (pcbs k' x) = parent (pcbs k x)" for x using views(3) by (simp add: parents_def fun_eq_iff)
    then show "crew_family i k'"
      using crew_ok [OF c] ok' views(1) same(1) alive by (intro crew_family_frame [of i k k']) (auto simp: crew_family_def)
    show "crew_counts L (past g r) k'" using crew_ok(7) [OF c] mem views(2) by (simp add: crew_counts_def)
    have "r \<notin> set (lst k Waiting_list)" by (rule running_notin [OF ok run])
    then have "crew_waits L (past g r) i k" using crew_ok(8) [OF c] by (simp add: past_waits)
    then show "crew_waits L (past g r) i k'" by (rule crew_waits_frame [OF _ views(1)]) (use same(6) w in auto)
    have "crew_queue g i k" by (rule crew_ok(9) [OF c])
    then show "crew_queue (past g r) i k'"
      using crew_named_closing [OF c q] same(3-5) Q past_called [OF ra r(1) r(2) alive] alive ra r(1)
      by (cases "at_stage g") (auto simp: crew_queue_def simp del: bq_view_simps)
  qed
  moreover have "running k' \<noteq> None"
  proof
    assume idle: "running k' = None"
    then have "lst k' Ready_list = []"
      using b by (cases "lst k Ready_list") (auto simp: bq_refines_def bq_effect_def split: bq_outcome.splits)
    from crew_goes_on [OF new _ r(1) idle this] ra alive show False by simp
  qed
  ultimately show ?thesis by blast
qed

lemma balance_put:
  "v_cap (fst (bq_put r v Q)) = v_cap Q" "balance (fst (bq_put r v Q)) = balance Q + 1"
  by (auto simp: bq_put_def balance_def split: list.split)

lemma balance_get:
  "v_cap (fst (bq_get r a Q)) = v_cap Q" "balance (fst (bq_get r a Q)) = balance Q - 1"
  by (auto simp: bq_get_def balance_def split: list.split)

lemma unnamed_unserved:
  assumes "crew_state L i g k" and "bqueue_named QID k = None"
  shows "at_stage g \<noteq> Serving"
  using crew_named [OF assms(1)] assms(2) by force

lemma layout_apart: "layout_ok L \<Longrightarrow> a \<in> {addr_run L, addr_failed L, addr_ret L} \<Longrightarrow> b \<in> range (addr_cv L) \<Longrightarrow> a \<noteq> b"
  unfolding layout_ok_def by blast

text \<open>The addresses that no getter waits at, or that is not the one of the get, are left alone.\<close>

lemma put_writes_queue:
  assumes "bq_refines q r (fst (bq_put r v Q), snd (bq_put r v Q)) k k'" and "\<And>x a. (x, a) \<in> set (v_getters Q) \<Longrightarrow> b \<noteq> a"
  shows "user_mem k' b = user_mem k b"
proof (cases "v_getters Q")
  case Nil
  with assms(1) show ?thesis by (auto simp: bq_refines_def bq_effect_def bq_put_def write_user_def split: if_split_asm)
next
  case (Cons x xs)
  then have "b \<noteq> snd x" using assms(2) [of "fst x" "snd x"] by simp
  with assms(1) Cons show ?thesis
    by (cases x) (simp add: bq_refines_def bq_effect_def bq_put_def write_user_def)
qed

lemma get_writes_queue:
  assumes "bq_refines q r (fst (bq_get r a Q), snd (bq_get r a Q)) k k'" and "b \<noteq> a"
  shows "user_mem k' b = user_mem k b"
  using assms by (auto simp: bq_refines_def bq_effect_def bq_get_def write_user_def split: list.split_asm)

lemma put_crew:
  assumes c: "crew_state L i g k" and run: "running k = Some r" and r: "r \<noteq> i" "role_of g r = Putting" and L: "layout_ok L"
    and call: "syscall_num (pcbs k r) = DSOS_CALL_BQ_PUT" "syscall_args (pcbs k r) 0 = QID"
  shows "ok_with (internal_bq_put k) (\<lambda>k'. crew_state L i (past g r) k' \<and> running k' \<noteq> None)"
proof (cases "bqueue_named QID k")
  case None
  then have "internal_bq_put k = Inr (set_retvalue r DSOS_ERESOURCENOFD k)"
    using call(2) by (intro put_unknown [OF crew_ok(1) [OF c] run]) simp
  moreover have "crew_state L i (past g r) k" by (rule past_unserved [OF c run unnamed_unserved [OF c None]])
  ultimately show ?thesis using run crew_quiet(1) by simp
next
  case (Some q)
  note ok = crew_ok(1) [OF c]
  let ?step = "bq_put r (syscall_args (pcbs k r) 1) (queue_view k q)"
  have "ok_with (internal_bq_put k) (\<lambda>k'. kernel_ok k' \<and> bq_refines q r ?step k k')"
    by (rule put_refines [OF ok run call(1)]) (use Some call(2) crew_rooms [OF c] in simp_all)
  then obtain k' where k': "internal_bq_put k = Inr k'" "kernel_ok k'" "bq_refines q r (fst ?step, snd ?step) k k'"
    by (auto simp: ok_with_iff simp del: bq_view_simps)
  have "user_mem k' a = user_mem k a" if "a \<in> {addr_run L, addr_failed L}" for a
  proof (rule put_writes_queue [OF k'(3)])
    show "a \<noteq> b" if "(x, b) \<in> set (v_getters (queue_view k q))" for x b
      by (rule layout_apart [OF L _ crew_getter_variable [OF c that]]) (use \<open>a \<in> _\<close> in auto)
  qed
  then have "crew_state L i (past g r) k' \<and> running k' \<noteq> None"
    using settings.put [OF k'(1)] next_pid.put [OF k'(1)] parents.put [OF k'(1)] balance_put r call
    by (intro refined_crew [OF c run r(1) _ k'(2,3) Some]) (simp_all add: waits_as_def del: bq_view_simps)
  with k'(1) show ?thesis by simp
qed

lemma get_crew:
  assumes c: "crew_state L i g k" and run: "running k = Some r" and r: "r \<noteq> i" "role_of g r = Getting" and L: "layout_ok L"
    and call: "syscall_num (pcbs k r) = DSOS_CALL_BQ_GET" "syscall_args (pcbs k r) 0 = QID" "syscall_args (pcbs k r) 1 \<in> range (addr_cv L)"
  shows "ok_with (internal_bq_get k) (\<lambda>k'. crew_state L i (past g r) k' \<and> running k' \<noteq> None)"
proof (cases "bqueue_named QID k")
  case None
  then have "internal_bq_get k = Inr (set_retvalue r DSOS_ERESOURCENOFD k)"
    using call(2) by (intro get_unknown [OF crew_ok(1) [OF c] run]) simp
  moreover have "crew_state L i (past g r) k" by (rule past_unserved [OF c run unnamed_unserved [OF c None]])
  ultimately show ?thesis using run crew_quiet(1) by simp
next
  case (Some q)
  note ok = crew_ok(1) [OF c]
  let ?step = "bq_get r (syscall_args (pcbs k r) 1) (queue_view k q)"
  have "ok_with (internal_bq_get k) (\<lambda>k'. kernel_ok k' \<and> bq_refines q r ?step k k')"
    by (rule get_refines [OF ok run call(1)]) (use Some call(2) crew_rooms [OF c] in simp_all)
  then obtain k' where k': "internal_bq_get k = Inr k'" "kernel_ok k'" "bq_refines q r (fst ?step, snd ?step) k k'"
    by (auto simp: ok_with_iff simp del: bq_view_simps)
  have "user_mem k' a = user_mem k a" if "a \<in> {addr_run L, addr_failed L}" for a
    by (rule get_writes_queue [OF k'(3)], rule layout_apart [OF L _ call(3)]) (use that in auto)
  then have "crew_state L i (past g r) k' \<and> running k' \<noteq> None"
    using settings.get [OF k'(1)] next_pid.get [OF k'(1)] parents.get [OF k'(1)] balance_get r call
    by (intro refined_crew [OF c run r(1) _ k'(2,3) Some]) (simp_all add: waits_as_def del: bq_view_simps)
  with k'(1) show ?thesis by simp
qed

lemma dump_crew:
  assumes c: "crew_state L i g k" and run: "running k = Some r"
  shows "ok_with (internal_bq_dump k) (\<lambda>k'. crew_state L i g k' \<and> running k' \<noteq> None)"
  using run crew_quiet [OF c] crew_quiet(1) [OF crew_quiet(2) [OF c]]
  by (simp add: bq_dump_eq [OF crew_ok(1) [OF c] run] split: option.split)

text \<open>A worker that exits: the leader is ready, or has waited for it.\<close>

lemma exit_wakes_leader:
  assumes c: "crew_state L i g k" and run: "running k = Some r" and r: "r \<noteq> i"
  shows "woken_parent r k = (if i \<in> set (lst k Waiting_list) then [i] else [])"
proof -
  note S = kernel_okD(2) [OF crew_ok(1) [OF c]]
  have par: "parent (pcbs k r) = Some i" by (rule crew_parent [OF c running_alive [OF crew_ok(1) [OF c] run] r])
  show ?thesis
  proof (cases "i \<in> set (lst k Waiting_list)")
    case True
    then have "status (pcbs k i) = Waiting" using S by (simp add: sched_ok_def)
    moreover have "syscall_num (pcbs k i) = DSOS_CALL_WAIT" "syscall_args (pcbs k i) 0 = 0"
      using True crew_ok(8) [OF c] by (auto simp: crew_waits_def waits_as_def)
    ultimately show ?thesis using True by (simp add: woken_parent_def par to_int_id)
  next
    case False
    then have "i \<in> set (lst k Ready_list)"
      using crew_ok(5) [OF c] S run r by (auto simp: sched_ok_def alive_def)
    then have "status (pcbs k i) \<noteq> Waiting" using S by (auto simp: sched_ok_def)
    with False show ?thesis by (simp add: woken_parent_def par Let_def)
  qed
qed

text \<open>No PCB comes into use when a process exits: the lists of the scheduler hold what they held.\<close>

lemma exited_in_use:
  assumes ok: "kernel_ok k" and run: "running k = Some r" and ok': "kernel_ok k'" and x: "exited r k k'"
    and woken: "set (woken_parent r k) \<subseteq> in_use k Pcb_buffer"
  shows "in_use k' Pcb_buffer \<subseteq> in_use k Pcb_buffer"
proof
  fix y assume y: "y \<in> in_use k' Pcb_buffer"
  let ?next = "lst k Ready_list @ woken_parent r k"
  have "set (lst k h) \<subseteq> in_use k Pcb_buffer" if "h \<in> {Ready_list, Waiting_list, Zombie_list}" for h
    using kernel_okD(2) [OF ok] that by (auto simp: sched_ok_def)
  then have old: "set ?next \<subseteq> in_use k Pcb_buffer" "set (lst k Waiting_list) \<subseteq> in_use k Pcb_buffer"
    "set (lst k Zombie_list) \<subseteq> in_use k Pcb_buffer" using woken by auto
  have new: "running k' = hd_opt ?next" "lst k' Ready_list = tl ?next" "lst k' Zombie_list = lst k Zombie_list @ [r]"
    "set (lst k' Waiting_list) \<subseteq> set (lst k Waiting_list)"
    using x by (auto simp: exited_def)
  have "y \<in> set ?next" if "running k' = Some y \<or> y \<in> set (lst k' Ready_list)"
    using that new(1,2) by (cases ?next) auto
  moreover have "running k' = Some y \<or> y \<in> set (lst k' Ready_list) \<or> y \<in> set (lst k' Waiting_list) \<or> y \<in> set (lst k' Zombie_list)"
    using kernel_okD(2) [OF ok'] y unfolding sched_ok_def by blast
  ultimately show "y \<in> in_use k Pcb_buffer" using old new(3,4) running_loose [OF ok run] by auto
qed

lemma exit_crew:
  assumes c: "crew_state L i g k" and run: "running k = Some r" and r: "r \<noteq> i" "role_of g r = Leaving"
  shows "ok_with (internal_exit k) (\<lambda>k'. crew_state L i g k' \<and> running k' \<noteq> None)"
proof -
  note ok = crew_ok(1) [OF c]
  note S = kernel_okD [OF ok]
  have ra: "r \<in> alive k" by (rule running_alive [OF ok run])
  have woken: "woken_parent r k = (if i \<in> set (lst k Waiting_list) then [i] else [])" by (rule exit_wakes_leader [OF c run r(1)])
  have "ok_with (internal_exit k) (\<lambda>k'. kernel_ok k' \<and> exited r k k')"
    by (rule exit_ok [OF ok run]) (use crew_ok(4) [OF c] r(1) in simp)
  then obtain k' where k': "internal_exit k = Inr k'" "kernel_ok k'" "exited r k k'" by (auto simp: ok_with_iff)
  have d: "same_queues k k'" "alive k' = alive k - {r}" "user_mem k' = user_mem k"
    using exit_dies [OF ok run] k'(1) by (simp_all add: dies_def)
  have x: "\<And>y. parent (pcbs k' y) = Some i \<or> parent (pcbs k' y) = parent (pcbs k y)"
    "running k' = hd_opt (lst k Ready_list @ woken_parent r k)" "set (lst k' Waiting_list) \<subseteq> set (lst k Waiting_list)"
    using k'(3) crew_ok(4) [OF c] by (auto simp: exited_def)
  have "set (woken_parent r k) \<subseteq> in_use k Pcb_buffer" using woken crew_ok(5) [OF c] by (auto simp: alive_def)
  then have in_use: "y \<in> in_use k Pcb_buffer" if "y \<in> in_use k' Pcb_buffer" for y
    using exited_in_use [OF ok run k'(2,3)] that by blast
  note views = settings.exit_call [OF k'(1)] next_pid.exit_call [OF k'(1)]
  have "i \<in> set (lst k Ready_list) \<or> i \<in> set (lst k Waiting_list)"
    using crew_ok(5) [OF c] S(2) run r(1) by (auto simp: sched_ok_def alive_def)
  then have "lst k Ready_list @ woken_parent r k \<noteq> []" using woken by auto
  then have runs: "running k' \<noteq> None" using x(2) by (cases "lst k Ready_list @ woken_parent r k") simp_all
  have "crew_state L i g k'"
  proof (rule crew_stateI)
    show "crew_family i k'"
      using crew_ok [OF c] k'(2) views(1) d(2) r(1) x(1) in_use
      by (intro crew_family_frame [of i k k']) (auto simp: crew_family_def, metis)
    show "crew_counts L g k'" using crew_ok(7) [OF c] d(3) views(2) by (simp add: crew_counts_def)
    show "crew_waits L g i k'" by (rule crew_waits_frame [OF crew_ok(8) [OF c] views(1)]) (use x(3) in auto)
    have "yet g i \<rho> k' = yet g i \<rho> k" if "\<rho> \<noteq> Leaving" for \<rho> using that d(2) r(2) by (auto simp: yet_def)
    then have "called g i k' = called g i k" by (simp add: called_def)
    moreover have "at_stage g \<noteq> Opening" using crew_ok(9) [OF c] ra r(1) by (auto simp: crew_queue_def)
    ultimately show "crew_queue g i k'"
      using crew_ok(9) [OF c] d(1)
      by (cases "at_stage g") (simp_all add: crew_queue_def same_queues_def del: bq_view_simps)
  qed
  with k'(1) runs show ?thesis by simp
qed

end
