(* ===== verification/Crew_Leader.thy ===== *)
theory Crew_Leader
  imports Crew_Calls
begin

text \<open>
  The system calls of the leader of the concurrent test, and the ticks of the timer: each keeps the state of the team.
\<close>

section \<open>The queue of the test\<close>

lemma create_crew:
  assumes c: "crew_state L i g k" and run: "running k = Some i" and st: "at_stage g = Opening"
    and call: "syscall_args (pcbs k i) 0 = QID" "syscall_args (pcbs k i) 1 = CAP"
  shows "ok_with (internal_bq_create k) (\<lambda>k'. crew_state L i (g\<lparr>at_stage := Serving\<rparr>) k' \<and> running k' = Some i \<and>
    syscall_retvalue (pcbs k' i) = 0)"
proof -
  note ok = crew_ok(1) [OF c] and Q = crew_ok(9) [OF c]
  have none: "lst k Bq_registry = []" "alive k = {i}" "more_p g = NPROD_PROCS" "more_c g = NCONS_PROCS"
    using Q st by (simp_all add: crew_queue_def)
  have args: "arg_int k i 0 = QID" "arg_int k i 1 = 3" using call by (simp_all add: CAP_def to_int_id)
  have new: "bqueue_named QID k = None" using none(1) by (rule no_queue_named)
  have "ok_with (internal_bq_create k) (\<lambda>k'. kernel_ok k' \<and> created i (arg_int k i 0) (arg_int k i 1) k k')"
    by (rule bq_create_ok [OF ok run]) (use new args crew_rooms(4) [OF c none(1)] in simp_all)
  then obtain k' where k': "internal_bq_create k = Inr k'" "kernel_ok k'" "created i QID 3 k k'"
    by (auto simp: ok_with_iff args simp del: One_nat_def)
  obtain q where q: "lst k' Bq_registry = [q]" "bqueue_named QID k' = Some q" "queue_view k' q = bq_new 3"
    using created_queue [OF ok new k'(3)] none(1) by auto
  have same: "alive k' = alive k" "user_mem k' = user_mem k" "lst k' Waiting_list = lst k Waiting_list" "running k' = Some i"
    "syscall_retvalue (pcbs k' i) = 0" "in_use k' Pcb_buffer = in_use k Pcb_buffer"
    using k'(3) run by (auto simp: effects alive_def)
  note views = settings.create [OF k'(1)] next_pid.create [OF k'(1)] parents.create [OF k'(1)]
  have "crew_state L i (g\<lparr>at_stage := Serving\<rparr>) k'"
  proof (rule crew_stateI)
    have "parent (pcbs k' x) = parent (pcbs k x)" for x using views(3) by (simp add: parents_def fun_eq_iff)
    then show "crew_family i k'"
      using crew_ok [OF c] k'(2) views(1) same by (intro crew_family_frame [of i k k']) (auto simp: crew_family_def)
    show "crew_counts L (g\<lparr>at_stage := Serving\<rparr>) k'" using crew_ok(7) [OF c] same views(2) by (simp add: crew_counts_def)
    have "lst k Waiting_list = []"
    proof (cases "lst k Waiting_list")
      case (Cons x xs)
      then have "x \<in> alive k"
        using kernel_okD(1,2) [OF ok] struct_disjoint [of "lists k" "pools k" x Waiting_list Zombie_list]
        by (auto simp: alive_def sched_ok_def)
      then show ?thesis using none(2) running_notin [OF ok run, of Waiting_list] Cons by simp
    qed
    then show "crew_waits L (g\<lparr>at_stage := Serving\<rparr>) i k'" using same by (simp add: crew_waits_def)
    have "bq_id (bqueues k' q) = QID" using q(2) find_Some_iff_first unfolding bqueue_named_def by fastforce
    moreover have "yet (g\<lparr>at_stage := Serving\<rparr>) i \<rho> k' = {}" for \<rho> using same none by (simp add: yet_def)
    ultimately show "crew_queue (g\<lparr>at_stage := Serving\<rparr>) i k'"
      using q none by (simp add: crew_queue_def called_def balance_def bq_new_def CAP_def del: bq_view_simps)
  qed
  with k'(1) same show ?thesis by simp
qed

lemma closing_crew: "crew_state L i g k \<Longrightarrow> i \<notin> set (lst k Waiting_list) \<Longrightarrow> crew_state L i (g\<lparr>at_stage := Closing\<rparr>) k"
  by (auto simp: crew_state_def crew_counts_def crew_waits_def waits_as_def crew_queue_def split: if_split_asm)

lemma delete_crew:
  assumes c: "crew_state L i g k" and run: "running k = Some i" and st: "at_stage g = Serving"
    and call: "syscall_args (pcbs k i) 0 = QID"
  shows "ok_with (internal_bq_delete k) (\<lambda>k'. crew_state L i (g\<lparr>at_stage := Closing\<rparr>) k' \<and> running k' = Some i)"
proof -
  note ok = crew_ok(1) [OF c]
  obtain q where q: "lst k Bq_registry = [q]" "bqueue_named QID k = Some q" using crew_named [OF c st] by metis
  have closing: "crew_state L i (g\<lparr>at_stage := Closing\<rparr>) k" by (rule closing_crew [OF c running_notin [OF ok run]])
  show ?thesis
  proof (cases "lst k (Wait_getters q) = [] \<and> lst k (Wait_putters q) = []")
    case False
    then show ?thesis
      using bq_delete_refused(2) [OF ok run, of q] q(2) call crew_quiet(1) [OF closing] run by auto
  next
    case True
    then have "ok_with (internal_bq_delete k) (\<lambda>k'. kernel_ok k' \<and> deleted q i k k')"
      using q(2) call by (intro bq_delete_ok [OF ok run]) simp_all
    then obtain k' where k': "internal_bq_delete k = Inr k'" "kernel_ok k'" "deleted q i k k'" by (auto simp: ok_with_iff)
    have same: "alive k' = alive k" "user_mem k' = user_mem k" "lst k' Waiting_list = lst k Waiting_list" "running k' = Some i"
      "lst k' Bq_registry = []" "in_use k' Pcb_buffer = in_use k Pcb_buffer"
      using k'(3) q(1) by (auto simp: deleted_def alive_def)
    note views = settings.delete [OF k'(1)] next_pid.delete [OF k'(1)] parents.delete [OF k'(1)]
    have "crew_state L i (g\<lparr>at_stage := Closing\<rparr>) k'"
    proof (rule crew_stateI)
      have "parent (pcbs k' x) = parent (pcbs k x)" for x using views(3) by (simp add: parents_def fun_eq_iff)
      then show "crew_family i k'"
        using crew_ok [OF c] k'(2) views(1) same by (intro crew_family_frame [of i k k']) (auto simp: crew_family_def)
      show "crew_counts L (g\<lparr>at_stage := Closing\<rparr>) k'" using crew_ok(7) [OF c] same views(2) by (simp add: crew_counts_def)
      show "crew_waits L (g\<lparr>at_stage := Closing\<rparr>) i k'"
        by (rule crew_waits_frame [OF crew_ok(8) [OF closing] views(1)]) (simp add: same)
      show "crew_queue (g\<lparr>at_stage := Closing\<rparr>) i k'" using same by (simp add: crew_queue_def)
    qed
    with k'(1) same show ?thesis by simp
  qed
qed

section \<open>Spawning and waiting\<close>

text \<open>A new worker with the role \<open>\<rho>\<close>.\<close>

definition hired :: "crew \<Rightarrow> ptr \<Rightarrow> role \<Rightarrow> crew" where
  "hired g p \<rho> = g\<lparr>more_p := (if \<rho> = Putting then more_p g - 1 else more_p g),
     more_c := (if \<rho> = Getting then more_c g - 1 else more_c g), role_of := (role_of g)(p := \<rho>)\<rparr>"

lemma hired_simps [simp]:
  "at_stage (hired g p \<rho>) = at_stage g" "runs (hired g p \<rho>) = runs g" "fails (hired g p \<rho>) = fails g" "todo (hired g p \<rho>) = todo g"
  "role_of (hired g p \<rho>) x = (if x = p then \<rho> else role_of g x)"
  "more_p (hired g p \<rho>) = (if \<rho> = Putting then more_p g - 1 else more_p g)"
  "more_c (hired g p \<rho>) = (if \<rho> = Getting then more_c g - 1 else more_c g)"
  by (simp_all add: hired_def)

lemma hired_called:
  assumes "\<rho> = Putting \<and> 0 < more_p g \<or> \<rho> = Getting \<and> 0 < more_c g" and "alive k' = insert p (alive k)" and "p \<notin> alive k" and "p \<noteq> i"
  shows "called (hired g p \<rho>) i k' = called g i k"
proof -
  have "yet (hired g p \<rho>) i \<rho>' k' = (if \<rho>' = \<rho> then insert p (yet g i \<rho>' k) else yet g i \<rho>' k)" for \<rho>'
    using assms(2-4) by (auto simp: yet_def)
  moreover have "p \<notin> yet g i \<rho> k" using assms(3) by (simp add: yet_def)
  ultimately show ?thesis using assms(1) by (auto simp: called_def)
qed

lemma spawn_crew:
  assumes c: "crew_state L i g k" and run: "running k = Some i" and st: "at_stage g = Serving"
    and \<rho>: "\<rho> = Putting \<and> 0 < more_p g \<or> \<rho> = Getting \<and> 0 < more_c g"
  shows "ok_with (internal_spawn k) (\<lambda>k'. running k' = Some i \<and> (\<exists>p. p \<notin> alive k \<and> alive k' = insert p (alive k) \<and>
    crew_state L i (hired g p \<rho>) k'))"
proof -
  note ok = crew_ok(1) [OF c]
  have "last_pid k < 2 ^ 31 - 1" using crew_ok(7) [OF c] by (simp add: crew_counts_def NPROD_PROCS_def NCONS_PROCS_def)
  from spawn_ok [OF ok run crew_rooms(1,2) [OF c] this] obtain k' p where k': "internal_spawn k = Inr k'" "kernel_ok k'"
    "running k' = Some i" "p \<notin> in_use k Pcb_buffer" "in_use k' Pcb_buffer = insert p (in_use k Pcb_buffer)"
    "parent (pcbs k' p) = Some i" "last_pid k' = last_pid k + 1" "lst k' Waiting_list = lst k Waiting_list"
    "\<And>x. x \<noteq> p \<Longrightarrow> parent (pcbs k' x) = parent (pcbs k x)" "p \<in> set (lst k' Ready_list)"
    by (auto simp: ok_with_iff)
  obtain p' where p': "births p' k k'" using spawn_births [OF ok run] k'(1) by auto
  have "p \<notin> set (lst k' Zombie_list)" using struct_disjoint [OF kernel_okD(1) [OF k'(2)] k'(10)] by blast
  then have "p \<in> alive k'" "p \<notin> alive k" using k'(4,5) by (simp_all add: alive_def)
  with p' have p: "alive k' = insert p (alive k)" "p \<notin> alive k" "same_queues k k'" "user_mem k' = user_mem k"
    by (auto simp: births_def)
  have "p \<noteq> i" using crew_ok(5) [OF c] p(2) by blast
  note views = settings.spawn [OF k'(1)]
  have "crew_state L i (hired g p \<rho>) k'"
  proof (rule crew_stateI)
    show "crew_family i k'"
      using crew_ok [OF c] k' views p by (intro crew_family_frame [of i k k']) (auto simp: crew_family_def, metis)
    show "crew_counts L (hired g p \<rho>) k'" using crew_ok(7) [OF c] p k'(7) \<rho> by (auto simp: crew_counts_def)
    have "p \<notin> set (lst k Waiting_list)" using k'(4) kernel_okD(2) [OF ok] by (auto simp: sched_ok_def)
    then have "waits_as L (hired g p \<rho>) i x n args = waits_as L g i x n args" if "x \<in> set (lst k Waiting_list)" for x n args
      using that running_notin [OF ok run, of Waiting_list] by (auto simp: waits_as_def)
    then have "crew_waits L (hired g p \<rho>) i k" using crew_ok(8) [OF c] by (simp add: crew_waits_def)
    then show "crew_waits L (hired g p \<rho>) i k'" by (rule crew_waits_frame [OF _ views]) (simp add: k'(8))
    show "crew_queue (hired g p \<rho>) i k'"
      using crew_ok(9) [OF c] p(3) hired_called [OF \<rho> p(1,2) \<open>p \<noteq> i\<close>] st
      by (simp add: crew_queue_def same_queues_def del: bq_view_simps)
  qed
  with k'(1,3) p show ?thesis by auto
qed

text \<open>A wait keeps the state of the team whatever it finds.\<close>

lemma wait_keeps_crew:
  assumes c: "crew_state L i g k" and run: "running k = Some i" and st: "at_stage g = Serving" "more_p g = 0" "more_c g = 0"
    and call: "syscall_num (pcbs k i) = DSOS_CALL_WAIT" "syscall_args (pcbs k i) 0 = 0" "syscall_args (pcbs k i) 1 = a"
    and a: "a \<noteq> addr_run L" "a \<noteq> addr_failed L"
    and k': "internal_wait k = Inr k'" "kernel_ok k'" "in_use k' Pcb_buffer \<subseteq> in_use k Pcb_buffer"
      "set (lst k' Waiting_list) \<subseteq> insert i (set (lst k Waiting_list))"
  shows "crew_state L i g k'"
proof (rule crew_frame [OF c k'(2) settings.wait next_pid.wait parents.wait _ _ k'(3)])
  have "touches a k k'" using wait_touches [OF crew_ok(1) [OF c] run] k'(1) call(3) by simp
  then show "same_queues k k'" "alive k' = alive k" "user_mem k' (addr_run L) = user_mem k (addr_run L)"
    "user_mem k' (addr_failed L) = user_mem k (addr_failed L)" using a by (auto simp: touches_def same_processes_def)
  show "x \<in> set (lst k Waiting_list) \<or> waits_as L g i x (syscall_num (pcbs k x)) (syscall_args (pcbs k x))"
    if "x \<in> set (lst k' Waiting_list)" for x
    using that k'(4) st call by (auto simp: waits_as_def)
qed (rule k'(1))+

text \<open>A child that is not a zombie yet, when every worker has been spawned, leaves somebody ready.\<close>

lemma child_leaves_ready:
  assumes c: "crew_state L i g k" and run: "running k = Some i" and st: "at_stage g = Serving" "more_p g = 0" "more_c g = 0"
    and any: "syscall_args (pcbs k i) 0 = 0" and none: "awaited i k = None" and w: "lst k (Children i) = w # ws"
  shows "lst k Ready_list \<noteq> []"
proof
  note S = kernel_okD [OF crew_ok(1) [OF c]]
  let ?y = "pcb_ptrs k w"
  have y: "?y \<in> in_use k Pcb_buffer" "parent (pcbs k ?y) = Some i"
    using S(3) list.set_intros(1) [of w ws] unfolding family_ok_def w [symmetric] by blast+
  then have "?y \<notin> set (lst k Zombie_list)" using none any by (auto simp: awaited_def find_None_iff to_int_id)
  then have ya: "?y \<in> alive k" using y(1) by (simp add: alive_def)
  have "?y \<noteq> i" using S(3) crew_ok(4) [OF c] y(2) by (auto simp: family_ok_def)
  assume "lst k Ready_list = []"
  then have "x \<in> set (lst k Waiting_list)" if "x \<in> alive k" "x \<noteq> i" for x
    using that S(2) run by (auto simp: sched_ok_def alive_def)
  from crew_not_stuck [OF c st this ya \<open>?y \<noteq> i\<close>] show False .
qed

lemma wait_crew:
  assumes c: "crew_state L i g k" and run: "running k = Some i" and st: "at_stage g = Serving" "more_p g = 0" "more_c g = 0"
    and call: "syscall_num (pcbs k i) = DSOS_CALL_WAIT" "syscall_args (pcbs k i) 0 = 0" "syscall_args (pcbs k i) 1 = a"
    and a: "a \<noteq> addr_run L" "a \<noteq> addr_failed L"
  shows "ok_with (internal_wait k) (\<lambda>k'. crew_state L i g k' \<and> running k' \<noteq> None)"
proof -
  note ok = crew_ok(1) [OF c]
  note S = kernel_okD [OF ok]
  note keeps = wait_keeps_crew [OF c run st call a]
  show ?thesis
  proof (cases "lst k (Children i)")
    case Nil
    with wait_no_child [OF ok run] show ?thesis using crew_quiet(1) [OF c] run by simp
  next
    case (Cons w ws)
    show ?thesis
    proof (cases "awaited i k")
      case (Some z)
      from wait_reaps [OF ok run Some] obtain k' where k': "internal_wait k = Inr k'" "kernel_ok k'" "running k' = Some i"
        "in_use k' Pcb_buffer = in_use k Pcb_buffer - {z}" "lst k' Waiting_list = lst k Waiting_list"
        by (auto simp: ok_with_iff)
      have "crew_state L i g k'" by (rule keeps [OF k'(1,2)]) (auto simp: k'(4,5))
      with k' show ?thesis by simp
    next
      case None
      obtain p ps where p: "lst k Ready_list = p # ps"
        using child_leaves_ready [OF c run st call(2) None Cons] by (cases "lst k Ready_list") auto
      from wait_blocks [OF ok run _ None p call(1)] Cons obtain k' where k': "internal_wait k = Inr k'" "kernel_ok k'"
        "running k' = Some p" "contents (lists k') = (lst k)(Ready_list := ps, Waiting_list := lst k Waiting_list @ [i])"
        by (auto simp: ok_with_iff)
      have "alive k' = alive k" using wait_touches [OF ok run] k'(1) by (simp add: touches_def same_processes_def)
      then have "in_use k' Pcb_buffer \<subseteq> in_use k Pcb_buffer" using k'(4) S(2) by (auto simp: alive_def sched_ok_def)
      from keeps [OF k'(1,2) this] k'(4) have "crew_state L i g k'" by simp
      with k' show ?thesis by simp
    qed
  qed
qed

section \<open>The timer\<close>

lemma no_log_out: "log_file k = None \<Longrightarrow> log_out s k = k"
  by (simp add: log_out_def)

lemma schedule_same:
  assumes ok: "kernel_ok k" and run: "running k \<noteq> None"
  shows "ok_with (internal_schedule k) (\<lambda>k'. lst k' Waiting_list = lst k Waiting_list \<and> pools k' = pools k \<and> running k' \<noteq> None)"
  by (rule schedule_rule [OF kernel_okD(1) [OF ok] running_loose [OF ok]]) (use run in simp_all)

text \<open>A tick when there are no timers and no log, up to the transfer of control.\<close>

lemma timeless_tick:
  assumes ok: "kernel_ok k" and run: "running k = Some r" and none: "lst k Timer_list = []" and quiet: "log_file k = None"
  shows "timerHandler k = Inl Signed_overflow \<or> (\<exists>k' r'. timerHandler k = Inr (To_process r', k') \<and> running k' = Some r' \<and>
    settings k' = settings k \<and> last_pid k' = last_pid k \<and> parents k' = parents k \<and> pools k' = pools k \<and>
    lst k' Waiting_list = lst k Waiting_list)"
proof (cases "- (2 ^ 31) \<le> disastrOS_time k + 1 \<and> disastrOS_time k + 1 < 2 ^ 31")
  case False
  then show ?thesis by (auto simp: timerHandler_def timerInterrupt_def Let_def run add_int_def)
next
  case True
  let ?k = "(saved k)\<lparr>disastrOS_time := disastrOS_time k + 1\<rparr>"
  have ok': "kernel_ok ?k" and run': "running ?k = Some r" using saved_simps(1) [OF ok] run by (simp_all add: saved_def)
  have same: "settings ?k = settings k" "parents ?k = parents k" "last_pid ?k = last_pid k" "lists ?k = lists k" "pools ?k = pools k"
    "log_file (saved k) = None" "disastrOS_time (saved k) = disastrOS_time k"
    using quiet by (simp_all add: saved_def run settings_def parents_def upd_pcb_at fun_eq_iff)
  have "list_first Timer_list ?k = None"
    using list_first_lst [OF kernel_okD(1) [OF ok'], of Timer_list] none same(4) by simp
  then have wake: "wake_all_expired ?k = Inr ?k"
    unfolding wake_all_expired_def by (intro c_while_stop) (simp add: TimerList_current_def)
  obtain k' where k': "timer_dispatch ?k = Inr k'" "settings k' = settings k" "last_pid k' = last_pid k" "parents k' = parents k"
    "pools k' = pools k" "lst k' Waiting_list = lst k Waiting_list" "running k' \<noteq> None"
  proof (cases "list_first Ready_list ?k = None")
    case True
    then show thesis using that [of ?k] run' same by (simp add: timer_dispatch_def)
  next
    case False
    then have eq: "timer_dispatch ?k = internal_schedule ?k" using run' by (simp add: timer_dispatch_def)
    from schedule_same [OF ok'] run' obtain k' where k': "internal_schedule ?k = Inr k'" "lst k' Waiting_list = lst ?k Waiting_list"
      "pools k' = pools ?k" "running k' \<noteq> None" by (auto simp: ok_with_iff)
    show thesis
      using settings.schedule [OF k'(1)] next_pid.schedule [OF k'(1)] parents.schedule [OF k'(1)] k' same eq
      by (intro that [of k']) simp_all
  qed
  then have "log_file k' = None" using quiet by (simp add: settings_def)
  have "timerHandler k = timerInterrupt (saved k)" by (simp add: timerHandler_def saved_def)
  then have "timerHandler k = Inr (case running k' of Some r \<Rightarrow> (To_process r, k') | None \<Rightarrow> (To_main, k'))"
    using k'(1) wake True same \<open>log_file k' = None\<close>
    by (simp add: timerInterrupt_def Let_def add_int_def no_log_out split: option.split)
  with k'(2-7) show ?thesis by (cases "running k'") auto
qed

lemma tick_crew:
  assumes c: "crew_state L i g k" and run: "running k = Some r"
  shows "timerHandler k = Inl Signed_overflow \<or> (\<exists>k' r'. timerHandler k = Inr (To_process r', k') \<and> running k' = Some r' \<and>
    crew_state L i g k')"
proof -
  note ok = crew_ok(1) [OF c]
  have "blocked DSOS_CALL_SLEEP k = {}"
    using crew_ok(8) [OF c] by (auto simp: blocked_def crew_waits_def waits_as_def dsos_consts split: if_split_asm)
  then have "lst k Timer_list = []" using kernel_okD(5) [OF ok] by (cases "lst k Timer_list") (auto simp: timers_ok_def)
  from timeless_tick [OF ok run this crew_ok(2) [OF c]] show ?thesis
  proof (elim disjE exE conjE)
    fix k' r'
    assume t: "timerHandler k = Inr (To_process r', k')" "running k' = Some r'" "settings k' = settings k" "last_pid k' = last_pid k"
      "parents k' = parents k" "pools k' = pools k" "lst k' Waiting_list = lst k Waiting_list"
    have ok': "kernel_ok k'" using handler_tick_keeps [OF ok] t(1) by simp
    have "untouched (saved k) k'" using handler_tick_untouched [OF ok] t(1) by simp
    then have same: "same_queues k k'" "alive k' = alive k" "user_mem k' = user_mem k"
      using same_queues_trans [OF saved_simps(2)] by (auto simp: untouched_def same_processes_def)
    have "crew_state L i g k'"
      by (rule crew_frame [OF c ok' t(3-5) same(1,2)]) (simp_all add: same t(6,7))
    with t show ?thesis by blast
  qed simp
qed

end
