(* ===== verification/Crew_Steps.thy ===== *)
theory Crew_Steps
  imports Crew_Leader
begin

text \<open>
  The steps of the concurrent test: every action of the team succeeds and brings its end nearer, in whatever order the
  processes run.
\<close>

section \<open>The team at work\<close>

text \<open>What the process \<open>x\<close> is still going to do, and the processes that are switched off.\<close>

definition task :: "layout \<Rightarrow> ptr \<Rightarrow> crew \<Rightarrow> ptr \<Rightarrow> program \<Rightarrow> bool" where
  "task L i g x p \<longleftrightarrow>
     (if x = i then leader L (at_stage g) (more_p g) (more_c g) (runs g) (fails g) (todo g i) p
      else member L x (role_of g x) (todo g x) p)"

definition parked :: "layout \<Rightarrow> ptr \<Rightarrow> crew \<Rightarrow> (ptr \<Rightarrow> suspended) \<Rightarrow> kernel \<Rightarrow> ptr \<Rightarrow> bool" where
  "parked L i g sus k x \<longleftrightarrow>
     (case cpu_state (pcbs k x) of
        Ctx_unset \<Rightarrow> False
      | Ctx_entry f a \<Rightarrow> task L i g x (bq_code L f a x)
      | Ctx_saved \<Rightarrow> \<forall>v. task L i g x (go_on (sus x) v))"

definition at_work :: "layout \<Rightarrow> ptr \<Rightarrow> crew \<Rightarrow> world \<Rightarrow> bool" where
  "at_work L i g w \<longleftrightarrow> (\<exists>k r. mach w = (In_process, k) \<and> crew_state L i g k \<and> running k = Some r \<and> task L i g r (now w) \<and>
     (\<forall>x \<in> alive k. x \<noteq> r \<longrightarrow> parked L i g (suspended w) k x))"

text \<open>The actions that are left; and the test is over, with its result.\<close>

definition load :: "crew \<Rightarrow> kernel \<Rightarrow> nat" where
  "load g k = (\<Sum>x \<in> alive k. todo g x)"

definition all_done :: "layout \<Rightarrow> kernel \<Rightarrow> bool" where
  "all_done L k \<longleftrightarrow> shutdown_now k \<noteq> 0 \<and> user_mem k (addr_run L) = 11 \<and> user_mem k (addr_failed L) \<in> {0, 1}"

definition progress :: "layout \<Rightarrow> ptr \<Rightarrow> nat \<Rightarrow> world \<Rightarrow> bool" where
  "progress L i n w \<longleftrightarrow> fst (mach w) = In_main \<and> all_done L (snd (mach w)) \<or>
     (\<exists>g. at_work L i g w \<and> load g (snd (mach w)) < n)"

lemma parked_resumed:
  "parked L i g sus k x \<Longrightarrow> cpu_state (pcbs k x) \<noteq> Ctx_unset \<and> task L i g x (resumed (bq_code L) sus k x)"
  by (auto simp: parked_def resumed_def split: machine_context.splits)

lemma arrive_at_work:
  assumes "crew_state L i g k" and "running k = Some r" and "\<And>x. x \<in> alive k \<Longrightarrow> parked L i g sus k x"
  shows "at_work L i g (arrive (bq_code L) sus (To_process r) k)"
  using assms parked_resumed [OF assms(3)] running_alive [OF crew_ok(1) [OF assms(1)] assms(2)]
  by (auto simp: at_work_def arrive_def)

text \<open>The tasks of the processes that a change of the team does not concern.\<close>

definition same_but :: "ptr \<Rightarrow> ptr set \<Rightarrow> crew \<Rightarrow> crew \<Rightarrow> bool" where
  "same_but i A g g' \<longleftrightarrow> (\<forall>x. x \<notin> A \<longrightarrow> role_of g' x = role_of g x \<and> todo g' x = todo g x) \<and>
     (i \<notin> A \<longrightarrow> at_stage g' = at_stage g \<and> more_p g' = more_p g \<and> more_c g' = more_c g \<and> runs g' = runs g \<and> fails g' = fails g)"

lemma same_task: "same_but i A g g' \<Longrightarrow> x \<notin> A \<Longrightarrow> task L i g' x p = task L i g x p"
  by (cases "x = i") (simp_all add: same_but_def task_def)

lemma same_parked:
  assumes "same_but i A g g'" and "x \<notin> A" and "cpu_state (pcbs k' x) = cpu_state (pcbs k x)" and "sus' x = sus x"
  shows "parked L i g' sus' k' x = parked L i g sus k x"
  using assms by (simp add: parked_def same_task cong: machine_context.case_cong)

lemma less_load:
  assumes "same_but i {r} g g'" and "alive k' \<subseteq> alive k" and "r \<in> alive k" and "todo g' r < todo g r"
  shows "load g' k' < load g k"
proof -
  have "load g' k' \<le> (\<Sum>x \<in> alive k. todo g' x)" unfolding load_def by (rule sum_mono2) (use assms(2) in auto)
  also have "\<dots> < (\<Sum>x \<in> alive k. todo g x)"
  proof (rule sum_strict_mono_ex1)
    show "\<forall>x \<in> alive k. todo g' x \<le> todo g x"
    proof
      fix x show "todo g' x \<le> todo g x" using assms(1,4) by (cases "x = r") (simp_all add: same_but_def)
    qed
  qed (use assms(3,4) in auto)
  finally show ?thesis by (simp add: load_def)
qed

section \<open>An action of the running process\<close>

text \<open>The processes other than the one that runs.\<close>

definition others :: "layout \<Rightarrow> ptr \<Rightarrow> crew \<Rightarrow> (ptr \<Rightarrow> suspended) \<Rightarrow> kernel \<Rightarrow> ptr \<Rightarrow> bool" where
  "others L i g sus k r \<longleftrightarrow> crew_state L i g k \<and> running k = Some r \<and> (\<forall>x \<in> alive k. x \<noteq> r \<longrightarrow> parked L i g sus k x)"

lemma others_alive: "others L i g sus k r \<Longrightarrow> r \<in> alive k"
  using running_alive crew_ok(1) by (auto simp: others_def)

text \<open>An action that changes only the output or the memory.\<close>

lemma own_progress:
  assumes o: "others L i g sus k r" and c: "crew_state L i g' k'" and same: "same_but i {r} g g'" "todo g' r < todo g r"
    and k': "running k' = Some r" "alive k' = alive k" "\<And>x. cpu_state (pcbs k' x) = cpu_state (pcbs k x)"
    and p: "task L i g' r p"
  shows "progress L i (load g k) \<lparr>mach = (In_process, k'), now = p, suspended = sus\<rparr>"
proof -
  have "parked L i g' sus k' x" if "x \<in> alive k'" "x \<noteq> r" for x
    using o that k' same_parked [OF same(1), of x k' k sus sus] by (simp add: others_def)
  then have "at_work L i g' \<lparr>mach = (In_process, k'), now = p, suspended = sus\<rparr>" using c k' p by (auto simp: at_work_def)
  moreover have "load g' k' < load g k"
    by (rule less_load [OF same(1) _ others_alive [OF o] same(2)]) (simp add: k'(2))
  ultimately show ?thesis by (auto simp: progress_def)
qed

text \<open>A system call that keeps the state of the team, in which nobody is spawned.\<close>

lemma call_progress:
  assumes o: "others L i g sus k r" and call: "disastrOS_syscall n va k = Inr (Inr (To_process r', k'))" "running k' = Some r'"
    and n: "n \<noteq> DSOS_CALL_FORK" "n \<noteq> DSOS_CALL_SPAWN"
    and c: "crew_state L i g' k'" and same: "same_but i {r} g g'" "todo g' r < todo g r"
    and p: "n \<noteq> DSOS_CALL_EXIT \<Longrightarrow> \<forall>v. task L i g' r (c v)"
  shows "progress L i (load g k) (arrive (bq_code L) (sus(r := In_call c)) (To_process r') k')"
proof -
  have ok: "kernel_ok k" "running k = Some r" using o crew_ok(1) by (auto simp: others_def)
  have conf: "x \<in> alive k \<and> cpu_state (pcbs k' x) = (if x = r then Ctx_saved else cpu_state (pcbs k x)) \<and>
      (n = DSOS_CALL_EXIT \<longrightarrow> x \<noteq> r)" if "x \<in> alive k'" for x
    using syscall_confined [OF ok call(1)] that n unfolding confined_processes_def by blast
  have "parked L i g' (sus(r := In_call c)) k' x" if x: "x \<in> alive k'" for x
  proof (cases "x = r")
    case True
    with conf [OF x] p show ?thesis by (auto simp: parked_def)
  next
    case False
    then show ?thesis
      using o conf [OF x] same_parked [OF same(1), of x k' k "sus(r := In_call c)" sus] by (simp add: others_def)
  qed
  then have "at_work L i g' (arrive (bq_code L) (sus(r := In_call c)) (To_process r') k')" by (rule arrive_at_work [OF c call(2)])
  moreover have "load g' k' < load g k"
    by (rule less_load [OF same(1) _ others_alive [OF o] same(2)]) (use conf in blast)
  ultimately show ?thesis by (auto simp: progress_def arrive_def)
qed

text \<open>A call whose handler comes back without a log, to a state in which somebody runs.\<close>

lemma quiet_call:
  assumes run: "running k = Some r" and f: "f \<noteq> Fn_shutdown" and args: "copy_args (numarg f) 0 va (syscall_args (pcbs k r)) = Inr regs"
    and h: "ok_with (run_handler f (trapped r (code_of f) regs k)) (\<lambda>(_, k'). R k')"
    and R: "\<And>k'. R k' \<Longrightarrow> log_file k' = None \<and> running k' \<noteq> None"
  obtains k' r' where "disastrOS_syscall (code_of f) va k = Inr (Inr (To_process r', k'))" "running k' = Some r'" "R k'"
proof -
  from h obtain c k' where k': "run_handler f (trapped r (code_of f) regs k) = Inr (c, k')" "R k'" by (auto simp: ok_with_iff)
  from R [OF k'(2)] obtain r' where r': "log_file k' = None" "running k' = Some r'" by auto
  show thesis
    by (rule that [OF _ r'(2) k'(2)])
      (use r' in \<open>simp add: syscall_eq [OF run f args] k'(1) return_quiet [OF r'(1)] next_control_def\<close>)
qed

lemma crew_call:
  assumes o: "others L i g sus k r" and f: "f \<notin> {Fn_shutdown, Fn_fork, Fn_spawn}"
    and args: "copy_args (numarg f) 0 va (syscall_args (pcbs k r)) = Inr regs"
    and h: "ok_with (run_handler f (trapped r (code_of f) regs k)) (\<lambda>(_, k'). crew_state L i g' k' \<and> running k' \<noteq> None)"
    and same: "same_but i {r} g (g'\<lparr>todo := (todo g)(r := n)\<rparr>)" "n < todo g r"
    and p: "f \<noteq> Fn_exit \<Longrightarrow> \<forall>v. task L i (g'\<lparr>todo := (todo g)(r := n)\<rparr>) r (c v)"
  shows "\<exists>ctl k'. disastrOS_syscall (code_of f) va k = Inr (Inr (ctl, k')) \<and>
    progress L i (load g k) (arrive (bq_code L) (sus(r := In_call c)) ctl k')"
proof -
  have run: "running k = Some r" using o by (simp add: others_def)
  let ?g' = "g'\<lparr>todo := (todo g)(r := n)\<rparr>"
  have f': "f \<noteq> Fn_shutdown" "code_of f \<noteq> DSOS_CALL_FORK" "code_of f \<noteq> DSOS_CALL_SPAWN" using f by (cases f; simp add: dsos_consts)+
  obtain k' r' where k': "disastrOS_syscall (code_of f) va k = Inr (Inr (To_process r', k'))" "running k' = Some r'"
    "crew_state L i g' k'"
    by (rule quiet_call [OF run f'(1) args h]) (auto dest: crew_ok(2))
  have "progress L i (load g k) (arrive (bq_code L) (sus(r := In_call c)) (To_process r') k')"
  proof (rule call_progress [OF o k'(1,2) f'(2,3) _ same(1)])
    have "f \<noteq> Fn_exit" if "code_of f \<noteq> DSOS_CALL_EXIT" using that by auto
    then show "\<forall>v. task L i ?g' r (c v)" if "code_of f \<noteq> DSOS_CALL_EXIT" using p that by blast
  qed (use k'(3) same(2) in simp_all)
  with k'(1) show ?thesis by blast
qed

section \<open>The workers\<close>

lemma worker_state:
  assumes "layout_ok L" and "crew_state L i g k"
  shows "crew_state L i g (k\<lparr>user_mem := (user_mem k)(addr_cv L r := v)\<rparr>)"
proof -
  have "addr_run L \<noteq> addr_cv L r" "addr_failed L \<noteq> addr_cv L r" using layout_apart [OF assms(1)] by blast+
  then show ?thesis
    using crew_ok(1) [OF assms(2)]
    by (intro crew_frame [OF assms(2)]) (auto simp: settings_def parents_def same_queues_def queue_view_def alive_def)
qed

text \<open>What an action of the running process leads to, whatever it reads.\<close>

definition acts :: "layout \<Rightarrow> ptr \<Rightarrow> crew \<Rightarrow> (ptr \<Rightarrow> suspended) \<Rightarrow> kernel \<Rightarrow> ptr \<Rightarrow> action \<Rightarrow> (int \<Rightarrow> program) \<Rightarrow> bool" where
  "acts L i g sus k r act c \<longleftrightarrow>
     (case act of
        Syscall n va \<Rightarrow> \<exists>ctl k'. disastrOS_syscall n va k = Inr (Inr (ctl, k')) \<and>
          progress L i (load g k) (arrive (bq_code L) (sus(r := In_call c)) ctl k')
      | _ \<Rightarrow> \<forall>inp. \<exists>v k'. perform inp act k = Inr (v, k') \<and>
          progress L i (load g k) \<lparr>mach = (In_process, k'), now = c v, suspended = sus\<rparr>)"

lemma acts_call:
  "acts L i g sus k r (Syscall n va) c \<longleftrightarrow> (\<exists>ctl k'. disastrOS_syscall n va k = Inr (Inr (ctl, k')) \<and>
     progress L i (load g k) (arrive (bq_code L) (sus(r := In_call c)) ctl k'))"
  by (simp add: acts_def)

text \<open>An action that the process \<open>r\<close> does by itself.\<close>

lemma acts_own:
  assumes o: "others L i g sus k r" and act: "\<And>n va. act \<noteq> Syscall n va" "\<And>inp. perform inp act k = Inr (v, k')"
    and c: "crew_state L i g' k'" and same: "same_but i {r} g (g'\<lparr>todo := (todo g)(r := n)\<rparr>)" "n < todo g r"
    and k': "running k' = running k" "alive k' = alive k" "\<And>x. cpu_state (pcbs k' x) = cpu_state (pcbs k x)"
    and p: "task L i (g'\<lparr>todo := (todo g)(r := n)\<rparr>) r (c v)"
  shows "acts L i g sus k r act c"
proof -
  have "progress L i (load g k) \<lparr>mach = (In_process, k'), now = c v, suspended = sus\<rparr>"
    by (rule own_progress [OF o _ same(1) _ _ k'(2,3) p]) (use c same(2) k'(1) o in \<open>simp_all add: others_def\<close>)
  with act(2) have go: "\<forall>inp. \<exists>v k'. perform inp act k = Inr (v, k') \<and>
    progress L i (load g k) \<lparr>mach = (In_process, k'), now = c v, suspended = sus\<rparr>" by blast
  then show ?thesis
  proof (cases act)
    case (Syscall n va)
    with act(1) show ?thesis by blast
  qed (simp_all only: acts_def action.case simp_thms)
qed

lemma same_but_todo [simp]: "same_but i {r} g (g\<lparr>todo := (todo g)(r := n)\<rparr>)"
  by (simp add: same_but_def)

lemma same_but_past [simp]: "r \<noteq> i \<Longrightarrow> same_but i {r} g ((past g r)\<lparr>todo := (todo g)(r := n)\<rparr>)"
  by (simp add: same_but_def)

text \<open>The registers of a call with one or two arguments.\<close>

lemma call_regs:
  "numarg f = 1 \<Longrightarrow> copy_args (numarg f) 0 [a] regs = Inr (regs(0 := a))"
  "numarg f = 2 \<Longrightarrow> copy_args (numarg f) 0 [a, b] regs = Inr (regs(0 := a, 1 := b))"
  by (simp_all add: numeral_2_eq_2)

lemma ok_returning: "ok_with (returning h) (\<lambda>(_, k'). R k') \<longleftrightarrow> ok_with h R"
  by (cases h) (simp_all add: returning_def)

text \<open>What a worker does between its system calls.\<close>

lemma worker_own:
  assumes o: "others L i g sus k r" and r: "r \<noteq> i" and L: "layout_ok L"
    and act: "act = Getpid \<or> (\<exists>s. act = Printf s) \<or> act = Store (addr_cv L r) (-1)"
    and n: "todo g r = Suc n" and c: "\<forall>v. member L r (role_of g r) n (c v)"
  shows "acts L i g sus k r act c"
proof -
  have cs: "crew_state L i g k" using o by (simp add: others_def)
  note own = acts_own [OF o, where g' = g and n = n and c = c]
  from act consider "act = Getpid" | s where "act = Printf s" | "act = Store (addr_cv L r) (-1)" by blast
  then show ?thesis
  proof cases
    case 1
    show ?thesis by (rule own [where k' = k and v = "disastrOS_getpid k"]) (use 1 n c cs r in \<open>simp_all add: task_def\<close>)
  next
    case (2 s)
    show ?thesis
      by (rule own [where k' = "print_out s k" and v = "int (length s)"])
        (use 2 n c crew_quiet(2) [OF cs] r in \<open>simp_all add: task_def alive_def\<close>)
  next
    case 3
    show ?thesis
      by (rule own [where k' = "k\<lparr>user_mem := (user_mem k)(addr_cv L r := -1)\<rparr>" and v = 0])
        (use 3 n c worker_state [OF L cs] r in \<open>simp_all add: task_def alive_def\<close>)
  qed
qed

lemma worker_acts:
  assumes o: "others L i g sus k r" and r: "r \<noteq> i" and L: "layout_ok L"
    and v: "user_mem k (addr_cv L r) \<in> {0, -1, CONC_VAL}" and p: "task L i g r (Do act c)"
  shows "acts L i g sus k r act c"
proof -
  have c: "crew_state L i g k" and run: "running k = Some r" using o by (simp_all add: others_def)
  have t: "crew_state L i g (trapped r n regs k)" for n regs by (rule crew_trapped [OF c run])
  from p r have "member L r (role_of g r) (todo g r) (Do act c)" by (simp add: task_def)
  then show ?thesis
  proof (cases rule: member.cases)
    case (Does n)
    show ?thesis by (rule worker_own [OF o r L Does(2,1,3)])
  next
    case (Reads n)
    show ?thesis
      by (rule acts_own [OF o, where g' = g and n = n and k' = k and v = "user_mem k (addr_cv L r)"])
        (use Reads c r v in \<open>auto simp: task_def\<close>)
  next
    case (Adds n v)
    show ?thesis
      by (rule acts_own [OF o, where g' = g and n = n and k' = k and v = v]) (use Adds c r in \<open>simp_all add: task_def\<close>)
  next
    case (Puts n)
    have "ok_with (run_handler Fn_bq_put (trapped r (code_of Fn_bq_put) regs k)) (\<lambda>(_, k'). crew_state L i (past g r) k' \<and> running k' \<noteq> None)"
      if "regs 0 = QID" for regs
      using put_crew [OF t _ r Puts(1) L] run that by (simp add: ok_returning)
    from crew_call [OF o _ call_regs(2) [where a = QID and b = CONC_VAL] this, where n = n] show ?thesis
      using Puts r by (simp add: acts_call numarg_values task_def)
  next
    case (Gets n)
    have "ok_with (run_handler Fn_bq_get (trapped r (code_of Fn_bq_get) regs k)) (\<lambda>(_, k'). crew_state L i (past g r) k' \<and> running k' \<noteq> None)"
      if "regs 0 = QID" "regs 1 = addr_cv L r" for regs
      using get_crew [OF t _ r Gets(1) L] run that by (simp add: ok_returning)
    from crew_call [OF o _ call_regs(2) [where a = QID and b = "addr_cv L r"] this, where n = n] show ?thesis
      using Gets r by (simp add: acts_call numarg_values task_def)
  next
    case (Dumps n)
    have "ok_with (run_handler Fn_bq_dump (trapped r (code_of Fn_bq_dump) regs k)) (\<lambda>(_, k'). crew_state L i g k' \<and> running k' \<noteq> None)"
      for regs using dump_crew [OF t] run by (simp add: ok_returning)
    from crew_call [OF o _ call_regs(1) [where a = QID] this, where n = n] show ?thesis
      using Dumps r by (simp add: acts_call numarg_values task_def)
  next
    case (Exits n v)
    have "ok_with (run_handler Fn_exit (trapped r (code_of Fn_exit) regs k)) (\<lambda>(_, k'). crew_state L i g k' \<and> running k' \<noteq> None)"
      for regs using exit_crew [OF t _ r Exits(1)] run by (simp add: ok_returning)
    from crew_call [OF o _ call_regs(1) [where a = v] this, where n = n] show ?thesis
      using Exits r by (simp add: acts_call numarg_values task_def)
  qed
qed

end
