(* ===== verification/Crew_Runs.thy ===== *)
theory Crew_Runs
  imports Crew_Steps
begin

text \<open>
  The runs of the concurrent test: the actions of its leader, and what they and those of the workers come to, however the
  processes are interleaved.
\<close>

section \<open>The leader\<close>

text \<open>
  What is asked of the layout of the program: its functions are different ones, and so are its variables, as far as it matters.
\<close>

definition program_layout :: "layout \<Rightarrow> bool" where
  "program_layout L \<longleftrightarrow> layout_ok L \<and> unit_layout L \<and> addr_ret L \<notin> {addr_run L, addr_failed L} \<and>
     distinct [at_init L, at_producer L, at_consumer L]"

lemma store_crew:
  assumes "crew_state L i g k"
  shows "crew_state L i (g\<lparr>runs := mem (addr_run L), fails := mem (addr_failed L)\<rparr>) (k\<lparr>user_mem := mem\<rparr>)"
proof (rule crew_stateI)
  let ?g = "g\<lparr>runs := mem (addr_run L), fails := mem (addr_failed L)\<rparr>" and ?k = "k\<lparr>user_mem := mem\<rparr>"
  have "waits_as L ?g i x n args = waits_as L g i x n args" for x n args by (simp add: waits_as_def)
  then show "crew_waits L ?g i ?k" using crew_ok(8) [OF assms] by (simp add: crew_waits_def)
  have "alive ?k = alive k" "queue_view ?k q = queue_view k q" for q by (simp_all add: alive_def queue_view_def)
  then show "crew_queue ?g i ?k"
    using crew_ok(9) [OF assms] by (simp add: crew_queue_def called_def yet_def del: bq_view_simps cong: stage.case_cong)
  show "crew_family i ?k" using crew_ok(6) [OF assms] by (simp add: crew_family_def configured_def alive_def)
  show "crew_counts L ?g ?k" using crew_ok(7) [OF assms] by (simp add: crew_counts_def)
qed

text \<open>An action that the leader does by itself, in a memory that may change.\<close>

lemma leader_own:
  assumes o: "others L i g sus k i" and act: "\<And>n va. act \<noteq> Syscall n va"
    "\<And>inp. perform inp act k = Inr (v, k\<lparr>user_mem := mem\<rparr>)"
    and n: "n < todo g i" and p: "leader L (at_stage g) (more_p g) (more_c g) (mem (addr_run L)) (mem (addr_failed L)) n (c v)"
  shows "acts L i g sus k i act c"
  by (rule acts_own [OF o act, where g' = "g\<lparr>runs := mem (addr_run L), fails := mem (addr_failed L)\<rparr>" and n = n])
    (use o n p store_crew in \<open>simp_all add: others_def same_but_def task_def alive_def\<close>)

lemma leader_call:
  assumes o: "others L i g sus k i" and f: "f \<notin> {Fn_shutdown, Fn_fork, Fn_spawn, Fn_exit}"
    and args: "copy_args (numarg f) 0 va (syscall_args (pcbs k i)) = Inr regs"
    and h: "ok_with (run_handler f (trapped i (code_of f) regs k)) (\<lambda>(_, k'). crew_state L i (g\<lparr>at_stage := st\<rparr>) k' \<and> running k' \<noteq> None)"
    and n: "n < todo g i" and p: "\<forall>v. leader L st (more_p g) (more_c g) (runs g) (fails g) n (c v)"
  shows "acts L i g sus k i (Syscall (code_of f) va) c"
  unfolding acts_call
  by (rule crew_call [OF o _ args h, where n = n]) (use f n p in \<open>auto simp: same_but_def task_def\<close>)

lemma creates_acts:
  assumes o: "others L i g sus k i" and st: "at_stage g = Opening"
    and n: "n < todo g i" and p: "leader L Serving (more_p g) (more_c g) (runs g) (fails g) n (c 0)"
  shows "acts L i g sus k i (Syscall DSOS_CALL_BQ_CREATE [QID, CAP]) c"
proof -
  have c: "crew_state L i g k" and run: "running k = Some i" using o by (simp_all add: others_def)
  have alive: "alive k = {i}" using crew_ok(9) [OF c] st by (simp add: crew_queue_def)
  let ?g' = "g\<lparr>at_stage := Serving, todo := (todo g)(i := n)\<rparr>"
  have h: "ok_with (run_handler Fn_bq_create (trapped i (code_of Fn_bq_create) regs k)) (\<lambda>(_, k').
      crew_state L i (g\<lparr>at_stage := Serving\<rparr>) k' \<and> running k' = Some i \<and> syscall_retvalue (pcbs k' i) = 0)"
    if "regs 0 = QID" "regs 1 = CAP" for regs
    using create_crew [OF crew_trapped [OF c run] _ st] run that by (simp add: ok_returning)
  obtain k' r' where k': "disastrOS_syscall (code_of Fn_bq_create) [QID, CAP] k = Inr (Inr (To_process r', k'))" "running k' = Some r'"
    "crew_state L i (g\<lparr>at_stage := Serving\<rparr>) k' \<and> running k' = Some i \<and> syscall_retvalue (pcbs k' i) = 0"
    by (rule quiet_call [OF run _ call_regs(2) [where a = QID and b = CAP] h]) (auto simp: numarg_values dest: crew_ok(2))
  then have "r' = i" by simp
  have "alive k' \<subseteq> {i}"
    using syscall_confined [OF crew_ok(1) [OF c] run k'(1)] alive by (auto simp: confined_processes_def dsos_consts)
  moreover have "cpu_state (pcbs k' i) = Ctx_saved"
    using called_saved [OF crew_ok(1) [OF c] run k'(1) [unfolded \<open>r' = i\<close>]] k'(3) by simp
  then have "arrive (bq_code L) (sus(i := In_call c)) (To_process r') k' =
      \<lparr>mach = (In_process, k'), now = c 0, suspended = sus(i := In_call c)\<rparr>"
    using k'(3) \<open>r' = i\<close> by (simp add: arrive_saved)
  ultimately have "at_work L i ?g' (arrive (bq_code L) (sus(i := In_call c)) (To_process r') k')"
    using k'(3) p by (auto simp: at_work_def task_def)
  moreover have "load ?g' k' < load g k"
    by (rule less_load [of i i]) (use n alive \<open>alive k' \<subseteq> {i}\<close> in \<open>simp_all add: same_but_def\<close>)
  ultimately have "progress L i (load g k) (arrive (bq_code L) (sus(i := In_call c)) (To_process r') k')"
    by (auto simp: progress_def arrive_def)
  with k'(1) show ?thesis by (auto simp: acts_call)
qed

text \<open>A new worker takes over fewer actions than the bound of the leader goes down by.\<close>

lemma hired_load:
  assumes "alive k' = insert x (alive k)" and "x \<notin> alive k" and "i \<in> alive k" and "todo g i = n + 20" and "m < 20"
  shows "load (h\<lparr>todo := (todo g)(i := n, x := m)\<rparr>) k' < load g k"
proof -
  let ?t = "(todo g)(i := n, x := m)"
  have "load (h\<lparr>todo := ?t\<rparr>) k' = (\<Sum>y \<in> insert x (alive k). ?t y)" by (simp add: load_def assms(1) del: fun_upd_apply)
  also have "\<dots> = m + (\<Sum>y \<in> alive k. ?t y)" using assms(2) by (simp add: alive_def)
  also have "(\<Sum>y \<in> alive k. ?t y) = n + (\<Sum>y \<in> alive k - {i}. todo g y)"
    using assms(2,3) by (subst sum.remove [of _ i]) (auto intro!: sum.cong split: if_split_asm)
  also have "m + (n + (\<Sum>y \<in> alive k - {i}. todo g y)) < todo g i + (\<Sum>y \<in> alive k - {i}. todo g y)" using assms(4,5) by simp
  also have "\<dots> = load g k" using assms(3) by (simp add: load_def sum.remove [of _ i])
  finally show ?thesis .
qed

lemma spawns_acts:
  assumes o: "others L i g sus k i" and st: "at_stage g = Serving"
    and \<rho>: "\<rho> = Putting \<and> 0 < more_p g \<or> \<rho> = Getting \<and> 0 < more_c g"
    and n: "todo g i = n + 20" and m: "m < 20" "\<And>x. member L x \<rho> m (bq_code L fn QID x)"
    and p: "\<forall>v. leader L Serving (if \<rho> = Putting then more_p g - 1 else more_p g) (if \<rho> = Getting then more_c g - 1 else more_c g)
      (runs g) (fails g) n (c v)"
  shows "acts L i g sus k i (Syscall DSOS_CALL_SPAWN [fn, QID]) c"
proof -
  have c: "crew_state L i g k" and run: "running k = Some i" using o by (simp_all add: others_def)
  let ?R = "\<lambda>k'. running k' = Some i \<and> (\<exists>p. p \<notin> alive k \<and> alive k' = insert p (alive k) \<and> crew_state L i (hired g p \<rho>) k')"
  have h: "ok_with (run_handler Fn_spawn (trapped i (code_of Fn_spawn) regs k)) (\<lambda>(_, k'). ?R k')" for regs
    using spawn_crew [OF crew_trapped [OF c run] _ st \<rho>] run by (simp add: ok_returning)
  obtain k' r' where k': "disastrOS_syscall (code_of Fn_spawn) [fn, QID] k = Inr (Inr (To_process r', k'))" "running k' = Some r'" "?R k'"
    by (rule quiet_call [OF run _ call_regs(2) [where a = fn and b = QID] h]) (auto simp: numarg_values dest: crew_ok(2))
  then obtain x where x: "x \<notin> alive k" "alive k' = insert x (alive k)" "crew_state L i (hired g x \<rho>) k'" by blast
  have "i \<in> alive k" by (rule crew_ok(5) [OF c])
  with x(1) have "x \<noteq> i" by blast
  let ?g' = "(hired g x \<rho>)\<lparr>todo := (todo g)(i := n, x := m)\<rparr>" and ?sus = "sus(i := In_call c)"
  have same: "same_but i {i, x} g ?g'" by (simp add: same_but_def)
  have conf: "y \<in> alive k \<and> cpu_state (pcbs k' y) = (if y = i then Ctx_saved else cpu_state (pcbs k y)) \<or>
      y \<notin> alive k \<and> cpu_state (pcbs k' y) = Ctx_entry fn QID" if "y \<in> alive k'" for y
    using syscall_confined [OF crew_ok(1) [OF c] run k'(1)] that by (auto simp: confined_processes_def dsos_consts)
  have "parked L i ?g' ?sus k' y" if y: "y \<in> alive k'" for y
  proof -
    consider "y = x" | "y = i" | "y \<in> alive k" "y \<notin> {i, x}" using y x(2) by blast
    then show ?thesis
    proof cases
      case 1
      then show ?thesis using conf [OF y] x(1) m(2) \<open>x \<noteq> i\<close> by (simp add: parked_def task_def)
    next
      case 2
      then show ?thesis using conf [OF y] p \<open>i \<in> alive k\<close> \<open>x \<noteq> i\<close> st by (simp add: parked_def task_def)
    next
      case 3
      then show ?thesis
        using conf [OF y] o same_parked [OF same, of y k' k ?sus sus] by (simp add: others_def)
    qed
  qed
  then have "at_work L i ?g' (arrive (bq_code L) ?sus (To_process r') k')"
    by (intro arrive_at_work) (use x(3) k'(2) in simp_all)
  moreover have "load ?g' k' < load g k" by (rule hired_load [OF x(2,1) \<open>i \<in> alive k\<close> n m(1)])
  ultimately have "progress L i (load g k) (arrive (bq_code L) ?sus (To_process r') k')"
    by (auto simp: progress_def arrive_def)
  with k'(1) show ?thesis by (auto simp: acts_call)
qed

lemma ends_acts:
  assumes o: "others L i g sus k i" and "runs g = 11" and "fails g = 0 \<or> fails g = 1"
  shows "acts L i g sus k i (Syscall DSOS_CALL_SHUTDOWN []) c"
proof -
  have c: "crew_state L i g k" and run: "running k = Some i" using o by (simp_all add: others_def)
  from shutdown_call_exits [OF run, of "[]"] obtain k' where
    k': "disastrOS_syscall DSOS_CALL_SHUTDOWN [] k = Inr (Inr (To_main, k'))" "shutdown_now k' = 1" by blast
  have "user_mem k' = user_mem k"
    using syscall_confined [OF crew_ok(1) [OF c] run k'(1)] by (auto simp: confined_memory_def dsos_consts)
  then have "all_done L k'" using crew_ok(7) [OF c] assms(2,3) k'(2) by (auto simp: all_done_def crew_counts_def)
  with k'(1) show ?thesis by (auto simp: acts_call progress_def arrive_def)
qed

lemma waits_acts:
  assumes o: "others L i g sus k i" and st: "at_stage g = Serving" "more_p g = 0" "more_c g = 0"
    and a: "addr_ret L \<noteq> addr_run L" "addr_ret L \<noteq> addr_failed L"
    and n: "n < todo g i" and p: "\<forall>v. leader L Serving 0 0 (runs g) (fails g) n (c v)"
  shows "acts L i g sus k i (Syscall DSOS_CALL_WAIT [0, addr_ret L]) c"
proof -
  have c: "crew_state L i g k" and run: "running k = Some i" using o by (simp_all add: others_def)
  have g: "g\<lparr>at_stage := Serving\<rparr> = g" using st by simp
  have "ok_with (run_handler Fn_wait (trapped i (code_of Fn_wait) regs k)) (\<lambda>(_, k'). crew_state L i (g\<lparr>at_stage := Serving\<rparr>) k' \<and> running k' \<noteq> None)"
    if "regs 0 = 0" "regs 1 = addr_ret L" for regs
    unfolding g
    using wait_crew [OF crew_trapped [OF c run], of "code_of Fn_wait" regs "addr_ret L"] run that st a by (simp add: ok_returning)
  from leader_call [OF o _ call_regs(2) [where a = 0 and b = "addr_ret L"] this n] show ?thesis
    using p st by (simp add: numarg_values)
qed

lemma deletes_acts:
  assumes o: "others L i g sus k i" and st: "at_stage g = Serving"
    and n: "n < todo g i" and p: "\<forall>v. leader L Closing (more_p g) (more_c g) (runs g) (fails g) n (c v)"
  shows "acts L i g sus k i (Syscall DSOS_CALL_BQ_DELETE [QID]) c"
proof -
  have c: "crew_state L i g k" and run: "running k = Some i" using o by (simp_all add: others_def)
  have "ok_with (run_handler Fn_bq_delete (trapped i (code_of Fn_bq_delete) regs k)) (\<lambda>(_, k'). crew_state L i (g\<lparr>at_stage := Closing\<rparr>) k' \<and> running k' \<noteq> None)"
    if "regs 0 = QID" for regs
  proof -
    have "ok_with (internal_bq_delete (trapped i (code_of Fn_bq_delete) regs k)) (\<lambda>k'. crew_state L i (g\<lparr>at_stage := Closing\<rparr>) k' \<and> running k' = Some i)"
      by (rule delete_crew [OF crew_trapped [OF c run]]) (use run that st in simp_all)
    then have "ok_with (internal_bq_delete (trapped i (code_of Fn_bq_delete) regs k)) (\<lambda>k'. crew_state L i (g\<lparr>at_stage := Closing\<rparr>) k' \<and> running k' \<noteq> None)"
      by (rule ok_with_mono) simp
    then show ?thesis by (simp add: ok_returning)
  qed
  from leader_call [OF o _ call_regs(1) [where a = QID] this n] show ?thesis using p by (simp add: numarg_values)
qed

text \<open>What the leader does between its system calls.\<close>

lemma leader_between:
  assumes o: "others L i g sus k i" and L: "program_layout L" and act: "\<And>n va. act \<noteq> Syscall n va"
    and p: "leader L (at_stage g) (more_p g) (more_c g) (runs g) (fails g) (todo g i) (Do act c)"
  shows "acts L i g sus k i act c"
proof -
  have c: "crew_state L i g k" using o by (simp add: others_def)
  have mem: "user_mem k (addr_run L) = runs g" "user_mem k (addr_failed L) = fails g"
    using crew_ok(7) [OF c] by (simp_all add: crew_counts_def)
  have far: "addr_ret L \<noteq> addr_run L" "addr_ret L \<noteq> addr_failed L" "addr_run L \<noteq> addr_failed L"
    using L by (auto simp: program_layout_def unit_layout_def)
  note quiet = leader_own [OF o, where mem = "user_mem k"] and quiet_out = acts_own [OF o, where g' = g]
  from p show ?thesis
  proof (cases rule: leader.cases)
    case (Says n s)
    show ?thesis
      by (rule quiet_out [where k' = "print_out s k" and v = "int (length s)" and n = n])
        (use Says crew_quiet(2) [OF c] in \<open>simp_all add: task_def alive_def\<close>)
  next
    case (Clears n)
    show ?thesis
      by (rule leader_own [OF o, where mem = "(user_mem k)(addr_ret L := 0)" and v = 0 and n = n])
        (use Clears mem far in simp_all)
  next
    case (Looks n)
    show ?thesis by (rule quiet [where v = "user_mem k (addr_ret L)" and n = n]) (use Looks mem in simp_all)
  next
    case (Reads_run n)
    show ?thesis by (rule quiet [where v = "runs g" and n = n]) (use Reads_run mem in simp_all)
  next
    case (Reads_failed n)
    show ?thesis by (rule quiet [where v = "fails g" and n = n]) (use Reads_failed mem in simp_all)
  next
    case (Adds n v)
    show ?thesis by (rule quiet [where v = v and n = n]) (use Adds mem in simp_all)
  next
    case (Sets_run m' n)
    show ?thesis
      by (rule leader_own [OF o, where mem = "(user_mem k)(addr_run L := m')" and v = 0 and n = n])
        (use Sets_run mem far in simp_all)
  next
    case (Sets_failed f' n)
    show ?thesis
      by (rule leader_own [OF o, where mem = "(user_mem k)(addr_failed L := f')" and v = 0 and n = n])
        (use Sets_failed mem far in simp_all)
  qed (use act in simp_all)
qed

lemma leader_acts:
  assumes o: "others L i g sus k i" and L: "program_layout L" and p: "task L i g i (Do act c)"
  shows "acts L i g sus k i act c"
proof (cases "\<exists>n va. act = Syscall n va")
  case False
  with leader_between [OF o L] p show ?thesis by (simp add: task_def)
next
  case True
  have far: "addr_ret L \<noteq> addr_run L" "addr_ret L \<noteq> addr_failed L"
    "at_producer L \<noteq> at_init L" "at_consumer L \<noteq> at_init L" "at_consumer L \<noteq> at_producer L"
    using L by (auto simp: program_layout_def unit_layout_def)
  from p have "leader L (at_stage g) (more_p g) (more_c g) (runs g) (fails g) (todo g i) (Do act c)" by (simp add: task_def)
  then show ?thesis
  proof (cases rule: leader.cases)
    case (Creates n)
    then show ?thesis using creates_acts [OF o Creates(1), of n c] by simp
  next
    case (Spawns_producer p n)
    then show ?thesis
      using spawns_acts [OF o, of Putting n 10 "at_producer L" c] producer_member far by (simp add: bq_code_def)
  next
    case (Spawns_consumer c' n)
    then show ?thesis
      using spawns_acts [OF o, of Getting n 14 "at_consumer L" c] consumer_member far by (simp add: bq_code_def)
  next
    case (Waits n)
    then show ?thesis using waits_acts [OF o, of n c] far by simp
  next
    case (Deletes n)
    then show ?thesis using deletes_acts [OF o, of n c] by simp
  next
    case (Ends n)
    then show ?thesis using ends_acts [OF o, of c] by simp
  qed (use True in simp_all)
qed

section \<open>Steps and runs\<close>

text \<open>What is known of the variables of the consumers in every run.\<close>

definition slots_fine :: "layout \<Rightarrow> world \<Rightarrow> bool" where
  "slots_fine L w \<longleftrightarrow> (\<forall>x. user_mem (snd (mach w)) (addr_cv L x) \<in> {0, -1, CONC_VAL})"

lemma at_work_acts:
  assumes "at_work L i g w" and "program_layout L" and "slots_fine L w"
  obtains k r act c where "w = \<lparr>mach = (In_process, k), now = Do act c, suspended = suspended w\<rparr>"
    "others L i g (suspended w) k r" "task L i g r (Do act c)" "acts L i g (suspended w) k r act c"
proof -
  from assms(1) obtain k r where w: "mach w = (In_process, k)" "others L i g (suspended w) k r" "task L i g r (now w)"
    by (auto simp: at_work_def others_def)
  have "\<exists>act c. now w = Do act c"
    using w(3) by (cases "r = i") (auto simp: task_def elim: leader.cases member.cases)
  then obtain act c where p: "now w = Do act c" by blast
  have "acts L i g (suspended w) k r act c"
  proof (cases "r = i")
    case True
    then show ?thesis using leader_acts w(2,3) assms(2) p by simp
  next
    case False
    show ?thesis by (rule worker_acts [OF w(2) False]) (use w assms(2,3) p in \<open>auto simp: program_layout_def slots_fine_def\<close>)
  qed
  with w p show thesis by (intro that [of k act c r]) simp_all
qed

lemma at_work_tick:
  assumes o: "others L i g sus k r" and p: "task L i g r p" and tick: "timerHandler k = Inr (ctl, k')"
  shows "at_work L i g (arrive (bq_code L) (sus(r := Between p)) ctl k')"
proof -
  have c: "crew_state L i g k" and run: "running k = Some r" using o by (simp_all add: others_def)
  from tick_crew [OF c run] tick obtain r' where r': "ctl = To_process r'" "running k' = Some r'" "crew_state L i g k'" by auto
  have same: "alive k' = alive k" "\<And>x. cpu_state (pcbs k' x) = (if x = r then Ctx_saved else cpu_state (pcbs k x))"
    using handler_tick_untouched [OF crew_ok(1) [OF c]] tick run saved_simps(4) [of k]
    by (auto simp: untouched_def same_processes_def) (simp_all add: saved_def upd_pcb_at)
  have "parked L i g (sus(r := Between p)) k' x" if "x \<in> alive k'" for x
    using o p same that by (cases "x = r") (simp_all add: others_def parked_def cong: machine_context.case_cong)
  from arrive_at_work [OF r'(3,2) this] r'(1) show ?thesis by simp
qed

text \<open>Every step of a team at work leads to a team at work, to the end of the test, or to a clock that overflows.\<close>

lemma at_work_step:
  assumes w: "at_work L i g w" and L: "program_layout L" and fine: "slots_fine L w" and step: "bq_step L w w'"
  shows "(\<exists>g. at_work L i g w') \<or> fst (mach w') = In_main \<and> all_done L (snd (mach w')) \<or> clock_crash w'"
proof -
  obtain k r act c where a: "w = \<lparr>mach = (In_process, k), now = Do act c, suspended = suspended w\<rparr>"
    "others L i g (suspended w) k r" "task L i g r (Do act c)" "acts L i g (suspended w) k r act c"
    by (rule at_work_acts [OF w L fine])
  let ?good = "\<lambda>w'. (\<exists>g. at_work L i g w') \<or> fst (mach w') = In_main \<and> all_done L (snd (mach w'))"
  have good: "?good w'" if "progress L i n w'" for n w' using that by (auto simp: progress_def)
  have run: "running k = Some r" using a(2) by (simp add: others_def)
  have own: "\<exists>v' k2. perform inp act k = Inr (v', k2) \<and>
      progress L i (load g k) \<lparr>mach = (In_process, k2), now = c v', suspended = suspended w\<rparr>" if "\<forall>n va. act \<noteq> Syscall n va" for inp
    using a(4) that by (cases act) (auto simp: acts_def)
  have call: "\<exists>ctl k'. disastrOS_syscall n va k = Inr (Inr (ctl, k')) \<and>
      progress L i (load g k) (arrive (bq_code L) ((suspended w)(r := In_call c)) ctl k')" if "act = Syscall n va" for n va
    using a(4) that by (simp add: acts_call)
  from step a(1) have "bq_step L \<lparr>mach = (In_process, k), now = Do act c, suspended = suspended w\<rparr> w'" by simp
  then show ?thesis
  proof (rule step_of_process, goal_cases)
    case (1 inp v k')
    then have "\<forall>n va. act \<noteq> Syscall n va" by auto
    from own [OF this, of inp] 1(2) have "progress L i (load g k) w'" unfolding 1(1) by simp
    from good [OF this] show ?case by blast
  next
    case (2 inp e)
    with own [OF 2(3), of inp] show ?case by auto
  next
    case (3 r' n va ctl k')
    with call [OF 3(1)] run have "progress L i (load g k) w'" by auto
    from good [OF this] show ?case by blast
  next
    case (6 r' ctl k')
    with at_work_tick [OF a(2,3) 6(3)] run show ?case by auto
  next
    case (7 e)
    with tick_crew [of L i g k r] a(2) show ?case by (auto simp: clock_crash_def others_def)
  qed (use call in auto)
qed

text \<open>And there is a step that brings the end nearer.\<close>

lemma at_work_progress:
  assumes w: "at_work L i g w" and L: "program_layout L" and fine: "slots_fine L w"
  shows "\<exists>w'. bq_step L w w' \<and> progress L i (load g (snd (mach w))) w'"
proof -
  obtain k r act c where a: "w = \<lparr>mach = (In_process, k), now = Do act c, suspended = suspended w\<rparr>"
    "others L i g (suspended w) k r" "task L i g r (Do act c)" "acts L i g (suspended w) k r act c"
    by (rule at_work_acts [OF w L fine])
  have k: "snd (mach w) = k" using a(1) by (metis snd_conv world.select_convs(1))
  show ?thesis
  proof (cases "\<exists>n va. act = Syscall n va")
    case True
    then obtain n va where act: "act = Syscall n va" by blast
    with a(4) obtain ctl k' where k': "disastrOS_syscall n va k = Inr (Inr (ctl, k'))"
      "progress L i (load g k) (arrive (bq_code L) ((suspended w)(r := In_call c)) ctl k')" by (auto simp: acts_call)
    have "bq_step L w (arrive (bq_code L) ((suspended w)(r := In_call c)) ctl k')"
      by (subst a(1), unfold act, rule prog_step.Call) (use a(2) k'(1) in \<open>simp_all add: others_def\<close>)
    with k'(2) k show ?thesis by blast
  next
    case False
    then obtain v k' where k': "perform 0 act k = Inr (v, k')"
      "progress L i (load g k) \<lparr>mach = (In_process, k'), now = c v, suspended = suspended w\<rparr>"
      using a(4) by (cases act) (auto simp: acts_def)
    have "bq_step L w \<lparr>mach = (In_process, k'), now = c v, suspended = suspended w\<rparr>"
      by (subst a(1)) (rule prog_step.Own [OF k'(1)])
    with k'(2) k show ?thesis by blast
  qed
qed

section \<open>From the unit test to the shutdown\<close>

text \<open>The leader that has completed the unit test is a team at work.\<close>

lemma ended_at_work:
  assumes "unit_ended L w"
  shows "\<exists>i g. at_work L i g w"
proof -
  from assms obtain i k where w: "mach w = (In_process, k)" "now w = test_mini_concorrente L (summary L)"
    and u: "unit_state L i 0 None 9 222 k" by (cases "mach w") (auto simp: unit_ended_def finished_def)
  obtain n where n: "leader L Opening NPROD_PROCS NCONS_PROCS 9 0 n (test_mini_concorrente L (summary L))"
    using test_leads [of L] by (auto simp: leads_def)
  let ?g = "\<lparr>at_stage = Opening, more_p = NPROD_PROCS, more_c = NCONS_PROCS, runs = 9, fails = 0, role_of = (\<lambda>_. Leaving), todo = (\<lambda>_. n)\<rparr>"
  have k: "kernel_ok k" "running k = Some i" "log_file k = None" "only i k" "lst k Ready_list = []" "lst k Bq_registry = []"
    "user_mem k (addr_run L) = 9" "user_mem k (addr_failed L) = 0"
    using u by (simp_all add: unit_state_def alone_def unit_queue_def)
  have use: "in_use k Pcb_buffer = {i}"
    using kernel_okD(2) [OF k(1)] k(2,4,5) by (auto simp: sched_ok_def only_def)
  then have alive: "alive k = {i}" using k(4) by (simp add: alive_def only_def)
  have "crew_state L i ?g k"
  proof (rule crew_stateI)
    show "crew_family i k" using k use alive by (simp add: crew_family_def only_def)
    show "crew_counts L ?g k" using k by (simp add: crew_counts_def only_def)
    show "crew_waits L ?g i k" using k(4) by (simp add: crew_waits_def only_def)
    show "crew_queue ?g i k" using k(6) alive by (simp add: crew_queue_def)
  qed
  with w n k(2) alive have "at_work L i ?g w" by (simp add: at_work_def task_def)
  then show ?thesis by blast
qed

text \<open>The worlds from there on.\<close>

definition test_goes_on :: "layout \<Rightarrow> world \<Rightarrow> bool" where
  "test_goes_on L w \<longleftrightarrow> (\<exists>i g. at_work L i g w) \<or>
     (fst (mach w) = In_main \<or> fst (mach w) = Finished) \<and> all_done L (snd (mach w)) \<or> clock_crash w"

lemma main_run: "argc \<le> 1 \<Longrightarrow> bq_main sizeof L argc w \<Longrightarrow> bq_step L w w' \<Longrightarrow> bq_main sizeof L argc w'"
  by (simp add: bq_main_def prog_run.Step)

lemma main_slots: "argc \<le> 1 \<Longrightarrow> bq_main sizeof L argc w \<Longrightarrow> sizes_ok sizeof \<Longrightarrow> program_layout L \<Longrightarrow> slots_fine L w"
  unfolding slots_fine_def bq_main_def program_layout_def using bq_run_slots by blast

inductive_cases step_in_main: "prog_step code f f_args logging \<lparr>mach = (In_main, k), now = p, suspended = sus\<rparr> w'"

lemma done_steps:
  assumes "fst (mach w) = In_main" and "all_done L (snd (mach w))"
  shows "bq_step L w w' \<longleftrightarrow> w' = \<lparr>mach = (Finished, snd (mach w)), now = Return, suspended = suspended w\<rparr>"
proof -
  obtain k where w: "w = \<lparr>mach = (In_main, k), now = now w, suspended = suspended w\<rparr>"
    using assms(1) by (cases w; cases "mach w") simp
  then have k: "snd (mach w) = k" by (metis snd_conv world.select_convs(1))
  have stop: "start_resume (at_init L) 0 False k = Inr None" using assms(2) k by (simp add: start_resume_def all_done_def)
  have "bq_step L \<lparr>mach = (In_main, k), now = now w, suspended = suspended w\<rparr> w' \<longleftrightarrow>
      w' = \<lparr>mach = (Finished, k), now = Return, suspended = suspended w\<rparr>"
    by (auto elim!: step_in_main simp: stop intro: prog_step.Stop)
  with w k show ?thesis by simp
qed

lemma test_keeps_on:
  assumes L: "program_layout L" and fine: "slots_fine L w" and go: "test_goes_on L w" and step: "bq_step L w w'"
  shows "test_goes_on L w'"
proof -
  from go consider i g where "at_work L i g w" | "fst (mach w) = In_main" "all_done L (snd (mach w))"
    | "fst (mach w) = Finished" | "clock_crash w" unfolding test_goes_on_def by blast
  then show ?thesis
  proof cases
    case 1
    from at_work_step [OF 1 L fine step] show ?thesis unfolding test_goes_on_def by blast
  next
    case 2
    with done_steps [OF 2] step show ?thesis by (simp add: test_goes_on_def)
  next
    case 3
    with step show ?thesis by (cases rule: prog_step.cases) simp_all
  next
    case 4
    with step show ?thesis unfolding clock_crash_def by (cases rule: prog_step.cases) simp_all
  qed
qed

lemma at_work_finishes:
  assumes "at_work L i g w" and "bq_main sizeof L argc w" and "argc \<le> 1" and "sizes_ok sizeof" and "program_layout L"
  shows "\<exists>w'. (bq_step L)\<^sup>*\<^sup>* w w' \<and> fst (mach w') = Finished"
  using assms(1,2)
proof (induction "load g (snd (mach w))" arbitrary: g w rule: less_induct)
  case less
  have "slots_fine L w" by (rule main_slots [OF assms(3) less.prems(2) assms(4,5)])
  from at_work_progress [OF less.prems(1) assms(5) this] obtain w1 where
    w1: "bq_step L w w1" "progress L i (load g (snd (mach w))) w1" by blast
  have run: "bq_main sizeof L argc w1" by (rule main_run [OF assms(3) less.prems(2) w1(1)])
  have "\<exists>w'. (bq_step L)\<^sup>*\<^sup>* w1 w' \<and> fst (mach w') = Finished"
  proof (cases "fst (mach w1) = In_main \<and> all_done L (snd (mach w1))")
    case True
    then have "bq_step L w1 \<lparr>mach = (Finished, snd (mach w1)), now = Return, suspended = suspended w1\<rparr>" by (simp add: done_steps)
    then show ?thesis by (intro exI [of _ "\<lparr>mach = (Finished, snd (mach w1)), now = Return, suspended = suspended w1\<rparr>"]) auto
  next
    case False
    with w1(2) obtain g1 where "at_work L i g1 w1" "load g1 (snd (mach w1)) < load g (snd (mach w))" by (auto simp: progress_def)
    with less.hyps run show ?thesis by blast
  qed
  with w1(1) show ?case by (meson converse_rtranclp_into_rtranclp)
qed

lemma goes_on_finishes:
  assumes "test_goes_on L w" and "bq_main sizeof L argc w" and "argc \<le> 1" and "sizes_ok sizeof" and "program_layout L"
  shows "clock_crash w \<or> (\<exists>w'. (bq_step L)\<^sup>*\<^sup>* w w' \<and> fst (mach w') = Finished)"
proof -
  from assms(1) consider i g where "at_work L i g w" | "fst (mach w) = In_main" "all_done L (snd (mach w))"
    | "fst (mach w) = Finished" | "clock_crash w" unfolding test_goes_on_def by blast
  then show ?thesis
  proof cases
    case 1
    from at_work_finishes [OF this assms(2-5)] show ?thesis ..
  next
    case 2
    then have "bq_step L w \<lparr>mach = (Finished, snd (mach w)), now = Return, suspended = suspended w\<rparr>" by (simp add: done_steps)
    then show ?thesis by (intro disjI2 exI [of _ "\<lparr>mach = (Finished, snd (mach w)), now = Return, suspended = suspended w\<rparr>"]) auto
  qed auto
qed

lemma steps_go_on:
  assumes "(bq_step L)\<^sup>*\<^sup>* w w'" and "bq_main sizeof L argc w" and "argc \<le> 1" and "sizes_ok sizeof" and "program_layout L"
    and "test_goes_on L w"
  shows "bq_main sizeof L argc w' \<and> test_goes_on L w'"
  using assms(1)
proof (induction rule: rtranclp_induct)
  case base
  then show ?case using assms by simp
next
  case (step w1 w2)
  then show ?case
    using main_run [OF assms(3)] test_keeps_on [OF assms(5) main_slots [OF assms(3) _ assms(4,5)]] by blast
qed

lemma halted_stays:
  assumes "(bq_step L)\<^sup>*\<^sup>* w w'" and "fst (mach w) = Finished \<or> fst (mach w) = Crashed e"
  shows "w' = w"
proof -
  have "\<not> bq_step L w v" for v
  proof
    assume "bq_step L w v"
    then show False using assms(2) by (cases rule: prog_step.cases) simp_all
  qed
  with assms(1) show ?thesis by (metis converse_rtranclpE)
qed

text \<open>
  A run of the program without a log, in which the clock has not overflowed, can always be continued to its end, where
  the counters say that eleven checks were made, of which at most one failed.
\<close>

lemma whole_run:
  assumes run: "bq_main sizeof L argc w" and quiet: "argc \<le> 1" and sz: "sizes_ok sizeof" and L: "program_layout L"
  shows "clock_crash w \<or> (\<exists>w'. (bq_step L)\<^sup>*\<^sup>* w w' \<and> fst (mach w') = Finished)"
    and "fst (mach w) = Finished \<Longrightarrow> all_done L (snd (mach w))"
proof -
  have unit: "unit_layout L" using L by (simp add: program_layout_def)
  have on: "test_goes_on L w0" if "unit_ended L w0" for w0 using ended_at_work [OF that] by (simp add: test_goes_on_def)
  from unit_run [OF run sz quiet unit] consider "clock_crash w" | w' where "(bq_step L)\<^sup>*\<^sup>* w w'" "unit_ended L w'"
    | "bq_main sizeof L argc w" "test_goes_on L w" using on steps_go_on [OF _ _ quiet sz L] by blast
  then have "(clock_crash w \<or> (\<exists>w'. (bq_step L)\<^sup>*\<^sup>* w w' \<and> fst (mach w') = Finished)) \<and>
    (fst (mach w) = Finished \<longrightarrow> all_done L (snd (mach w)))"
  proof cases
    case 1
    then show ?thesis by (simp add: clock_crash_def)
  next
    case (2 w')
    have "bq_main sizeof L argc w'" using 2(1) run by (induction rule: rtranclp_induct) (blast intro: main_run [OF quiet])+
    moreover have "\<not> clock_crash w'" using 2(2) by (auto simp: unit_ended_def finished_def clock_crash_def)
    ultimately have "\<exists>w'. (bq_step L)\<^sup>*\<^sup>* w w' \<and> fst (mach w') = Finished"
      using goes_on_finishes [OF on [OF 2(2)] _ quiet sz L] 2(1) by (meson rtranclp_trans)
    moreover have "fst (mach w) \<noteq> Finished" using halted_stays [OF 2(1)] 2(2) by (auto simp: unit_ended_def finished_def)
    ultimately show ?thesis by blast
  next
    case 3
    with goes_on_finishes [OF 3(2,1) quiet sz L] show ?thesis
      by (auto simp: test_goes_on_def at_work_def clock_crash_def)
  qed
  then show "clock_crash w \<or> (\<exists>w'. (bq_step L)\<^sup>*\<^sup>* w w' \<and> fst (mach w') = Finished)"
    and "fst (mach w) = Finished \<Longrightarrow> all_done L (snd (mach w))" by blast+
qed

end
