(* ===== verification/Test_Properties.thy ===== *)
theory Test_Properties
  imports Crew_Runs
begin

text \<open>
  The properties of the two test programs of the repository, over all the interleavings that the scheduler and the
  timer can produce.
\<close>

section \<open>The programs stay inside the model of the machine\<close>

text \<open>
  C32: the runs of both test programs are runs of the machine: whatever the timer does, no function of theirs returns
  into \<open>main_context\<close>, so every world they reach without a fault is a reachable state of the machine, with everything
  that is shown of those.
\<close>

theorem test_programs_run_on_machine:
  assumes "bq_main sizeof L argc w \<or> os_main sizeof M shown argc w" and "sizes_ok sizeof" and "\<forall>e. fst (mach w) \<noteq> Crashed e"
  shows "\<not> returned w \<and> (\<exists>f. reachable sizeof f 0 (1 < argc) (mach w)) \<and> kernel_ok (snd (mach w))"
proof -
  have order: "(\<exists>P. in_order P w) \<and> (\<exists>f. reachable sizeof f 0 (1 < argc) (mach w))"
    using assms(1)
  proof
    assume "bq_main sizeof L argc w"
    from bq_run_in_order [OF this [unfolded bq_main_def] assms(2)] bq_run_reachable [OF this [unfolded bq_main_def] assms(2,3)]
    show ?thesis by blast
  next
    assume "os_main sizeof M shown argc w"
    from os_run_in_order [OF this [unfolded os_main_def] assms(2)] os_run_reachable [OF this [unfolded os_main_def] assms(2,3)]
    show ?thesis by blast
  qed
  moreover have "kernel_ok (snd (mach w))" if "in_order P w" for P
    using that assms(3) by (cases "mach w"; cases "fst (mach w)") (auto simp: in_order_def)
  ultimately show ?thesis using in_order_running by blast
qed

text \<open>A world of each program: the first process has just been started.\<close>

lemma booted_world:
  assumes "sizes_ok sizeof"
  obtains k p where "prog_run sizeof out code f f_args False (arrive code (\<lambda>_. Between Return) (To_process p) k)"
    "running k = Some p" "cpu_state (pcbs k p) = Ctx_entry f f_args"
proof -
  show thesis
  proof (rule boots_first [OF assms, of out f f_args], goal_cases)
    case (1 k0 p k)
    from prog_run.Step [OF prog_run.Boot [OF 1(1)] prog_step.Resume [OF 1(7)]] 1 show ?case by (intro that [of p k]) simp_all
  qed
qed

theorem test_programs_run_on_machine_witness:
  "\<exists>w k. os_main (\<lambda>_. 64) \<lparr>at_main_init = 1, at_sleeper = 2, at_child = 3, addr_retval = 4\<rparr> ''0x3'' 1 w \<and> mach w = (In_process, k) \<and>
    now w = main_initFunction \<lparr>at_main_init = 1, at_sleeper = 2, at_child = 3, addr_retval = 4\<rparr> \<and>
    (\<exists>f. reachable (\<lambda>_. 64) f 0 False (In_process, k))"
proof -
  let ?M = "\<lparr>at_main_init = 1, at_sleeper = 2, at_child = 3, addr_retval = 4\<rparr>"
  have sz: "sizes_ok (\<lambda>_. 64)" by (simp add: sizes_ok_def)
  obtain out where main: "os_main (\<lambda>_. 64) ?M ''0x3'' 1 = prog_run (\<lambda>_. 64) out (os_code ?M) 1 0 False" by (simp add: os_main_def)
  obtain k p where
    w: "os_main (\<lambda>_. 64) ?M ''0x3'' 1 (arrive (os_code ?M) (\<lambda>_. Between Return) (To_process p) k)"
      "running k = Some p" "cpu_state (pcbs k p) = Ctx_entry 1 0"
    unfolding main by (rule booted_world [OF sz])
  let ?w = "arrive (os_code ?M) (\<lambda>_. Between Return) (To_process p) k"
  have "mach ?w = (In_process, k)" "now ?w = main_initFunction ?M" using w(3) by (simp_all add: arrive_def resumed_def os_code_def)
  with test_programs_run_on_machine [of "\<lambda>_. 64" undefined 1 ?w ?M "''0x3''"] w(1) sz show ?thesis by auto
qed

section \<open>The unit test\<close>

text \<open>
  C31: the unit test of the queues passes, however the timer interrupts it.  In every world of a run without a log,
  either the test is under way, no check has failed, no fault but an overflow of the clock has occurred, and unless it
  has, the program can still go on to the end of the test; or the run has been at the end of the test, with nine checks
  made, none failed, and the queue of the test deleted.
\<close>

theorem unit_test_passes:
  assumes "bq_main sizeof L argc w" and "sizes_ok sizeof" and "argc \<le> 1" and "unit_layout L"
  shows "(user_mem (snd (mach w)) (addr_failed L) = 0 \<and>
      (fst (mach w) = Crashed Signed_overflow \<or> (\<exists>w'. (bq_step L)\<^sup>*\<^sup>* w w' \<and> unit_passed L w'))) \<or>
    (\<exists>w0. bq_main sizeof L argc w0 \<and> unit_passed L w0 \<and> (bq_step L)\<^sup>*\<^sup>* w0 w)"
  using unit_test_run [OF assms] by (simp add: unit_underway_def)

text \<open>A layout of the variables.\<close>

definition demo_layout :: layout where
  "demo_layout = \<lparr>at_init = 1, at_producer = 2, at_consumer = 3, addr_run = 100, addr_failed = 104, addr_v = 108,
     addr_ret = 116, addr_cv = (\<lambda>p. 1000 + \<bar>offset_of p\<bar>)\<rparr>"

lemma demo_layout_ok [simp]: "unit_layout demo_layout" "layout_ok demo_layout"
  by (auto simp: demo_layout_def unit_layout_def layout_ok_def)

theorem unit_test_passes_witness:
  "\<exists>w. bq_main (\<lambda>_. 64) demo_layout 1 w \<and> unit_passed demo_layout w"
proof -
  have sz: "sizes_ok (\<lambda>_. 64)" by (simp add: sizes_ok_def)
  obtain out where main: "bq_main (\<lambda>_. 64) demo_layout 1 = prog_run (\<lambda>_. 64) out (bq_code demo_layout) (at_init demo_layout) 0 False"
    by (simp add: bq_main_def)
  obtain k p where w: "bq_main (\<lambda>_. 64) demo_layout 1 (arrive (bq_code demo_layout) (\<lambda>_. Between Return) (To_process p) k)"
    unfolding main by (rule booted_world [OF sz])
  let ?w = "arrive (bq_code demo_layout) (\<lambda>_. Between Return) (To_process p) k"
  have "fst (mach ?w) \<noteq> Crashed Signed_overflow" by (simp add: arrive_def)
  with unit_test_passes [OF w sz] obtain w' where
    "(bq_step demo_layout)\<^sup>*\<^sup>* ?w w' \<and> unit_passed demo_layout w' \<or> bq_main (\<lambda>_. 64) demo_layout 1 w' \<and> unit_passed demo_layout w'"
    by auto
  then show ?thesis
  proof
    assume w': "(bq_step demo_layout)\<^sup>*\<^sup>* ?w w' \<and> unit_passed demo_layout w'"
    from this [THEN conjunct1] have "bq_main (\<lambda>_. 64) demo_layout 1 w'"
      by (induction rule: rtranclp_induct) (use w prog_run.Step in \<open>auto simp: main\<close>)
    with w' show ?thesis by blast
  qed blast
qed

section \<open>The workers\<close>


text \<open>A producer without a queue: its calls fail, and it exits.\<close>

definition no_queue :: "ptr \<Rightarrow> kernel \<Rightarrow> bool" where
  "no_queue r k \<longleftrightarrow> alone r 0 k \<and> bqueue_named QID k = None"

lemma no_queue_fields [simp]: "no_queue r (print_out s k) = no_queue r k"
  by (simp add: no_queue_def bqueue_named_def)







section \<open>The whole program\<close>

text \<open>
  C4: the test program runs to its end, in every interleaving of its eighteen workers and its first process and whenever
  the timer ticks.  A world of a run without a log has crashed only if a tick made the clock overflow; the test is over only
  with eleven checks made, of which at most one, that of the deletion of the shared queue, failed; and from every other
  world the program can go on to its end: the processes cannot deadlock on the queue or in \<open>wait\<close>, and no pool runs out.
\<close>

theorem test_program_completes:
  assumes "bq_main sizeof L argc w" and "argc \<le> 1" and "sizes_ok sizeof" and "program_layout L"
  shows "case fst (mach w) of
      Crashed e \<Rightarrow> e = Signed_overflow \<and> timerHandler (snd (mach w)) = Inl Signed_overflow
    | Finished \<Rightarrow> user_mem (snd (mach w)) (addr_run L) = 11 \<and> user_mem (snd (mach w)) (addr_failed L) \<in> {0, 1}
    | _ \<Rightarrow> \<exists>w'. (bq_step L)\<^sup>*\<^sup>* w w' \<and> fst (mach w') = Finished"
proof (cases "fst (mach w)")
  case (Crashed e)
  then have "fst (mach w') \<noteq> Finished" if "(bq_step L)\<^sup>*\<^sup>* w w'" for w' using halted_stays [OF that] by auto
  with whole_run(1) [OF assms] Crashed show ?thesis by (auto simp: clock_crash_def)
qed (use whole_run [OF assms] in \<open>auto simp: clock_crash_def all_done_def\<close>)

theorem test_program_completes_witness:
  "\<exists>w. bq_main (\<lambda>_. 64) demo_layout 1 w \<and> fst (mach w) = Finished \<and> user_mem (snd (mach w)) (addr_run demo_layout) = 11"
proof -
  have sz: "sizes_ok (\<lambda>_. 64)" and L: "program_layout demo_layout"
    using demo_layout_ok by (auto simp: sizes_ok_def program_layout_def) (simp_all add: demo_layout_def)
  obtain out where main: "bq_main (\<lambda>_. 64) demo_layout 1 = prog_run (\<lambda>_. 64) out (bq_code demo_layout) (at_init demo_layout) 0 False"
    by (simp add: bq_main_def)
  obtain k p where w: "bq_main (\<lambda>_. 64) demo_layout 1 (arrive (bq_code demo_layout) (\<lambda>_. Between Return) (To_process p) k)"
    "cpu_state (pcbs k p) = Ctx_entry (at_init demo_layout) 0"
    unfolding main by (rule booted_world [OF sz])
  let ?w = "arrive (bq_code demo_layout) (\<lambda>_. Between Return) (To_process p) k"
  have "fst (mach ?w) = In_process" using w(2) by (simp add: arrive_def)
  with test_program_completes [OF w(1) _ sz L] obtain w' where w': "(bq_step demo_layout)\<^sup>*\<^sup>* ?w w'" "fst (mach w') = Finished"
    by auto
  from w'(1) have run: "bq_main (\<lambda>_. 64) demo_layout 1 w'"
    by (induction rule: rtranclp_induct) (use w(1) in \<open>auto intro: main_run\<close>)
  from test_program_completes [OF run _ sz L] w'(2) have "user_mem (snd (mach w')) (addr_run demo_layout) = 11" by simp
  with run w'(2) show ?thesis by blast
qed

end
