(* ===== verification/Spec2Isabelle.thy ===== *)
theory Spec2Isabelle
  imports Contexts Storage_Properties Process_Properties Resource_Properties Queue_Properties Test_Properties
begin

text \<open>
  Verification of disastrOS (\<open>src/coda-bloccante-implementata\<close>), a teaching operating system that runs as one
  UNIX process: processes are contexts of \<open>ucontext\<close>, a signal is the timer, and system calls are traps into a
  context of their own.  Its own addition are blocking queues, bounded buffers on which \<open>put\<close> and \<open>get\<close> block.

  The parts of the program and the theories that model them.  A model has the name of the C function or of the
  struct's field it stands for.

  \<^item> \<open>Linked_List\<close>: \<open>linked_list.c\<close>, the intrusive doubly linked lists.  One memory holds a cell for every item
    and every head; \<open>contents m h\<close> reads a head as a HOL list and \<open>lists_ok\<close> says that all lists are well formed
    and disjoint.
  \<^item> \<open>Pool_Allocator\<close>: \<open>pool_allocator.c\<close>, blocks of fixed size whose free list is an array of indices.  \<open>live\<close>
    is the set of blocks handed out, \<open>pool_ok\<close> the invariant.
  \<^item> \<open>Kernel_State\<close>: \<open>disastrOS_constants.h\<close>, \<open>disastrOS_globals.h\<close>, the structs of the other headers and the
    static buffers, as the record \<open>kernel\<close>; the list and pool operations on it.
  \<^item> \<open>Processes\<close>, \<open>Timers\<close>, \<open>Resources\<close>, \<open>BQueues\<close>: the objects of the kernel with their allocation, lookup and
    printing (\<open>disastrOS_pcb.c\<close>, \<open>disastrOS_timer.c\<close>, \<open>disastrOS_resource.c\<close>, \<open>disastrOS_descriptor.c\<close>,
    \<open>bqueue.c\<close>); \<open>Status\<close>: \<open>disastrOS_printStatus\<close>.
  \<^item> \<open>Process_Syscalls\<close>, \<open>Resource_Syscalls\<close>, \<open>BQueue_Syscalls\<close>: the handlers of the fifteen system calls, one C
    file each, with \<open>internal_schedule\<close>.
  \<^item> \<open>Kernel\<close>: \<open>disastrOS.c\<close>, with the timer interrupt, the copying of the arguments, the trap, the wrappers of the
    calls and \<open>disastrOS_start\<close>; \<open>Contexts\<close>: the contexts that \<open>disastrOS_start\<close> and \<open>spawn\<close> build and
    \<open>setupSignals\<close>, with what follows for the places at which the timer can tick.
  \<^item> \<open>Programs\<close>, \<open>Test_Programs\<close>: process functions as programs, trees of actions (system calls, output, memory), and the
    two test programs, \<open>disastrOS_test_bqueue.c\<close> (the unit test of the queues, producers and consumers) and
    \<open>disastrOS_test.c\<close> (children that open resources and sleep), with the system that runs them.

  How they interact.  A process calls \<open>disastrOS_syscall\<close>, which copies the arguments into its PCB and enters the
  trap; the trap looks the handler up in \<open>syscall_vector\<close>; the handler works on the global state, moves processes
  between the ready, the waiting and the zombie list and chooses \<open>running\<close>; the end of the trap transfers control to
  it.  The timer interrupt wakes the sleepers that are due and preempts.  In the model a function of C takes the state
  and returns it updated; what can go wrong in C (a null pointer, an index out of bounds, a failed assertion, a signed
  overflow, a loop that does not end) is a value of \<open>fault\<close> and ends the computation.  A transfer of control with
  \<open>setcontext\<close> is a value of \<open>control\<close>.  \<open>Machine\<close> composes all this to a step relation: between two calls a process may
  write its memory and print, and the timer may tick at any time it runs.  \<open>prog_step\<close> refines it: a running process does
  the next action of its program, a fresh context enters the program of its entry point, a saved one goes on where it was.

  What the lemmas show.

  \<^item> \<open>Interfaces\<close> states as locales what the parts promise each other: a store of blocks, a queue, a machine with an
    invariant.  They are interpreted on the pool allocator, on the linked lists and on the machine.
  \<^item> \<open>Kernel_Ops\<close> and \<open>Kernel_Inv\<close>: the invariant \<open>kernel_ok\<close>, one conjunct for the memory, the scheduler, the
    family tree, the pids, the timers, the waiting getters and putters, the blocked calls, the queues, the resources
    and the blocks in use.
  \<^item> \<open>Scheduling\<close>, \<open>Process_Correct\<close>, \<open>Exit_Correct\<close>, \<open>Timer_Correct\<close>, \<open>Resource_Correct\<close>, \<open>BQueue_Waiting\<close>,
    \<open>BQueue_Put\<close>, \<open>BQueue_Get\<close>, \<open>BQueue_Admin\<close>, \<open>Printing\<close>: every branch of every handler, with its effect and the
    invariant kept; \<open>Handlers\<close> and \<open>System\<close> collect them.
  \<^item> \<open>BQueue_Spec\<close>, \<open>Calls\<close>: the contract of a queue as a bounded buffer with waiting getters and putters, and its
    refinement by the calls; \<open>Queue_Frame\<close>: what leaves the queues, the processes and the memory alone; \<open>Process_Frame\<close>:
    the most that any system call can do to them; \<open>Queue_Runs\<close>: a queue over a whole run of the machine.
  \<^item> \<open>Program_Logic\<close>: a policy that the functions of a program keep to holds in every interleaving of its processes;
    \<open>Test_Runs\<close> shows it of both test programs.  \<open>Outlines\<close>: assertions between the actions of a process that runs
    alone, which the ticks of the timer do not falsify; \<open>Queue_Test\<close> is the outline of the unit test.
  \<^item> \<open>Views\<close>: a part of the kernel that a handler leaves alone in whatever state it starts, as a contract that the
    settings, the next pid and the parents meet.
  \<^item> \<open>Team\<close>, \<open>Crew\<close>, \<open>Crew_Calls\<close>, \<open>Crew_Leader\<close>, \<open>Crew_Steps\<close>, \<open>Crew_Runs\<close>: the concurrent test.  \<open>Team\<close> says what
    a worker and the first process are still going to do, with a bound on their actions; \<open>Crew\<close> what holds of the kernel
    meanwhile, with the count of puts and gets that rules a deadlock out; the others that every call, every other action
    and every tick keep it, and what this means for the runs from the boot to the shutdown.
  \<^item> \<open>Boot\<close>, \<open>Machine\<close>, \<open>Fairness\<close>, \<open>Hazards\<close>: the start from the zeroed static storage, the invariant of the
    machine, round robin, and what the kernel does at its edges.
  \<^item> \<open>Demo\<close>: concrete states.  The properties are in \<open>Storage_Properties\<close>, \<open>Process_Properties\<close>, \<open>Resource_Properties\<close>,
    \<open>Queue_Properties\<close>, \<open>Test_Properties\<close> and here, each followed by its application to a concrete state.

  Bounds.  The loops of C are \<open>c_while\<close>, a \<open>while_option\<close> whose undefined value is the fault \<open>Diverges\<close>, so there is
  no fuel, and a lemma with \<open>ok_with\<close> or with an equation \<open>Inr\<close> says that the code returns.  Signed arithmetic on
  \<open>int\<close> that can overflow is \<open>add_int\<close>, with a fault; conversions wrap (\<open>to_int\<close>, \<open>to_ulong\<close>).  The sizes of the
  structs are a parameter \<open>sizeof\<close>; the boot is shown for all sizes with \<open>sizes_ok\<close> (positive and below 2 to the 16th),
  for which the buffers stay below 2 GB.

  Not modelled.

  \<^item> Ticks in the kernel: a tick comes between two calls.  \<open>Contexts\<close> shows that the timer is masked in the trap and not
    in the interrupt; a tick that comes while \<open>timerInterrupt\<close> runs, or in \<open>main_context\<close>, is not a step of the machine.
  \<^item> Stacks and the contents of contexts: a context is unset, an entry point with its argument, or saved.
  \<^item> Ticks inside an action of a program: a call of \<open>printf\<close> or a read of a variable is one step.  The addresses of functions
    and variables are parameters (\<open>layout\<close>), what \<open>getc\<close> reads is arbitrary, \<open>fflush\<close> does nothing.  A process function
    that returns is not a step of the machine; \<open>Hazards\<close> shows what happens then, and a property below that no function of
    the test programs returns.  The variant of the concurrent test with \<open>USE_WAIT\<close> set to 0 is compiled out.
  \<^item> Debug output under \<open>_DISASTROS_DEBUG_\<close> and the checks under \<open>_LIST_DEBUG_\<close>, which the build leaves out.
\<close>

section \<open>The invariant of the system\<close>

text \<open>
  C1: whatever system calls the processes make, with whatever arguments, and whenever the timer ticks, every state that
  the system reaches from its start without a fault satisfies the invariant of the kernel, and what the machine executes
  agrees with the kernel's idea of it.
\<close>

theorem system_invariant:
  assumes "sizes_ok sizeof" and "reachable sizeof f f_args logging (m, k)" and "\<forall>e. m \<noteq> Crashed e"
  shows "kernel_ok k \<and> (m = In_process \<longrightarrow> running k \<noteq> None) \<and> (m = In_interrupt \<longrightarrow> running k = None) \<and>
    (m = Finished \<longrightarrow> shutdown_now k \<noteq> 0)"
  using machine_reachable [OF assms(1,2)] assms(3) by (cases m) auto

theorem system_invariant_witness:
  "\<exists>k. reachable (\<lambda>_. 64) 1 0 False (In_process, k) \<and> kernel_ok k \<and> running k \<noteq> None"
proof -
  have sz: "sizes_ok (\<lambda>_. 64)" by (simp add: sizes_ok_def)
  from first_process [OF this, of 1 0] obtain k where k: "reachable (\<lambda>_. 64) 1 0 False (In_process, k)" by metis
  with system_invariant [OF sz k] show ?thesis by blast
qed



text \<open>
  C17: in every such state no block is lost: the free blocks of each pool and those in use add up to its size, and each
  link, timer, resource, queue and item in use is on a list of the kernel, so that some operation can still free it.
\<close>

theorem blocks_never_lost:
  assumes "sizes_ok sizeof" and "reachable sizeof f f_args logging (m, k)" and "\<forall>e. m \<noteq> Crashed e"
  shows "int (card (in_use k r)) + room k r = pa_size_max (pools k r) \<and>
    (r \<in> {Pcb_ptr_buffer, Timer_item_buffer, Resources_buffer, Bq_buffer, Bqitem_buffer} \<longrightarrow>
      (\<forall>x \<in> in_use k r. \<exists>h. kind h = r \<and> x \<in> set (lst k h)))"
proof -
  have ok: "kernel_ok k" using machine_reachable [OF assms(1,2)] assms(3) by (cases m) auto
  show ?thesis using blocks_accounted [OF ok] leak_free_listed [OF kernel_okD(11) [OF ok]] by blast
qed

theorem blocks_never_lost_witness:
  "\<exists>k. reachable (\<lambda>_. 64) 1 0 False (In_process, k) \<and>
    int (card (in_use k Bq_buffer)) + room k Bq_buffer = pa_size_max (pools k Bq_buffer)"
proof -
  have sz: "sizes_ok (\<lambda>_. 64)" by (simp add: sizes_ok_def)
  from first_process [OF this, of 1 0] obtain k where k: "reachable (\<lambda>_. 64) 1 0 False (In_process, k)" by metis
  with blocks_never_lost [OF sz k] show ?thesis by blast
qed



section \<open>Start and end\<close>

text \<open>
  C34: \<open>disastrOS_start\<close> on the static storage initialises every pool and list without a fault and starts the first
  process: pid 0, running, without a parent, in a state that satisfies the invariant, with all other blocks free.
\<close>

theorem start_boots:
  assumes "sizes_ok sizeof"
  shows "ok_with (disastrOS_start sizeof f f_args logging zero_kernel) (\<lambda>res. \<exists>p k. res = Some (To_process p, k) \<and>
    kernel_ok k \<and> running k = Some p \<and> init_pcb k = Some p \<and> in_use k Pcb_buffer = {p} \<and> pid (pcbs k p) = 0 \<and>
    status (pcbs k p) = Running \<and> parent (pcbs k p) = None \<and> cpu_state (pcbs k p) = Ctx_entry f f_args)"
  by (rule start_ok [OF assms])

theorem start_boots_witness:
  "ok_with (disastrOS_start (\<lambda>_. 64) 1 2 True zero_kernel) (\<lambda>res. \<exists>p k. res = Some (To_process p, k) \<and>
    cpu_state (pcbs k p) = Ctx_entry 1 2)"
  by (rule ok_with_mono [OF start_boots [of "\<lambda>_. 64" 1 2 True]]) (auto simp: sizes_ok_def)



section \<open>System calls\<close>



text \<open>
  C36: numbers without a handler: below 0 and above 32 the call is refused without a trap; 0 and 16 to 31 get the error
  of a call that is not implemented; 32 passes the guards, which compare with \<open>>\<close>, and reads past the end of the tables.
\<close>

theorem other_call_numbers:
  assumes "running k = Some r" and "log_file k = None" and "n \<le> 0 \<or> 16 \<le> n"
  shows "disastrOS_syscall n va k =
    (if n < 0 \<or> 32 < n then Inr (Inl DSOS_ESYSCALL_OUT_OF_RANGE)
     else if n = 32 then Inl Out_of_bounds
     else Inr (Inr (To_process r, set_retvalue r DSOS_ESYSCALL_NOT_IMPLEMENTED (trapped r n (syscall_args (pcbs k r)) k))))"
proof -
  consider "n < 0 \<or> 32 < n" | "n = 32" | "n = 0 \<or> 16 \<le> n \<and> n < 32" using assms(3) by linarith
  then show ?thesis
    using syscall_refused [OF assms(1)] syscall_32 [OF assms(1)] syscall_hole [OF assms(1,2)] by cases auto
qed

theorem other_call_numbers_witness:
  "disastrOS_syscall 32 [] (busy (\<lambda>_. 4) 0 (\<lambda>_. 0)) = Inl Out_of_bounds \<and>
    disastrOS_syscall 33 [] (busy (\<lambda>_. 4) 0 (\<lambda>_. 0)) = Inr (Inl DSOS_ESYSCALL_OUT_OF_RANGE)"
  using other_call_numbers [of "busy (\<lambda>_. 4) 0 (\<lambda>_. 0)" "Addr Pcb_buffer 0" 32 "[]"]
    other_call_numbers [of "busy (\<lambda>_. 4) 0 (\<lambda>_. 0)" "Addr Pcb_buffer 0" 33 "[]"] by simp

text \<open>
  C37: a log file makes blocking dangerous: when the last process that is not blocked gets from an empty queue, the end of
  its trap reads the pid of the running process, which is null, to log the return.
\<close>

theorem logging_crashes_on_block:
  assumes "kernel_ok k" and "running k = Some r" and "log_file k \<noteq> None"
    and "- (2 ^ 31) \<le> qid" and "qid < 2 ^ 31" and "bqueue_named qid k = Some q"
    and "0 < room k Pcb_ptr_buffer" and "lst k (Items q) = []" and "lst k Ready_list = []"
  shows "disastrOS_bqGet qid out k = Inl Null_deref"
  by (rule bqGet_log_fault [OF assms])

theorem logging_crashes_on_block_witness:
  "\<exists>k. kernel_ok k \<and> running k \<noteq> None \<and> disastrOS_bqGet 7 0 k = Inl Null_deref"
proof -
  have quiet: "log_file (lone 0 (\<lambda>_. 0)) = None" by (simp add: lone_def zero_kernel_def)
  have "bqueue_named 7 (lone 0 (\<lambda>_. 0)) = None" by (simp add: bqueue_named_def)
  with bqCreate_ok [OF lone_ok _ quiet, of "Addr Pcb_buffer 0" 7 3] obtain k q where
    k: "kernel_ok k" "running k = Some (Addr Pcb_buffer 0)" "bqueue_named 7 k = Some q" "queue_view k q = bq_new 3"
      "lst k Ready_list = []" "room k Pcb_ptr_buffer = 4"
    by (auto simp: ok_with_iff)
  have "lst k (Items q) = []" using k(4) by (simp add: queue_view_def bq_new_def)
  with k logging_crashes_on_block [of "k\<lparr>log_file := Some []\<rparr>" "Addr Pcb_buffer 0" 7 q 0]
  show ?thesis by (intro exI [of _ "k\<lparr>log_file := Some []\<rparr>"]) (simp add: bqueue_named_def)
qed

end
